(* ===== verification/Bouncer_Prelude.thy ===== *)
theory Bouncer_Prelude
  imports Main "HOL-Library.AList" "HOL-Library.Multiset"
begin

text \<open>
  Shared vocabulary of the development: Go maps as association lists, the small facts about
  them that every component uses, and the collections of rewrite rules the proofs draw on.

  A Go map is an association list with distinct keys.  The order of the list is one
  iteration order of the map; Go leaves that order unspecified, so a function that ranges over
  a map takes the order as a parameter or is shown not to depend on it.  A nil map is the
  empty list: reading it, ranging over it and taking its length behave like an empty map.
\<close>

named_theorems gomap_simps "lookups and sizes of Go maps after an operation"
named_theorems text_simps "evaluation of the string functions of the Go library"

type_synonym ('k, 'v) gomap = "('k \<times> 'v) list"

definition gomap_ok :: "('k, 'v) gomap \<Rightarrow> bool" where
  "gomap_ok m \<longleftrightarrow> distinct (map fst m)"

abbreviation gomap_get :: "('k, 'v) gomap \<Rightarrow> 'k \<Rightarrow> 'v option" where
  "gomap_get m k \<equiv> map_of m k"

abbreviation gomap_has :: "('k, 'v) gomap \<Rightarrow> 'k \<Rightarrow> bool" where
  "gomap_has m k \<equiv> map_of m k \<noteq> None"

text \<open>The assignment \<open>m[k] = v\<close>.\<close>

definition gomap_put :: "'k \<Rightarrow> 'v \<Rightarrow> ('k, 'v) gomap \<Rightarrow> ('k, 'v) gomap" where
  "gomap_put k v m = AList.update k v m"

text \<open>\<open>maps.Copy(dst, src)\<close>: every entry of the source is assigned in the destination.\<close>

definition maps_Copy :: "('k, 'v) gomap \<Rightarrow> ('k, 'v) gomap \<Rightarrow> ('k, 'v) gomap" where
  "maps_Copy dst src = foldl (\<lambda>m (k, v). gomap_put k v m) dst src"

lemma gomap_get_put [gomap_simps, simp]:
  "gomap_get (gomap_put k v m) k' = (if k' = k then Some v else gomap_get m k')"
  by (simp add: gomap_put_def update_conv)

lemma gomap_ok_Nil [simp]: "gomap_ok []"
  by (simp add: gomap_ok_def)

lemma gomap_ok_put [simp, intro]: "gomap_ok m \<Longrightarrow> gomap_ok (gomap_put k v m)"
  by (simp add: gomap_ok_def gomap_put_def distinct_update)

lemma gomap_ok_ConsD: "gomap_ok ((k, v) # m) \<Longrightarrow> gomap_ok m \<and> gomap_get m k = None"
  by (auto simp: gomap_ok_def map_of_eq_None_iff)

lemma gomap_put_fresh: "gomap_get m k = None \<Longrightarrow> gomap_put k v m = m @ [(k, v)]"
proof (induction m)
  case Nil
  then show ?case by (simp add: gomap_put_def)
next
  case (Cons a m)
  then show ?case by (cases a) (auto simp: gomap_put_def split: if_splits)
qed

lemma length_gomap_put [gomap_simps]:
  "length (gomap_put k v m) = (if gomap_has m k then length m else Suc (length m))"
proof (induction m)
  case Nil
  then show ?case by (simp add: gomap_put_def)
next
  case (Cons a m)
  then show ?case by (cases a) (auto simp: gomap_put_def)
qed

lemma maps_Copy_append:
  "gomap_ok (dst @ src) \<Longrightarrow> maps_Copy dst src = dst @ src"
proof (induction src arbitrary: dst)
  case Nil
  then show ?case by (simp add: maps_Copy_def)
next
  case (Cons a src)
  obtain k v where a: "a = (k, v)" by fastforce
  from Cons.prems a have "gomap_get dst k = None"
    by (auto simp: gomap_ok_def map_of_eq_None_iff)
  then have "gomap_put k v dst = dst @ [a]"
    by (simp add: gomap_put_fresh a)
  moreover have "gomap_ok ((dst @ [a]) @ src)" using Cons.prems by simp
  ultimately show ?case
    using Cons.IH [of "dst @ [a]"] by (simp add: maps_Copy_def a)
qed

text \<open>Copying into a new map gives the same map, so a copy-on-write update keeps every entry.\<close>

lemma maps_Copy_Nil [simp]: "gomap_ok m \<Longrightarrow> maps_Copy [] m = m"
  using maps_Copy_append [of "[]" m] by simp

text \<open>Ranging over a map and assigning the entries that pass a test filters it.\<close>

definition maps_Keep :: "('k \<Rightarrow> bool) \<Rightarrow> ('k, 'v) gomap \<Rightarrow> ('k, 'v) gomap" where
  "maps_Keep P src = foldl (\<lambda>m (k, v). if P k then gomap_put k v m else m) [] src"

lemma maps_Keep_Copy:
  "foldl (\<lambda>m (k, v). if P k then gomap_put k v m else m) dst src
     = maps_Copy dst (filter (\<lambda>e. P (fst e)) src)"
  by (induction src arbitrary: dst) (auto simp: maps_Copy_def split: prod.splits)

lemma gomap_ok_filter [simp, intro]: "gomap_ok m \<Longrightarrow> gomap_ok (filter (\<lambda>e. P (fst e)) m)"
  by (simp add: gomap_ok_def distinct_map_filter)

lemma maps_Keep_filter: "gomap_ok m \<Longrightarrow> maps_Keep P m = filter (\<lambda>e. P (fst e)) m"
  by (simp add: maps_Keep_def maps_Keep_Copy)

lemma gomap_ok_Keep [simp, intro]: "gomap_ok m \<Longrightarrow> gomap_ok (maps_Keep P m)"
  by (simp add: maps_Keep_filter)

lemma map_of_filter_key: "map_of (filter (\<lambda>e. P (fst e)) m) k = (if P k then map_of m k else None)"
  by (induction m) auto

lemma gomap_get_Keep [gomap_simps, simp]:
  "gomap_ok m \<Longrightarrow> gomap_get (maps_Keep P m) k = (if P k then gomap_get m k else None)"
  by (simp add: maps_Keep_filter map_of_filter_key)

lemma gomap_values: "gomap_ok m \<Longrightarrow> set (map snd m) = ran (map_of m)"
  by (simp add: gomap_ok_def ran_distinct)

lemma length_filter_one:
  assumes "gomap_ok m" "gomap_has m k"
  shows "Suc (length (filter (\<lambda>e. fst e \<noteq> k) m)) = length m"
  using assms
proof (induction m)
  case Nil
  then show ?case by simp
next
  case (Cons a m)
  show ?case
  proof (cases "fst a = k")
    case True
    with Cons.prems(1) have "k \<notin> fst ` set m" by (simp add: gomap_ok_def)
    then have "\<forall>e \<in> set m. fst e \<noteq> k" by (metis image_eqI)
    with True show ?thesis by simp
  next
    case False
    with Cons.prems have "gomap_ok m" "gomap_has m k"
      by (auto simp: gomap_ok_def split: if_splits)
    with False Cons.IH show ?thesis by simp
  qed
qed

lemma length_gomap_Keep_neq [gomap_simps]:
  assumes "gomap_ok m"
  shows "length (maps_Keep (\<lambda>k'. k' \<noteq> k) m) = (if gomap_has m k then length m - 1 else length m)"
proof (cases "gomap_has m k")
  case True
  with assms length_filter_one [OF assms True] show ?thesis by (simp add: maps_Keep_filter)
next
  case False
  then have "\<forall>e \<in> set m. fst e \<noteq> k" by (force simp: map_of_eq_None_iff)
  with assms False show ?thesis by (simp add: maps_Keep_filter)
qed

text \<open>
  The iteration order of a map: a parameter that rearranges the entries.  The law says that
  every entry is visited exactly once, which is what the language guarantees.
\<close>

definition range_order :: "(('k \<times> 'v) list \<Rightarrow> ('k \<times> 'v) list) \<Rightarrow> bool" where
  "range_order ord \<longleftrightarrow> (\<forall>m. mset (ord m) = mset m)"

lemma range_order_set: "range_order ord \<Longrightarrow> set (ord m) = set m"
  by (metis range_order_def set_mset_mset)

lemma range_order_length: "range_order ord \<Longrightarrow> length (ord m) = length m"
  by (metis range_order_def size_mset)

lemma range_order_id [simp]: "range_order (\<lambda>m. m)"
  by (simp add: range_order_def)

lemma range_order_rev [simp]: "range_order rev"
  by (simp add: range_order_def)

end
