(* ===== verification/Policy.thy ===== *)
theory Policy
  imports Bouncer_Prelude
begin

text \<open>
  The policy data model and its compilation, \<open>internal/store/policy.go\<close>.

  An access mode is a Go string type, so any string can occur in a policy; the store and the
  subscriber decide what to do with an unknown one.  The regular-expression engine of the Go
  library is a parameter of the model, a record of its two entry points: the type variable
  \<open>'r\<close> is the type of compiled expressions, and a \<open>nil\<close> pointer is \<open>None\<close>.
\<close>

record 'r regexp_lib =
  rx_Compile :: "string \<Rightarrow> string + 'r"
  rx_MatchString :: "'r \<Rightarrow> string \<Rightarrow> bool"

type_synonym Access = string

definition AccessAllow :: Access where "AccessAllow = ''ALLOW''"
definition AccessDeny :: Access where "AccessDeny = ''DENY''"

lemma Access_distinct [simp]: "AccessAllow \<noteq> AccessDeny" "AccessDeny \<noteq> AccessAllow"
  by (simp_all add: AccessAllow_def AccessDeny_def)

record target =
  tg_ResourceType :: string
  tg_Action :: string

record 'r condition =
  cond_Attribute :: string
  cond_Operator :: string
  cond_Value :: "string list"
  cond_CompiledRegex :: "'r option"

record 'r policy =
  pol_ID :: string
  pol_Description :: string
  pol_Access :: Access
  pol_Target :: target
  pol_Conditions :: "'r condition list"

datatype compile_error = InvalidRegex (err_policy: string) (err_pattern: string) (err_cause: string)

text \<open>
  The loop of \<open>Compile\<close> works through pointers into the slice: conditions before a failing one
  have been compiled when the error is returned, and the ones after it are untouched.
\<close>

fun compile_conditions ::
  "'r regexp_lib \<Rightarrow> string \<Rightarrow> 'r condition list \<Rightarrow> 'r condition list \<times> compile_error option" where
  "compile_conditions rx pid [] = ([], None)"
| "compile_conditions rx pid (cond # conds) =
     (if cond_Operator cond \<noteq> ''REGEX'' \<or> cond_Value cond = [] then
        (case compile_conditions rx pid conds of (conds', err) \<Rightarrow> (cond # conds', err))
      else
        (case rx_Compile rx (hd (cond_Value cond)) of
           Inl msg \<Rightarrow> (cond # conds, Some (InvalidRegex pid (hd (cond_Value cond)) msg))
         | Inr compiled \<Rightarrow>
             (case compile_conditions rx pid conds of
                (conds', err) \<Rightarrow> (cond\<lparr>cond_CompiledRegex := Some compiled\<rparr> # conds', err))))"

definition Compile :: "'r regexp_lib \<Rightarrow> 'r policy \<Rightarrow> 'r policy \<times> compile_error option" where
  "Compile rx p =
     (case compile_conditions rx (pol_ID p) (pol_Conditions p) of
        (conds, err) \<Rightarrow> (p\<lparr>pol_Conditions := conds\<rparr>, err))"

subsection \<open>What compilation establishes\<close>

text \<open>A condition that needs a compiled expression, and one whose pointer is the right one.\<close>

definition needs_regex :: "'r condition \<Rightarrow> bool" where
  "needs_regex cond \<longleftrightarrow> cond_Operator cond = ''REGEX'' \<and> cond_Value cond \<noteq> []"

definition regex_ready :: "'r regexp_lib \<Rightarrow> 'r condition \<Rightarrow> bool" where
  "regex_ready rx cond \<longleftrightarrow>
     (needs_regex cond \<longrightarrow>
        (\<exists>r. rx_Compile rx (hd (cond_Value cond)) = Inr r \<and> cond_CompiledRegex cond = Some r))"

definition policy_ready :: "'r regexp_lib \<Rightarrow> 'r policy \<Rightarrow> bool" where
  "policy_ready rx p \<longleftrightarrow> (\<forall>cond \<in> set (pol_Conditions p). regex_ready rx cond)"

definition bad_regex :: "'r regexp_lib \<Rightarrow> 'r condition \<Rightarrow> bool" where
  "bad_regex rx cond \<longleftrightarrow> needs_regex cond \<and> isl (rx_Compile rx (hd (cond_Value cond)))"

text \<open>Forgetting the pointers: the part of a condition that comes from the document.\<close>

definition source_condition :: "'r condition \<Rightarrow> 'r condition" where
  "source_condition cond = cond\<lparr>cond_CompiledRegex := None\<rparr>"

definition source_policy :: "'r policy \<Rightarrow> 'r policy" where
  "source_policy p = p\<lparr>pol_Conditions := map source_condition (pol_Conditions p)\<rparr>"

lemma compile_conditions_source:
  "compile_conditions rx pid conds = (conds', err) \<Longrightarrow>
     map source_condition conds' = map source_condition conds"
  by (induction conds arbitrary: conds')
     (auto simp: source_condition_def split: if_splits sum.splits prod.splits)

lemma compile_conditions_ready:
  "compile_conditions rx pid conds = (conds', None) \<Longrightarrow> \<forall>cond \<in> set conds'. regex_ready rx cond"
  by (induction conds arbitrary: conds')
     (auto simp: regex_ready_def needs_regex_def split: if_splits sum.splits prod.splits)

definition first_regex_error ::
  "'r regexp_lib \<Rightarrow> string \<Rightarrow> 'r condition list \<Rightarrow> compile_error option" where
  "first_regex_error rx pid conds =
     map_option (\<lambda>cond. InvalidRegex pid (hd (cond_Value cond))
                   (projl (rx_Compile rx (hd (cond_Value cond)))))
       (List.find (bad_regex rx) conds)"

lemma compile_conditions_error:
  "snd (compile_conditions rx pid conds) = first_regex_error rx pid conds"
  by (induction conds)
     (auto simp: first_regex_error_def bad_regex_def needs_regex_def split: sum.splits prod.splits)

lemma Compile_ready:
  "Compile rx p = (p', None) \<Longrightarrow> policy_ready rx p'"
  by (auto simp: Compile_def policy_ready_def dest: compile_conditions_ready split: prod.splits)

lemma Compile_source: "Compile rx p = (p', err) \<Longrightarrow> source_policy p' = source_policy p"
  by (auto simp: Compile_def source_policy_def dest: compile_conditions_source split: prod.splits)

lemma Compile_fields [simp]:
  "pol_ID (fst (Compile rx p)) = pol_ID p"
  "pol_Access (fst (Compile rx p)) = pol_Access p"
  "pol_Target (fst (Compile rx p)) = pol_Target p"
  "pol_Description (fst (Compile rx p)) = pol_Description p"
  by (simp_all add: Compile_def split: prod.splits)

lemma Compile_ID: "Compile rx p = (p', err) \<Longrightarrow> pol_ID p' = pol_ID p \<and> pol_Access p' = pol_Access p"
  by (metis Compile_fields(1,2) fst_conv)

text \<open>
  A policy that \<open>Compile\<close> accepts is ready for evaluation: every REGEX condition with a
  pattern carries the compiled form of its first value, and nothing else in the document
  changed (identifier, access mode, target, attributes, operators and values are kept).
\<close>

theorem Compile_correct:
  assumes "Compile rx p = (p', None)"
  shows "policy_ready rx p' \<and> source_policy p' = source_policy p"
  using assms by (auto dest: Compile_ready Compile_source)

text \<open>
  \<open>Compile\<close> rejects exactly the policies with a REGEX condition whose first value does not
  compile, and its error names the policy, that pattern and the cause, for the first such
  condition; the patterns of other operators are never compiled.
\<close>

theorem Compile_error:
  "snd (Compile rx p) = first_regex_error rx (pol_ID p) (pol_Conditions p)"
  by (simp add: Compile_def compile_conditions_error [symmetric] split: prod.splits)

text \<open>
  An instance of the regular-expression parameter, for closed examples: every pattern without
  an opening bracket stands for itself, the others do not compile.
\<close>

definition literal_regexp :: "string regexp_lib" where
  "literal_regexp =
     \<lparr>rx_Compile = (\<lambda>s. if CHR ''['' \<in> set s then Inl ''missing closing ]'' else Inr s),
      rx_MatchString = (\<lambda>r v. r = v)\<rparr>"

definition mk_condition :: "string \<Rightarrow> string \<Rightarrow> string list \<Rightarrow> 'r condition" where
  "mk_condition attribute operator vals =
     \<lparr>cond_Attribute = attribute, cond_Operator = operator, cond_Value = vals,
      cond_CompiledRegex = None\<rparr>"

definition mk_policy :: "string \<Rightarrow> Access \<Rightarrow> string \<Rightarrow> string \<Rightarrow> 'r condition list \<Rightarrow> 'r policy" where
  "mk_policy pid acc rtype act conds =
     \<lparr>pol_ID = pid, pol_Description = [], pol_Access = acc,
      pol_Target = \<lparr>tg_ResourceType = rtype, tg_Action = act\<rparr>, pol_Conditions = conds\<rparr>"

definition regex_example :: "string policy" where
  "regex_example =
     mk_policy ''p'' AccessDeny ''doc'' ''READ'' [mk_condition ''principal.id'' ''REGEX'' [''bob'']]"

lemma regex_example_compiles:
  "Compile literal_regexp regex_example = (fst (Compile literal_regexp regex_example), None)"
  "map cond_CompiledRegex (pol_Conditions (fst (Compile literal_regexp regex_example))) = [Some ''bob'']"
  by (simp_all add: Compile_def regex_example_def mk_policy_def mk_condition_def literal_regexp_def)

theorem Compile_correct_witness:
  "policy_ready literal_regexp (fst (Compile literal_regexp regex_example))
     \<and> source_policy (fst (Compile literal_regexp regex_example)) = source_policy regex_example
     \<and> map cond_CompiledRegex (pol_Conditions (fst (Compile literal_regexp regex_example))) = [Some ''bob'']"
  using Compile_correct [OF regex_example_compiles(1)] regex_example_compiles(2) by blast

end
