(* ===== verification/Go_Text.thy ===== *)
theory Go_Text
  imports Bouncer_Prelude
begin

text \<open>
  The string functions of the Go standard library that the engine calls: \<open>strings.Cut\<close> and
  \<open>strconv.Atoi\<close>.  A Go string is a sequence of bytes, here a \<open>string\<close> whose characters are
  the bytes.  \<open>Itoa\<close> is the printer that \<open>Atoi\<close> inverts.
\<close>

subsection \<open>strings.Cut with a one-byte separator\<close>

fun strings_Cut :: "string \<Rightarrow> char \<Rightarrow> string \<times> string \<times> bool" where
  "strings_Cut [] sep = ([], [], False)"
| "strings_Cut (c # cs) sep =
     (if c = sep then ([], cs, True)
      else (case strings_Cut cs sep of (pre, post, found) \<Rightarrow> (c # pre, post, found)))"

lemma strings_Cut_found:
  "sep \<notin> set pre \<Longrightarrow> strings_Cut (pre @ sep # post) sep = (pre, post, True)"
  by (induction pre) auto

lemma strings_Cut_missing: "sep \<notin> set s \<Longrightarrow> strings_Cut s sep = (s, [], False)"
  by (induction s) auto

lemma strings_Cut_split:
  "strings_Cut s sep = (pre, post, found) \<Longrightarrow>
     sep \<notin> set pre \<and> (if found then s = pre @ sep # post else s = pre \<and> post = [])"
  by (induction s arbitrary: pre) (auto split: if_splits prod.splits)

subsection \<open>strconv.Atoi\<close>

definition digit_val :: "char \<Rightarrow> nat option" where
  "digit_val c = (let n = of_char c in if 48 \<le> n \<and> n \<le> 57 then Some (n - 48) else None)"

fun parse_digits :: "int \<Rightarrow> string \<Rightarrow> int option" where
  "parse_digits acc [] = Some acc"
| "parse_digits acc (c # cs) =
     (case digit_val c of None \<Rightarrow> None | Some d \<Rightarrow> parse_digits (10 * acc + int d) cs)"

text \<open>
  The result is \<open>None\<close> where \<open>Atoi\<close> returns an error: no digits, a character that is no digit,
  or a value outside the 64-bit \<open>int\<close>.  The callers only test the error for \<open>nil\<close>.
\<close>

definition int64_range :: "int \<Rightarrow> bool" where
  "int64_range v \<longleftrightarrow> - (2 ^ 63) \<le> v \<and> v < 2 ^ 63"

definition split_sign :: "string \<Rightarrow> bool \<times> string" where
  "split_sign s =
     (case s of [] \<Rightarrow> (False, [])
      | c # cs \<Rightarrow> if c = CHR ''-'' then (True, cs) else if c = CHR ''+'' then (False, cs)
                 else (False, s))"

definition Atoi :: "string \<Rightarrow> int option" where
  "Atoi s =
     (case split_sign s of (neg, ds) \<Rightarrow>
        if ds = [] then None
        else (case parse_digits 0 ds of
                None \<Rightarrow> None
              | Some n \<Rightarrow>
                  (let v = (if neg then - n else n)
                   in if int64_range v then Some v else None)))"

fun nat_digits :: "nat \<Rightarrow> string" where
  "nat_digits n =
     (if n < 10 then [char_of (48 + n)] else nat_digits (n div 10) @ [char_of (48 + n mod 10)])"

declare nat_digits.simps [simp del]

definition Itoa :: "int \<Rightarrow> string" where
  "Itoa v = (if v < 0 then CHR ''-'' # nat_digits (nat (- v)) else nat_digits (nat v))"

lemma of_char_digit: "d < 10 \<Longrightarrow> of_char (char_of (48 + d) :: char) = (48 + d :: nat)"
  by (simp add: of_char_of)

lemma digit_val_char [text_simps]: "d < 10 \<Longrightarrow> digit_val (char_of (48 + d)) = Some d"
  by (simp add: digit_val_def of_char_digit)

lemma digit_val_bound: "digit_val c = Some d \<Longrightarrow> d < 10"
  by (auto simp: digit_val_def Let_def split: if_splits)

lemma parse_digits_append:
  "parse_digits acc (xs @ ys) = Option.bind (parse_digits acc xs) (\<lambda>a. parse_digits a ys)"
  by (induction xs arbitrary: acc) (auto split: option.splits)

lemma nat_digits_nonempty [simp]: "nat_digits n \<noteq> []"
  by (subst nat_digits.simps) simp

lemma nat_digits_digits: "c \<in> set (nat_digits n) \<Longrightarrow> \<exists>d<10. c = char_of (48 + d :: nat)"
proof (induction n rule: nat_digits.induct)
  case (1 n)
  show ?case
  proof (cases "n < 10")
    case True
    with 1(2) show ?thesis by (subst (asm) nat_digits.simps) auto
  next
    case False
    with 1(2) have "c \<in> set (nat_digits (n div 10)) \<or> c = char_of (48 + n mod 10)"
      by (subst (asm) nat_digits.simps) auto
    with 1(1) [OF False] show ?thesis by (metis mod_less_divisor zero_less_numeral)
  qed
qed

lemma nat_digits_digit: "c \<in> set (nat_digits n) \<Longrightarrow> digit_val c \<noteq> None"
  by (drule nat_digits_digits) (auto simp: digit_val_char)

lemma parse_nat_digits [text_simps]: "parse_digits 0 (nat_digits n) = Some (int n)"
proof (induction n rule: nat_digits.induct)
  case (1 n)
  show ?case
  proof (cases "n < 10")
    case True
    then show ?thesis by (subst nat_digits.simps) (simp add: digit_val_char)
  next
    case False
    then have "parse_digits 0 (nat_digits (n div 10)) = Some (int (n div 10))" by (rule "1.IH")
    moreover have "10 * int (n div 10) + int (n mod 10) = int n" by (simp add: zdiv_int zmod_int)
    ultimately show ?thesis using False
      by (subst nat_digits.simps) (simp add: parse_digits_append digit_val_char)
  qed
qed

lemma nat_digits_no_sign: "hd (nat_digits n) \<noteq> CHR ''-'' \<and> hd (nat_digits n) \<noteq> CHR ''+''"
proof -
  have "hd (nat_digits n) \<in> set (nat_digits n)" by simp
  then have "digit_val (hd (nat_digits n)) \<noteq> None" by (rule nat_digits_digit)
  then show ?thesis by (auto simp: digit_val_def)
qed

lemma split_sign_nat_digits: "split_sign (nat_digits n) = (False, nat_digits n)"
  using nat_digits_no_sign [of n] by (cases "nat_digits n") (auto simp: split_sign_def)

lemma Atoi_nat_digits: "n < 2 ^ 63 \<Longrightarrow> Atoi (nat_digits n) = Some (int n)"
  by (simp add: Atoi_def split_sign_nat_digits parse_nat_digits int64_range_def)

lemma Atoi_Itoa [text_simps]: "int64_range v \<Longrightarrow> Atoi (Itoa v) = Some v"
proof (cases "v < 0")
  case True
  moreover assume "int64_range v"
  ultimately show ?thesis
    by (simp add: Itoa_def Atoi_def split_sign_def parse_nat_digits)
next
  case False
  moreover assume "int64_range v"
  ultimately show ?thesis
    by (simp add: Itoa_def Atoi_def split_sign_nat_digits parse_nat_digits)
qed

lemma Atoi_range: "Atoi s = Some v \<Longrightarrow> int64_range v"
  by (auto simp: Atoi_def Let_def split: prod.splits option.splits if_splits)

lemma Atoi_Itoa_overflow: "\<not> int64_range v \<Longrightarrow> Atoi (Itoa v) = None"
proof (cases "v < 0")
  case True
  moreover assume "\<not> int64_range v"
  ultimately show ?thesis
    by (simp add: Itoa_def Atoi_def split_sign_def parse_nat_digits)
next
  case False
  moreover assume "\<not> int64_range v"
  ultimately show ?thesis
    by (simp add: Itoa_def Atoi_def split_sign_nat_digits parse_nat_digits)
qed

subsection \<open>Case mapping\<close>

text \<open>
  \<open>strings.ToUpper\<close> and \<open>strings.ToLower\<close>, exact where the result is compared with an ASCII
  string: the ASCII letters, and the four other code points whose image is an ASCII letter
  (dotless i, bytes C4 B1, and long s, C5 BF, go up; capital I with a dot, C4 B0, and the Kelvin
  sign, E2 84 AA, go down).  Every other code point maps outside ASCII and is left as it is.
\<close>

definition upper_byte :: "char \<Rightarrow> char" where
  "upper_byte c = (let n = (of_char c :: nat) in if 97 \<le> n \<and> n \<le> 122 then char_of (n - 32) else c)"

definition lower_byte :: "char \<Rightarrow> char" where
  "lower_byte c = (let n = (of_char c :: nat) in if 65 \<le> n \<and> n \<le> 90 then char_of (n + 32) else c)"

fun strings_ToUpper :: "string \<Rightarrow> string" where
  "strings_ToUpper [] = []"
| "strings_ToUpper [a] = [upper_byte a]"
| "strings_ToUpper (a # b # cs) =
     (if a = CHR 0xC4 \<and> b = CHR 0xB1 then CHR ''I'' # strings_ToUpper cs
      else if a = CHR 0xC5 \<and> b = CHR 0xBF then CHR ''S'' # strings_ToUpper cs
      else upper_byte a # strings_ToUpper (b # cs))"

fun strings_ToLower :: "string \<Rightarrow> string" where
  "strings_ToLower [] = []"
| "strings_ToLower [a] = [lower_byte a]"
| "strings_ToLower [a, b] =
     (if a = CHR 0xC4 \<and> b = CHR 0xB0 then ''i'' else [lower_byte a, lower_byte b])"
| "strings_ToLower (a # b # c # cs) =
     (if a = CHR 0xC4 \<and> b = CHR 0xB0 then CHR ''i'' # strings_ToLower (c # cs)
      else if a = CHR 0xE2 \<and> b = CHR 0x84 \<and> c = CHR 0xAA then CHR ''k'' # strings_ToLower cs
      else lower_byte a # strings_ToLower (b # c # cs))"

fun strings_Join :: "string list \<Rightarrow> string \<Rightarrow> string" where
  "strings_Join [] sep = []"
| "strings_Join [s] sep = s"
| "strings_Join (s # t # ss) sep = s @ sep @ strings_Join (t # ss) sep"

definition ascii :: "string \<Rightarrow> bool" where
  "ascii s \<longleftrightarrow> (\<forall>c \<in> set s. of_char c < (128 :: nat))"

lemma ascii_Cons [simp]: "ascii (c # s) \<longleftrightarrow> of_char c < (128 :: nat) \<and> ascii s"
  by (auto simp: ascii_def)

lemma ToUpper_ascii: "ascii s \<Longrightarrow> strings_ToUpper s = map upper_byte s"
  by (induction s rule: strings_ToUpper.induct) auto

lemma ToLower_ascii: "ascii s \<Longrightarrow> strings_ToLower s = map lower_byte s"
  by (induction s rule: strings_ToLower.induct) auto

end
