(* ===== verification/Go_Netip.thy ===== *)
theory Go_Netip
  imports Go_Text "HOL-Library.Word"
begin

unbundle bit_operations_syntax

text \<open>
  The part of Go's \<open>net/netip\<close> that the IN_CIDR operator uses: \<open>ParseAddr\<close>, \<open>ParsePrefix\<close> and
  \<open>Prefix.Contains\<close>.  An address keeps its family: a 4-in-6 address such as
  \<open>::ffff:10.0.0.1\<close> is an IPv6 address, as in the library.  Parse errors are \<open>None\<close>.
\<close>

datatype addr = Addr4 "32 word" | Addr6 "128 word" string

datatype ip_prefix = Prefix (prefix_addr: addr) (prefix_bits: nat)

definition byte_num :: "int list \<Rightarrow> int" where
  "byte_num bs = foldl (\<lambda>acc b. 256 * acc + b) 0 bs"

subsection \<open>ParseAddr\<close>

text \<open>
  The field scanner: the fields read so far, the value of the current field and the number of
  its digits.  No digit yet means that the field is at the start or right post a dot.
\<close>

fun parseIPv4Fields :: "string \<Rightarrow> int list \<Rightarrow> int \<Rightarrow> nat \<Rightarrow> int list option" where
  "parseIPv4Fields [] fields val digLen =
     (if length fields < 3 then None else Some (fields @ [val]))"
| "parseIPv4Fields (c # cs) fields val digLen =
     (case digit_val c of
        Some d \<Rightarrow>
          if digLen = 1 \<and> val = 0 then None
          else if 10 * val + int d > 255 then None
          else parseIPv4Fields cs fields (10 * val + int d) (digLen + 1)
      | None \<Rightarrow>
          if c = CHR ''.'' then
            (if digLen = 0 \<or> cs = [] then None
             else if length fields = 3 then None
             else parseIPv4Fields cs (fields @ [val]) 0 0)
          else None)"

definition parseIPv4 :: "string \<Rightarrow> addr option" where
  "parseIPv4 s =
     (case parseIPv4Fields s [] 0 0 of None \<Rightarrow> None | Some fields \<Rightarrow> Some (Addr4 (word_of_int (byte_num fields))))"

definition hex_val :: "char \<Rightarrow> nat option" where
  "hex_val c =
     (let n = of_char c
      in if 48 \<le> n \<and> n \<le> 57 then Some (n - 48)
         else if 97 \<le> n \<and> n \<le> 102 then Some (n - 87)
         else if 65 \<le> n \<and> n \<le> 70 then Some (n - 55) else None)"

text \<open>One group of hex digits: the number of digits, the value and the rest of the input.\<close>

fun hex_group :: "nat \<Rightarrow> int \<Rightarrow> string \<Rightarrow> (nat \<times> int \<times> string) option" where
  "hex_group off acc [] = Some (off, acc, [])"
| "hex_group off acc (c # cs) =
     (case hex_val c of
        None \<Rightarrow> Some (off, acc, c # cs)
      | Some d \<Rightarrow>
          if off > 3 then None
          else if 16 * acc + int d > 65535 then None
          else hex_group (off + 1) (16 * acc + int d) cs)"

text \<open>
  The main loop of \<open>parseIPv6\<close>: the bytes written so far, the position of the ellipsis and
  the rest of the input.  It runs while fewer than 16 bytes are written.
\<close>

function parseIPv6_loop ::
  "int list \<Rightarrow> nat option \<Rightarrow> string \<Rightarrow> (int list \<times> nat option \<times> string) option" where
  "parseIPv6_loop ip ellipsis s =
     (if length ip < 16 then
        (case hex_group 0 0 s of
           None \<Rightarrow> None
         | Some (off, acc, rest) \<Rightarrow>
             if off = 0 then None
             else
               (case rest of
                  [] \<Rightarrow> Some (ip @ [acc div 256, acc mod 256], ellipsis, [])
                | c # cs \<Rightarrow>
                    if c = CHR ''.'' then
                      (if ellipsis = None \<and> length ip \<noteq> 12 then None
                       else if length ip + 4 > 16 then None
                       else (case parseIPv4Fields s [] 0 0 of
                               None \<Rightarrow> None
                             | Some fields \<Rightarrow> Some (ip @ fields, ellipsis, [])))
                    else if c \<noteq> CHR '':'' then None
                    else
                      (case cs of
                         [] \<Rightarrow> None
                       | d # ds \<Rightarrow>
                           if d = CHR '':'' then
                             (if ellipsis \<noteq> None then None
                              else if ds = [] then
                                Some (ip @ [acc div 256, acc mod 256], Some (length ip + 2), [])
                              else parseIPv6_loop (ip @ [acc div 256, acc mod 256])
                                     (Some (length ip + 2)) ds)
                           else parseIPv6_loop (ip @ [acc div 256, acc mod 256]) ellipsis cs)))
      else Some (ip, ellipsis, s))"
  by pat_completeness auto
termination
  by (relation "measure (\<lambda>(ip, ellipsis, s). 16 - length ip)") auto

declare parseIPv6_loop.simps [simp del]

definition parseIPv6 :: "string \<Rightarrow> addr option" where
  "parseIPv6 input =
     (case strings_Cut input (CHR ''%'') of (s, zone, found) \<Rightarrow>
        if found \<and> zone = [] then None
        else
          (let lead = (take 2 s = ''::'');
               s' = (if lead then drop 2 s else s)
           in if lead \<and> s' = [] then Some (Addr6 0 zone)
              else
                (case parseIPv6_loop [] (if lead then Some 0 else None) s' of
                   None \<Rightarrow> None
                 | Some (ip, ellipsis, rest) \<Rightarrow>
                     if rest \<noteq> [] then None
                     else if length ip < 16 then
                       (case ellipsis of
                          None \<Rightarrow> None
                        | Some e \<Rightarrow>
                            Some (Addr6 (word_of_int (byte_num
                              (take e ip @ replicate (16 - length ip) 0 @ drop e ip))) zone))
                     else if ellipsis \<noteq> None then None
                     else Some (Addr6 (word_of_int (byte_num ip)) zone))))"

text \<open>The first of \<open>.\<close>, \<open>:\<close> and \<open>%\<close> in the input decides the family.\<close>

fun addr_family :: "string \<Rightarrow> char option" where
  "addr_family [] = None"
| "addr_family (c # cs) =
     (if c = CHR ''.'' \<or> c = CHR '':'' \<or> c = CHR ''%'' then Some c else addr_family cs)"

definition ParseAddr :: "string \<Rightarrow> addr option" where
  "ParseAddr s =
     (case addr_family s of
        None \<Rightarrow> None
      | Some c \<Rightarrow>
          if c = CHR ''.'' then parseIPv4 s
          else if c = CHR '':'' then parseIPv6 s
          else None)"

subsection \<open>ParsePrefix and Contains\<close>

definition last_slash :: "string \<Rightarrow> (string \<times> string) option" where
  "last_slash s =
     (case strings_Cut (rev s) (CHR ''/'') of (post, pre, found) \<Rightarrow>
        if found then Some (rev pre, rev post) else None)"

fun BitLen :: "addr \<Rightarrow> nat" where
  "BitLen (Addr4 _) = 32"
| "BitLen (Addr6 _ _) = 128"

fun hasZone :: "addr \<Rightarrow> bool" where
  "hasZone (Addr4 _) = False"
| "hasZone (Addr6 _ z) = (z \<noteq> [])"

definition ParsePrefix :: "string \<Rightarrow> ip_prefix option" where
  "ParsePrefix s =
     (case last_slash s of
        None \<Rightarrow> None
      | Some (addrStr, bitsStr) \<Rightarrow>
          (case ParseAddr addrStr of
             None \<Rightarrow> None
           | Some ip \<Rightarrow>
               if hasZone ip then None
               else if length bitsStr > 1 \<and> (digit_val (hd bitsStr) = None \<or> hd bitsStr = CHR ''0'')
               then None
               else
                 (case Atoi bitsStr of
                    None \<Rightarrow> None
                  | Some bits \<Rightarrow>
                      if bits < 0 \<or> bits > int (BitLen ip) then None
                      else Some (Prefix ip (nat bits)))))"

fun Contains :: "ip_prefix \<Rightarrow> addr \<Rightarrow> bool" where
  "Contains (Prefix (Addr4 net) bits) (Addr4 ip) \<longleftrightarrow> drop_bit (32 - bits) (ip XOR net) = 0"
| "Contains (Prefix (Addr6 net _) bits) (Addr6 ip zone) \<longleftrightarrow>
     zone = [] \<and> drop_bit (128 - bits) (ip XOR net) = 0"
| "Contains _ _ \<longleftrightarrow> False"

subsection \<open>Dotted quads: parsing what the usual printer prints\<close>

definition quad_string :: "nat \<Rightarrow> nat \<Rightarrow> nat \<Rightarrow> nat \<Rightarrow> string" where
  "quad_string a b c d =
     nat_digits a @ CHR ''.'' # nat_digits b @ CHR ''.'' # nat_digits c @ CHR ''.'' # nat_digits d"

definition cidr_string :: "nat \<Rightarrow> nat \<Rightarrow> nat \<Rightarrow> nat \<Rightarrow> nat \<Rightarrow> string" where
  "cidr_string a b c d n = quad_string a b c d @ CHR ''/'' # nat_digits n"

definition quad_num :: "nat \<Rightarrow> nat \<Rightarrow> nat \<Rightarrow> nat \<Rightarrow> int" where
  "quad_num a b c d = byte_num [int a, int b, int c, int d]"

lemma nat_digits_1: "n < 10 \<Longrightarrow> nat_digits n = [char_of (48 + n)]"
  by (subst nat_digits.simps) simp

lemma nat_digits_2:
  "10 \<le> n \<Longrightarrow> n < 100 \<Longrightarrow> nat_digits n = [char_of (48 + n div 10), char_of (48 + n mod 10)]"
  by (subst nat_digits.simps) (simp add: nat_digits_1)

lemma nat_digits_3:
  assumes "100 \<le> n" "n < 1000"
  shows "nat_digits n =
    [char_of (48 + n div 100), char_of (48 + n div 10 mod 10), char_of (48 + n mod 10)]"
proof -
  have "n div 10 div 10 = n div 100" by (simp add: div_mult2_eq [symmetric])
  moreover have "10 \<le> n div 10" "n div 10 < 100" using assms by auto
  ultimately show ?thesis using assms by (subst nat_digits.simps) (simp add: nat_digits_2)
qed

lemma digit_val_sep [simp]:
  "digit_val (CHR ''.'') = None" "digit_val (CHR '':'') = None" "digit_val (CHR ''/'') = None"
  "digit_val (CHR ''%'') = None"
  by (simp_all add: digit_val_def)

lemma parse_field:
  assumes "n < 256"
  shows "parseIPv4Fields (nat_digits n @ rest) fields 0 0 =
           parseIPv4Fields rest fields (int n) (length (nat_digits n))"
proof -
  consider "n < 10" | "10 \<le> n" "n < 100" | "100 \<le> n" "n < 256" using assms by linarith
  then show ?thesis
  proof cases
    case 1
    then show ?thesis by (simp add: nat_digits_1 digit_val_char)
  next
    case 2
    then have "10 * int (n div 10) + int (n mod 10) = int n" by (simp add: zdiv_int zmod_int)
    moreover have "int (n div 10) \<noteq> 0" "n div 10 < 10" using 2 by auto
    ultimately show ?thesis using 2 by (simp add: nat_digits_2 digit_val_char)
  next
    case 3
    have "n div 100 = n div 10 div 10" by (simp add: div_mult2_eq [symmetric])
    then have "10 * int (n div 100) + int (n div 10 mod 10) = int (n div 10)"
      by (simp add: zdiv_int zmod_int)
    moreover have "10 * int (n div 10) + int (n mod 10) = int n" by (simp add: zdiv_int zmod_int)
    moreover have "int (n div 100) \<noteq> 0" "n div 100 < 10" "n div 10 \<le> 255" using 3 by auto
    ultimately show ?thesis using 3 by (simp add: nat_digits_3 digit_val_char)
  qed
qed

lemma parse_field_dot:
  assumes "n < 256" "length fields < 3" "rest \<noteq> []"
  shows "parseIPv4Fields (nat_digits n @ CHR ''.'' # rest) fields 0 0 =
           parseIPv4Fields rest (fields @ [int n]) 0 0"
  using assms by (simp add: parse_field)

lemma parse_field_last:
  assumes "n < 256" "length fields = 3"
  shows "parseIPv4Fields (nat_digits n) fields 0 0 = Some (fields @ [int n])"
  using assms parse_field [of n "[]" fields] by simp

lemma addr_family_digits:
  "\<forall>c \<in> set xs. digit_val c \<noteq> None \<Longrightarrow> addr_family (xs @ ys) = addr_family ys"
  by (induction xs) auto

lemma ParseAddr_quad [text_simps]:
  assumes "a < 256" "b < 256" "c < 256" "d < 256"
  shows "ParseAddr (quad_string a b c d) = Some (Addr4 (word_of_int (quad_num a b c d)))"
proof -
  have "addr_family (quad_string a b c d) = Some (CHR ''.'')"
    using nat_digits_digit by (simp add: quad_string_def addr_family_digits)
  then show ?thesis
    using assms
    by (simp add: ParseAddr_def parseIPv4_def quad_string_def quad_num_def parse_field_dot
        parse_field_last)
qed

lemma last_slash_found:
  "CHR ''/'' \<notin> set bs \<Longrightarrow> last_slash (as @ CHR ''/'' # bs) = Some (as, bs)"
  by (simp add: last_slash_def strings_Cut_found)

lemma nat_digits_lead:
  assumes "length (nat_digits n) > 1"
  shows "hd (nat_digits n) \<noteq> CHR ''0''"
  using assms
proof (induction n rule: nat_digits.induct)
  case (1 n)
  from 1(2) have ge: "\<not> n < 10" by (auto simp: nat_digits_1)
  then have eq: "nat_digits n = nat_digits (n div 10) @ [char_of (48 + n mod 10)]"
    by (subst nat_digits.simps) simp
  show ?case
  proof (cases "n div 10 < 10")
    case True
    have "digit_val (char_of (48 + n div 10)) = Some (n div 10)" using True by (rule digit_val_char)
    moreover have "n div 10 \<noteq> 0" using ge by simp
    moreover have "digit_val (CHR ''0'') = Some 0" by (simp add: digit_val_def)
    ultimately show ?thesis using True eq by (auto simp: nat_digits_1)
  next
    case False
    then have "length (nat_digits (n div 10)) > 1" by (subst nat_digits.simps) auto
    with 1(1) [OF ge] eq show ?thesis by simp
  qed
qed

lemma nat_digits_no_slash: "CHR ''/'' \<notin> set (nat_digits n)"
  using nat_digits_digit by fastforce

lemma ParsePrefix_cidr [text_simps]:
  assumes "a < 256" "b < 256" "c < 256" "d < 256" "n \<le> 32"
  shows "ParsePrefix (cidr_string a b c d n) =
           Some (Prefix (Addr4 (word_of_int (quad_num a b c d))) n)"
proof -
  have "digit_val (hd (nat_digits n)) \<noteq> None" by (rule nat_digits_digit [of _ n]) simp
  then show ?thesis
    using assms nat_digits_lead [of n]
    by (auto simp: ParsePrefix_def cidr_string_def last_slash_found nat_digits_no_slash
        ParseAddr_quad Atoi_nat_digits)
qed

subsection \<open>Contains compares the network parts\<close>

lemma drop_bit_xor_0: "drop_bit k (x XOR y) = 0 \<longleftrightarrow> drop_bit k x = drop_bit k (y :: 'a::len word)"
proof -
  have "x' XOR y' = 0 \<longleftrightarrow> x' = y'" for x' y' :: "'a word"
    by (auto simp: bit_eq_iff bit_simps)
  then show ?thesis by (simp add: drop_bit_xor)
qed

lemma drop_bit_eq_iff_div:
  "drop_bit k x = drop_bit k (y :: 'a::len word) \<longleftrightarrow> uint x div 2 ^ k = uint y div 2 ^ k"
  by (simp add: word_uint_eq_iff unsigned_drop_bit_eq bintr_uint flip: drop_bit_eq_div)

lemma Contains_v4:
  "Contains (Prefix (Addr4 net) n) (Addr4 ip) \<longleftrightarrow>
     uint ip div 2 ^ (32 - n) = uint net div 2 ^ (32 - n)"
  by (simp only: Contains.simps drop_bit_xor_0 drop_bit_eq_iff_div)

lemma Contains_v6:
  "Contains (Prefix (Addr6 net z) n) (Addr6 ip zone) \<longleftrightarrow>
     zone = [] \<and> uint ip div 2 ^ (128 - n) = uint net div 2 ^ (128 - n)"
  by (simp only: Contains.simps drop_bit_xor_0 drop_bit_eq_iff_div)

lemma Contains_family: "Contains p ip \<Longrightarrow> BitLen (prefix_addr p) = BitLen ip"
  by (cases "(p, ip)" rule: Contains.cases) auto

lemma quad_num_bounds:
  assumes "a < 256" "b < 256" "c < 256" "d < 256"
  shows "0 \<le> quad_num a b c d \<and> quad_num a b c d < 2 ^ 32"
  using assms by (simp add: quad_num_def byte_num_def)

lemma uint_quad:
  assumes "a < 256" "b < 256" "c < 256" "d < 256"
  shows "uint (word_of_int (quad_num a b c d) :: 32 word) = quad_num a b c d"
  using quad_num_bounds [OF assms] by (simp add: uint_word_of_int)

end
