(* ===== verification/Operators.thy ===== *)
theory Operators
  imports Policy Go_Netip
begin

text \<open>
  Condition evaluation, \<open>internal/engine/operators.go\<close>, with the request type of
  \<open>internal/engine/engine.go\<close>.  The three attribute maps of a request are Go maps from an
  attribute name to its values.
\<close>

record EvaluationRequest =
  req_PrincipalID :: string
  req_PrincipalAttributes :: "(string, string list) gomap"
  req_ResourceType :: string
  req_ResourceID :: string
  req_ResourceAttributes :: "(string, string list) gomap"
  req_Action :: string
  req_EnvironmentAttributes :: "(string, string list) gomap"

subsection \<open>The operators\<close>

text \<open>A \<open>map[string]int\<close> whose missing keys read as 0 is a function to \<open>int\<close>.\<close>

definition count_values :: "string list \<Rightarrow> string \<Rightarrow> int" where
  "count_values vs = foldl (\<lambda>counts v. counts(v := counts v + 1)) (\<lambda>_. 0) vs"

fun take_values :: "(string \<Rightarrow> int) \<Rightarrow> string list \<Rightarrow> bool" where
  "take_values counts [] = True"
| "take_values counts (v # vs) =
     (let counts' = counts(v := counts v - 1)
      in if counts' v < 0 then False else take_values counts' vs)"

definition evalEquals :: "string list \<Rightarrow> string list \<Rightarrow> bool" where
  "evalEquals condValues requestValues =
     (if length condValues \<noteq> length requestValues then False
      else take_values (count_values condValues) requestValues)"

definition value_set :: "string list \<Rightarrow> string \<Rightarrow> bool" where
  "value_set vs = foldl (\<lambda>reqMap v. reqMap(v := True)) (\<lambda>_. False) vs"

fun all_present :: "(string \<Rightarrow> bool) \<Rightarrow> string list \<Rightarrow> bool" where
  "all_present reqMap [] = True"
| "all_present reqMap (v # vs) = (if \<not> reqMap v then False else all_present reqMap vs)"

definition evalContainsAll :: "string list \<Rightarrow> string list \<Rightarrow> bool" where
  "evalContainsAll condValues requestValues =
     (if length condValues = 0 then True
      else if length condValues > length requestValues then False
      else all_present (value_set requestValues) condValues)"

fun any_present :: "(string \<Rightarrow> bool) \<Rightarrow> string list \<Rightarrow> bool" where
  "any_present reqMap [] = False"
| "any_present reqMap (v # vs) = (if reqMap v then True else any_present reqMap vs)"

definition evalContainsAny :: "string list \<Rightarrow> string list \<Rightarrow> bool" where
  "evalContainsAny condValues requestValues =
     (if length condValues = 0 then True
      else if length requestValues = 0 then False
      else any_present (value_set requestValues) condValues)"

fun in_some_cidr :: "addr \<Rightarrow> string list \<Rightarrow> bool" where
  "in_some_cidr reqIP [] = False"
| "in_some_cidr reqIP (cidrStr # rest) =
     (case ParsePrefix cidrStr of
        None \<Rightarrow> in_some_cidr reqIP rest
      | Some p \<Rightarrow> if Contains p reqIP then True else in_some_cidr reqIP rest)"

definition evalInCIDR :: "string list \<Rightarrow> string list \<Rightarrow> bool" where
  "evalInCIDR condValues requestValues =
     (if length condValues = 0 \<or> length requestValues \<noteq> 1 then False
      else (case ParseAddr (requestValues ! 0) of
              None \<Rightarrow> False
            | Some reqIP \<Rightarrow> in_some_cidr reqIP condValues))"

definition evalBetween :: "string list \<Rightarrow> string list \<Rightarrow> bool" where
  "evalBetween condValue requestValue =
     (if length condValue \<noteq> 2 \<or> length requestValue \<noteq> 1 then False
      else (case Atoi (condValue ! 0) of
              None \<Rightarrow> False
            | Some lowVal \<Rightarrow>
                (case Atoi (condValue ! 1) of
                   None \<Rightarrow> False
                 | Some highVal \<Rightarrow>
                     (case Atoi (requestValue ! 0) of
                        None \<Rightarrow> False
                      | Some val \<Rightarrow> lowVal \<le> val \<and> highVal \<ge> val))))"

fun some_match :: "'r regexp_lib \<Rightarrow> 'r \<Rightarrow> string list \<Rightarrow> bool" where
  "some_match rx r [] = False"
| "some_match rx r (v # vs) = (if rx_MatchString rx r v then True else some_match rx r vs)"

definition evalRegex :: "'r regexp_lib \<Rightarrow> 'r option \<Rightarrow> string list \<Rightarrow> bool" where
  "evalRegex rx compiledRegex requestValues =
     (case compiledRegex of
        None \<Rightarrow> False
      | Some r \<Rightarrow> if length requestValues = 0 then False else some_match rx r requestValues)"

subsection \<open>EvaluateCondition\<close>

text \<open>The switch on the prefix: no map for an unknown prefix.\<close>

definition attribute_map :: "string \<Rightarrow> EvaluationRequest \<Rightarrow> (string, string list) gomap option" where
  "attribute_map prefix req =
     (if prefix = ''principal'' then Some (req_PrincipalAttributes req)
      else if prefix = ''resource'' then Some (req_ResourceAttributes req)
      else if prefix = ''environment'' then Some (req_EnvironmentAttributes req)
      else None)"

text \<open>The switch on the operator.\<close>

definition apply_operator :: "'r regexp_lib \<Rightarrow> 'r condition \<Rightarrow> string list \<Rightarrow> bool" where
  "apply_operator rx cond requestValues =
     (if cond_Operator cond = ''EQUALS'' then evalEquals (cond_Value cond) requestValues
      else if cond_Operator cond = ''CONTAINS_ALL'' then evalContainsAll (cond_Value cond) requestValues
      else if cond_Operator cond = ''CONTAINS_ANY'' then evalContainsAny (cond_Value cond) requestValues
      else if cond_Operator cond = ''IN_CIDR'' then evalInCIDR (cond_Value cond) requestValues
      else if cond_Operator cond = ''BETWEEN'' then evalBetween (cond_Value cond) requestValues
      else if cond_Operator cond = ''REGEX'' then evalRegex rx (cond_CompiledRegex cond) requestValues
      else False)"

definition EvaluateCondition :: "'r regexp_lib \<Rightarrow> 'r condition \<Rightarrow> EvaluationRequest \<Rightarrow> bool" where
  "EvaluateCondition rx cond req =
     (case strings_Cut (cond_Attribute cond) (CHR ''.'') of (prefix, key, found) \<Rightarrow>
        if \<not> found then False
        else
          (case attribute_map prefix req of
             None \<Rightarrow> False
           | Some attrs \<Rightarrow>
               (case gomap_get attrs key of
                  None \<Rightarrow> False
                | Some requestValues \<Rightarrow> apply_operator rx cond requestValues)))"

subsection \<open>The operators against their specification\<close>

lemma count_values_foldl:
  "foldl (\<lambda>counts v. counts(v := counts v + 1)) counts vs v = counts v + int (count (mset vs) v)"
  by (induction vs arbitrary: counts) auto

lemma count_values_mset: "count_values vs v = int (count (mset vs) v)"
  by (simp add: count_values_def count_values_foldl)

lemma take_values_iff:
  "(\<And>v. 0 \<le> counts v) \<Longrightarrow>
     take_values counts vs \<longleftrightarrow> (\<forall>v. int (count (mset vs) v) \<le> counts v)"
proof (induction vs arbitrary: counts)
  case Nil
  then show ?case by simp
next
  case (Cons w vs)
  show ?case
  proof (cases "counts w - 1 < 0")
    case True
    then have "\<not> int (count (mset (w # vs)) w) \<le> counts w" by simp
    with True show ?thesis by (auto simp: Let_def)
  next
    case False
    let ?counts' = "counts(w := counts w - 1)"
    have "take_values ?counts' vs \<longleftrightarrow> (\<forall>v. int (count (mset vs) v) \<le> ?counts' v)"
      using Cons.prems False by (intro Cons.IH) auto
    also have "\<dots> \<longleftrightarrow> (\<forall>v. int (count (mset (w # vs)) v) \<le> counts v)"
      by (intro all_cong1) auto
    finally show ?thesis using False by (simp add: Let_def)
  qed
qed

lemma value_set_foldl:
  "foldl (\<lambda>reqMap v. reqMap(v := True)) f vs v \<longleftrightarrow> f v \<or> v \<in> set vs"
  by (induction vs arbitrary: f) auto

lemma value_set_iff: "value_set vs v \<longleftrightarrow> v \<in> set vs"
  by (simp add: value_set_def value_set_foldl)

lemma all_present_iff: "all_present f vs \<longleftrightarrow> (\<forall>v \<in> set vs. f v)"
  by (induction vs) auto

lemma any_present_iff: "any_present f vs \<longleftrightarrow> (\<exists>v \<in> set vs. f v)"
  by (induction vs) auto

lemma some_match_iff: "some_match rx r vs \<longleftrightarrow> (\<exists>v \<in> set vs. rx_MatchString rx r v)"
  by (induction vs) auto

lemma in_some_cidr_iff:
  "in_some_cidr ip cidrs \<longleftrightarrow> (\<exists>s \<in> set cidrs. \<exists>p. ParsePrefix s = Some p \<and> Contains p ip)"
  by (induction cidrs) (auto split: option.splits)

lemma evalEquals_multiset: "evalEquals condValues requestValues \<longleftrightarrow> mset condValues = mset requestValues"
proof -
  have "take_values (count_values condValues) requestValues \<longleftrightarrow> mset requestValues \<subseteq># mset condValues"
    by (simp add: take_values_iff count_values_mset subseteq_mset_def)
  moreover have "length condValues = length requestValues \<and> mset requestValues \<subseteq># mset condValues
      \<longleftrightarrow> mset condValues = mset requestValues"
    by (metis mset_subset_size size_mset subset_mset.le_neq_trans subset_mset.order_refl less_irrefl)
  ultimately show ?thesis unfolding evalEquals_def by (metis mset_eq_length)
qed

text \<open>
  C29: EQUALS holds exactly when the two value lists are equal as multisets: the same values
  with the same number of repetitions, in any order.  The length test and the frequency map
  together decide multiset equality.
\<close>

theorem evalEquals_mset:
  "evalEquals condValues requestValues \<longleftrightarrow> mset condValues = mset requestValues"
  by (rule evalEquals_multiset)

text \<open>
  C32: the two operators on sets of values.  CONTAINS_ALL holds for an empty condition list, and
  otherwise exactly when every condition value occurs among the request values and the condition
  list is not the longer one, where repeated condition values count; CONTAINS_ANY holds for an
  empty condition list, whatever the request carries, and otherwise exactly when the two lists
  share a value.
\<close>

theorem contains_operators_iff:
  "(evalContainsAll condValues requestValues \<longleftrightarrow>
      condValues = [] \<or>
      (length condValues \<le> length requestValues \<and> set condValues \<subseteq> set requestValues))
   \<and> (evalContainsAny condValues requestValues \<longleftrightarrow>
      condValues = [] \<or> (\<exists>v. v \<in> set condValues \<and> v \<in> set requestValues))"
  by (auto simp: evalContainsAll_def evalContainsAny_def all_present_iff any_present_iff value_set_iff)

lemma evalInCIDR_iff:
  "evalInCIDR condValues requestValues \<longleftrightarrow>
     (\<exists>s ip cidr p. requestValues = [s] \<and> ParseAddr s = Some ip \<and> cidr \<in> set condValues
        \<and> ParsePrefix cidr = Some p \<and> Contains p ip)"
  by (cases requestValues)
     (auto simp: evalInCIDR_def in_some_cidr_iff split: option.splits)

definition valid_block :: "nat \<times> nat \<times> nat \<times> nat \<times> nat \<Rightarrow> bool" where
  "valid_block = (\<lambda>(a, b, c, d, n). a < 256 \<and> b < 256 \<and> c < 256 \<and> d < 256 \<and> n \<le> 32)"

definition block_string :: "nat \<times> nat \<times> nat \<times> nat \<times> nat \<Rightarrow> string" where
  "block_string = (\<lambda>(a, b, c, d, n). cidr_string a b c d n)"

text \<open>The block number of an address: what is left of it above the host bits.\<close>

definition in_block :: "nat \<times> nat \<times> nat \<times> nat \<times> nat \<Rightarrow> int \<Rightarrow> bool" where
  "in_block = (\<lambda>(a, b, c, d, n) ip. ip div 2 ^ (32 - n) = quad_num a b c d div 2 ^ (32 - n))"

lemma ParsePrefix_block:
  assumes "valid_block blk" "e < 256" "f < 256" "g < 256" "h < 256"
  shows "(\<exists>p. ParsePrefix (block_string blk) = Some p
            \<and> Contains p (Addr4 (word_of_int (quad_num e f g h))))
         \<longleftrightarrow> in_block blk (quad_num e f g h)"
proof -
  obtain a b c d n where blk: "blk = (a, b, c, d, n)" by (metis prod_cases5)
  show ?thesis using assms
    by (simp add: blk valid_block_def block_string_def in_block_def ParsePrefix_cidr Contains_v4
        uint_quad del: Contains.simps)
qed

text \<open>
  IN_CIDR on dotted IPv4 addresses is network membership: a request with the single address
  \<open>e.f.g.h\<close> matches a list of blocks \<open>a.b.c.d/n\<close> exactly when for one of them the leading \<open>n\<close>
  bits of the two addresses agree.
\<close>

theorem evalInCIDR_ipv4:
  assumes blocks: "\<forall>blk \<in> set blocks. valid_block blk"
    and octets: "e < 256" "f < 256" "g < 256" "h < 256"
  shows "evalInCIDR (map block_string blocks) [quad_string e f g h] \<longleftrightarrow>
           (\<exists>blk \<in> set blocks. in_block blk (quad_num e f g h))"
proof -
  have "evalInCIDR (map block_string blocks) [quad_string e f g h] \<longleftrightarrow>
      (\<exists>blk \<in> set blocks. \<exists>p. ParsePrefix (block_string blk) = Some p
         \<and> Contains p (Addr4 (word_of_int (quad_num e f g h))))"
    using octets by (auto simp: evalInCIDR_iff ParseAddr_quad)
  also have "\<dots> \<longleftrightarrow> (\<exists>blk \<in> set blocks. in_block blk (quad_num e f g h))"
    using ParsePrefix_block [OF _ octets] blocks by blast
  finally show ?thesis .
qed

theorem evalInCIDR_ipv4_witness:
  "evalInCIDR [block_string (10, 0, 0, 0, 8)] [quad_string 10 4 4 10]
     \<and> \<not> evalInCIDR [block_string (10, 0, 0, 0, 8)] [quad_string 11 4 4 10]"
  using evalInCIDR_ipv4 [of "[(10, 0, 0, 0, 8)]" 10 4 4 10]
    evalInCIDR_ipv4 [of "[(10, 0, 0, 0, 8)]" 11 4 4 10]
  by (simp add: valid_block_def in_block_def quad_num_def byte_num_def)

lemma Contains_no_zone: "Contains p ip \<Longrightarrow> \<not> hasZone ip"
  by (cases "(p, ip)" rule: Contains.cases) auto

text \<open>
  IN_CIDR never crosses address families and never matches a scoped address: a match has
  exactly one request value, which parses, a block that parses to the same address family,
  and no zone.  An IPv4 client that arrives as \<open>::ffff:a.b.c.d\<close> is an IPv6 address here, and
  no IPv4 block contains it.
\<close>

theorem evalInCIDR_family:
  assumes "evalInCIDR condValues requestValues"
  shows "\<exists>s ip cidr p. requestValues = [s] \<and> ParseAddr s = Some ip \<and> \<not> hasZone ip
           \<and> cidr \<in> set condValues \<and> ParsePrefix cidr = Some p
           \<and> BitLen (prefix_addr p) = BitLen ip"
  using assms Contains_family Contains_no_zone unfolding evalInCIDR_iff by blast

theorem evalInCIDR_family_witness:
  "evalInCIDR [''10.0.0.0/8''] [''10.0.0.1'']
     \<and> (\<exists>ip p. ParseAddr ''10.0.0.1'' = Some ip \<and> \<not> hasZone ip
          \<and> ParsePrefix ''10.0.0.0/8'' = Some p \<and> BitLen (prefix_addr p) = BitLen ip)"
proof -
  have match: "evalInCIDR [''10.0.0.0/8''] [''10.0.0.1'']" by code_simp
  show ?thesis using match evalInCIDR_family [OF match] by auto
qed

lemma mapped_address_bypass: "\<not> evalInCIDR [''10.0.0.0/8''] [''::ffff:10.0.0.1'']"
  by code_simp

text \<open>
  BETWEEN on printed integers is the inclusive range test, for every value of the 64-bit
  \<open>int\<close>; a value outside that width matches no range.
\<close>

theorem evalBetween_range:
  assumes "int64_range lo" "int64_range hi"
  shows "evalBetween [Itoa lo, Itoa hi] [Itoa v] \<longleftrightarrow> int64_range v \<and> lo \<le> v \<and> v \<le> hi"
  using assms Atoi_Itoa_overflow [of v]
  by (cases "int64_range v") (auto simp: evalBetween_def Atoi_Itoa)

theorem evalBetween_range_witness:
  "evalBetween [Itoa 8, Itoa 18] [Itoa 12] \<and> \<not> evalBetween [Itoa 8, Itoa 18] [Itoa 19]"
  using evalBetween_range [of 8 18 12] evalBetween_range [of 8 18 19]
  by (simp add: int64_range_def)

lemma evalRegex_iff:
  "evalRegex rx re vs \<longleftrightarrow> (\<exists>r. re = Some r \<and> (\<exists>v \<in> set vs. rx_MatchString rx r v))"
  by (auto simp: evalRegex_def some_match_iff split: option.splits)

subsection \<open>Which conditions can hold\<close>

definition known_operators :: "string set" where
  "known_operators = {''EQUALS'', ''CONTAINS_ALL'', ''CONTAINS_ANY'', ''IN_CIDR'', ''BETWEEN'', ''REGEX''}"

lemma apply_operator_known: "apply_operator rx cond vs \<Longrightarrow> cond_Operator cond \<in> known_operators"
  by (auto simp: apply_operator_def known_operators_def split: if_splits)

lemma EvaluateCondition_holds:
  "EvaluateCondition rx cond req \<longleftrightarrow>
     (\<exists>prefix key attrs vs. CHR ''.'' \<notin> set prefix \<and> cond_Attribute cond = prefix @ CHR ''.'' # key
        \<and> attribute_map prefix req = Some attrs \<and> gomap_get attrs key = Some vs
        \<and> cond_Operator cond \<in> known_operators \<and> apply_operator rx cond vs)"
  (is "?L \<longleftrightarrow> ?R")
proof
  assume ?L
  then show ?R
    using apply_operator_known
    by (fastforce simp: EvaluateCondition_def split: prod.splits if_splits option.splits
        dest!: strings_Cut_split)
next
  assume ?R
  then show ?L by (auto simp: EvaluateCondition_def strings_Cut_found)
qed

subsection \<open>What a condition means\<close>

text \<open>A block holds an address when the leading bits of the two, as numbers, agree.\<close>

fun block_holds :: "ip_prefix \<Rightarrow> addr \<Rightarrow> bool" where
  "block_holds (Prefix (Addr4 net) n) (Addr4 ip) \<longleftrightarrow> uint ip div 2 ^ (32 - n) = uint net div 2 ^ (32 - n)"
| "block_holds (Prefix (Addr6 net z) n) (Addr6 ip zone) \<longleftrightarrow>
     zone = [] \<and> uint ip div 2 ^ (128 - n) = uint net div 2 ^ (128 - n)"
| "block_holds _ _ \<longleftrightarrow> False"

lemma Contains_block: "Contains p ip = block_holds p ip"
  by (cases "(p, ip)" rule: block_holds.cases) (simp_all add: Contains_v4 Contains_v6 del: Contains.simps(1,2))

text \<open>The meaning of each operator on the values of a condition and of a request.\<close>

definition operator_accepts :: "'r regexp_lib \<Rightarrow> 'r condition \<Rightarrow> string list \<Rightarrow> bool" where
  "operator_accepts rx cond vs \<longleftrightarrow>
     cond_Operator cond = ''EQUALS'' \<and> mset (cond_Value cond) = mset vs
     \<or> cond_Operator cond = ''CONTAINS_ALL''
         \<and> (cond_Value cond = [] \<or> length (cond_Value cond) \<le> length vs \<and> set (cond_Value cond) \<subseteq> set vs)
     \<or> cond_Operator cond = ''CONTAINS_ANY''
         \<and> (cond_Value cond = [] \<or> set (cond_Value cond) \<inter> set vs \<noteq> {})
     \<or> cond_Operator cond = ''IN_CIDR''
         \<and> (\<exists>given ip. vs = [given] \<and> ParseAddr given = Some ip
              \<and> (\<exists>block \<in> set (cond_Value cond). \<exists>p. ParsePrefix block = Some p \<and> block_holds p ip))
     \<or> cond_Operator cond = ''BETWEEN''
         \<and> (\<exists>low high given lo hi v. cond_Value cond = [low, high] \<and> vs = [given]
              \<and> Atoi low = Some lo \<and> Atoi high = Some hi \<and> Atoi given = Some v \<and> lo \<le> v \<and> v \<le> hi)
     \<or> cond_Operator cond = ''REGEX''
         \<and> (\<exists>r. cond_CompiledRegex cond = Some r \<and> (\<exists>v \<in> set vs. rx_MatchString rx r v))"

lemma evalBetween_iff:
  "evalBetween cv vs \<longleftrightarrow> (\<exists>low high given lo hi v. cv = [low, high] \<and> vs = [given]
     \<and> Atoi low = Some lo \<and> Atoi high = Some hi \<and> Atoi given = Some v \<and> lo \<le> v \<and> v \<le> hi)"
proof (cases "length cv = 2 \<and> length vs = 1")
  case True
  then obtain low high given where "cv = [low, high]" "vs = [given]"
    by (auto simp: numeral_2_eq_2 length_Suc_conv)
  then show ?thesis by (auto simp: evalBetween_def split: option.splits)
qed (auto simp: evalBetween_def)

lemma apply_operator_iff: "apply_operator rx cond vs = operator_accepts rx cond vs"
proof (cases "cond_Operator cond \<in> known_operators")
  case True
  then show ?thesis
    unfolding known_operators_def
    by (elim insertE emptyE)
       (auto simp: apply_operator_def operator_accepts_def evalEquals_multiset evalContainsAll_def evalContainsAny_def
         all_present_iff any_present_iff value_set_iff evalInCIDR_iff Contains_block evalBetween_iff evalRegex_iff)
next
  case False
  then show ?thesis by (simp add: apply_operator_def operator_accepts_def known_operators_def)
qed


end
