(* ===== verification/Engine.thy ===== *)
theory Engine
  imports Operators
begin

text \<open>
  The decision engine, \<open>internal/engine/engine.go\<close>: \<open>firstMatch\<close> and \<open>CheckAccess\<close>, the
  interface \<open>PolicyProvider\<close> as a locale, and the abstract decision that the engine computes.

  The engine sees a provider only through the call that lists the active policies; that call
  is a function of the provider's state, and may return an error.  The elapsed time that
  \<open>time.Since\<close> reports at the return is an argument.
\<close>

record 'r PolicySnapshot =
  snap_Allow :: "'r policy list"
  snap_Deny :: "'r policy list"

record EvaluationResponse =
  resp_Allowed :: bool
  resp_MatchedPolicyID :: string
  resp_Reason :: string
  resp_EvaluationTimeNs :: int

subsection \<open>firstMatch\<close>

fun allCondsMet :: "'r regexp_lib \<Rightarrow> 'r condition list \<Rightarrow> EvaluationRequest \<Rightarrow> bool" where
  "allCondsMet rx [] req = True"
| "allCondsMet rx (cond # conds) req =
     (if \<not> EvaluateCondition rx cond req then False else allCondsMet rx conds req)"

text \<open>The pair of a policy and a flag that the code returns is an option.\<close>

fun firstMatch :: "'r regexp_lib \<Rightarrow> 'r policy list \<Rightarrow> EvaluationRequest \<Rightarrow> 'r policy option" where
  "firstMatch rx [] req = None"
| "firstMatch rx (p # ps) req =
     (if tg_ResourceType (pol_Target p) \<noteq> req_ResourceType req
         \<or> tg_Action (pol_Target p) \<noteq> req_Action req
      then firstMatch rx ps req
      else if allCondsMet rx (pol_Conditions p) req then Some p
      else firstMatch rx ps req)"

subsection \<open>CheckAccess\<close>

definition reason_deny :: string where
  "reason_deny = ''Explicit Deny: Matched deny policy''"

definition reason_allow :: string where
  "reason_allow = ''Matched Policy''"

definition reason_default :: string where
  "reason_default = ''Implict Deny: No matching polices''"

lemma reasons_distinct [simp]:
  "reason_deny \<noteq> reason_allow" "reason_deny \<noteq> reason_default" "reason_allow \<noteq> reason_default"
  "reason_allow \<noteq> reason_deny" "reason_default \<noteq> reason_deny" "reason_default \<noteq> reason_allow"
  by (simp_all add: reason_deny_def reason_allow_def reason_default_def)

definition CheckAccess ::
  "'r regexp_lib \<Rightarrow> ('s \<Rightarrow> string + 'r PolicySnapshot) \<Rightarrow> 's \<Rightarrow> EvaluationRequest \<Rightarrow> int
     \<Rightarrow> string + EvaluationResponse" where
  "CheckAccess rx listActive provider req elapsed =
     (case listActive provider of
        Inl err \<Rightarrow> Inl (''failed to list policies: '' @ err)
      | Inr snapshot \<Rightarrow>
          (case firstMatch rx (snap_Deny snapshot) req of
             Some p \<Rightarrow>
               Inr \<lparr>resp_Allowed = False, resp_MatchedPolicyID = pol_ID p,
                    resp_Reason = reason_deny, resp_EvaluationTimeNs = elapsed\<rparr>
           | None \<Rightarrow>
               (case firstMatch rx (snap_Allow snapshot) req of
                  Some p \<Rightarrow>
                    Inr \<lparr>resp_Allowed = True, resp_MatchedPolicyID = pol_ID p,
                         resp_Reason = reason_allow, resp_EvaluationTimeNs = elapsed\<rparr>
                | None \<Rightarrow>
                    Inr \<lparr>resp_Allowed = False, resp_MatchedPolicyID = [],
                         resp_Reason = reason_default, resp_EvaluationTimeNs = elapsed\<rparr>)))"

subsection \<open>The abstract decision\<close>

text \<open>A policy applies to a request when its target is the request's and every condition holds.\<close>

definition applies :: "'r regexp_lib \<Rightarrow> 'r policy \<Rightarrow> EvaluationRequest \<Rightarrow> bool" where
  "applies rx p req \<longleftrightarrow>
     tg_ResourceType (pol_Target p) = req_ResourceType req
     \<and> tg_Action (pol_Target p) = req_Action req
     \<and> (\<forall>cond \<in> set (pol_Conditions p). EvaluateCondition rx cond req)"

text \<open>Deny overrides: some allow policy applies and no deny policy does.\<close>

definition granted :: "'r regexp_lib \<Rightarrow> 'r policy set \<Rightarrow> 'r policy set \<Rightarrow> EvaluationRequest \<Rightarrow> bool" where
  "granted rx A D req \<longleftrightarrow> (\<exists>p \<in> A. applies rx p req) \<and> \<not> (\<exists>p \<in> D. applies rx p req)"

lemma allCondsMet_iff: "allCondsMet rx conds req \<longleftrightarrow> (\<forall>cond \<in> set conds. EvaluateCondition rx cond req)"
  by (induction conds) auto

lemma firstMatch_find: "firstMatch rx ps req = List.find (\<lambda>p. applies rx p req) ps"
  by (induction ps) (auto simp: applies_def allCondsMet_iff)

lemma firstMatch_Some: "firstMatch rx ps req = Some p \<Longrightarrow> p \<in> set ps \<and> applies rx p req"
  by (auto simp: firstMatch_find find_Some_iff)

lemma firstMatch_None: "firstMatch rx ps req = None \<longleftrightarrow> (\<forall>p \<in> set ps. \<not> applies rx p req)"
  by (auto simp: firstMatch_find find_None_iff)

lemma firstMatch_NoneD: "firstMatch rx ps req = None \<Longrightarrow> p \<in> set ps \<Longrightarrow> \<not> applies rx p req"
  by (simp add: firstMatch_None)

lemma granted_mono: "A \<subseteq> A' \<Longrightarrow> D' \<subseteq> D \<Longrightarrow> granted rx A D req \<Longrightarrow> granted rx A' D' req"
  by (auto simp: granted_def)

lemma CheckAccess_decision:
  assumes "listActive s = Inr snap"
  shows "\<exists>resp. CheckAccess rx listActive s req t = Inr resp
    \<and> resp_Allowed resp = granted rx (set (snap_Allow snap)) (set (snap_Deny snap)) req"
  using assms
  by (cases "firstMatch rx (snap_Deny snap) req"; cases "firstMatch rx (snap_Allow snap) req")
     (auto simp: CheckAccess_def granted_def dest: firstMatch_Some firstMatch_NoneD)

text \<open>The outcome of an evaluation, without the policy identifier and the time.\<close>

definition outcome :: "string + EvaluationResponse \<Rightarrow> (bool \<times> string) option" where
  "outcome r = (case r of Inl _ \<Rightarrow> None | Inr resp \<Rightarrow> Some (resp_Allowed resp, resp_Reason resp))"

lemma outcome_CheckAccess:
  "outcome (CheckAccess rx la s req t) =
     (case la s of
        Inl _ \<Rightarrow> None
      | Inr snap \<Rightarrow>
          Some (if \<exists>p \<in> set (snap_Deny snap). applies rx p req then (False, reason_deny)
                else if \<exists>p \<in> set (snap_Allow snap). applies rx p req then (True, reason_allow)
                else (False, reason_default)))"
proof (cases "la s")
  case (Inl e)
  then show ?thesis by (simp add: CheckAccess_def outcome_def)
next
  case (Inr snap)
  then show ?thesis
    by (cases "firstMatch rx (snap_Deny snap) req"; cases "firstMatch rx (snap_Allow snap) req")
       (auto simp: CheckAccess_def outcome_def dest: firstMatch_Some firstMatch_NoneD)
qed

text \<open>
  C3: the engine decides deny-overrides.  Whatever the provider lists, the answer allows the
  request exactly when some allow policy applies and no deny policy applies; the reason names
  the phase that decided; and the reported policy is one that applies, taken from the table of
  that phase, with no policy reported for the default denial.
\<close>

theorem CheckAccess_deny_overrides:
  assumes "listActive s = Inr snap"
  shows "\<exists>resp. CheckAccess rx listActive s req t = Inr resp
    \<and> (resp_Allowed resp \<longleftrightarrow> granted rx (set (snap_Allow snap)) (set (snap_Deny snap)) req)
    \<and> (resp_Reason resp = reason_deny \<and> \<not> resp_Allowed resp
         \<and> (\<exists>p \<in> set (snap_Deny snap). applies rx p req \<and> pol_ID p = resp_MatchedPolicyID resp)
       \<or> resp_Reason resp = reason_allow \<and> resp_Allowed resp
         \<and> (\<exists>p \<in> set (snap_Allow snap). applies rx p req \<and> pol_ID p = resp_MatchedPolicyID resp)
       \<or> resp_Reason resp = reason_default \<and> \<not> resp_Allowed resp
         \<and> resp_MatchedPolicyID resp = []
         \<and> (\<forall>p \<in> set (snap_Allow snap) \<union> set (snap_Deny snap). \<not> applies rx p req))"
proof (cases "firstMatch rx (snap_Deny snap) req")
  case (Some p)
  then show ?thesis using assms firstMatch_Some [OF Some] by (auto simp: CheckAccess_def granted_def)
next
  case None
  note deny = None
  show ?thesis
  proof (cases "firstMatch rx (snap_Allow snap) req")
    case (Some p)
    then show ?thesis
      using assms deny firstMatch_Some [OF Some] firstMatch_NoneD [OF deny]
      by (auto simp: CheckAccess_def granted_def)
  next
    case None
    then show ?thesis using assms deny firstMatch_NoneD [OF deny] firstMatch_NoneD [OF None]
      by (auto simp: CheckAccess_def granted_def)
  qed
qed

text \<open>
  The outcome does not depend on the order in which the tables are listed.  Go ranges over
  the maps of the store in an unspecified order, so two evaluations of the same tables may
  report different matching policies, but never a different decision or a different reason.
\<close>

theorem CheckAccess_order_independent:
  assumes "listActive s = Inr snap" "listActive' s' = Inr snap'"
    and "mset (snap_Allow snap) = mset (snap_Allow snap')"
    and "mset (snap_Deny snap) = mset (snap_Deny snap')"
  shows "outcome (CheckAccess rx listActive s req t) = outcome (CheckAccess rx listActive' s' req t')"
proof -
  have "set (snap_Allow snap) = set (snap_Allow snap')" "set (snap_Deny snap) = set (snap_Deny snap')"
    using assms(3,4) by (metis set_mset_mset)+
  then show ?thesis using assms(1,2) by (simp add: outcome_CheckAccess)
qed

text \<open>
  A provider that cannot list its policies never yields a decision: the error is returned
  with its cause, and the request is neither allowed nor denied by the engine.
\<close>

theorem CheckAccess_provider_error:
  "listActive s = Inl err \<Longrightarrow>
     CheckAccess rx listActive s req t = Inl (''failed to list policies: '' @ err)"
  by (simp add: CheckAccess_def)

subsection \<open>Examples for the witnesses\<close>

definition sample_request :: "string \<Rightarrow> EvaluationRequest" where
  "sample_request role =
     \<lparr>req_PrincipalID = ''usr-1'', req_PrincipalAttributes = [(''role'', [role])],
      req_ResourceType = ''dashboard'', req_ResourceID = [], req_ResourceAttributes = [],
      req_Action = ''READ'', req_EnvironmentAttributes = []\<rparr>"

definition role_policy :: "string \<Rightarrow> Access \<Rightarrow> string \<Rightarrow> 'r policy" where
  "role_policy pid acc role =
     mk_policy pid acc ''dashboard'' ''READ'' [mk_condition ''principal.role'' ''EQUALS'' [role]]"

lemma applies_role_policy [simp]:
  "applies rx (role_policy pid acc role) (sample_request role') \<longleftrightarrow> role = role'"
  by (auto simp: applies_def role_policy_def mk_policy_def mk_condition_def sample_request_def
      EvaluateCondition_holds attribute_map_def apply_operator_def known_operators_def evalEquals_multiset
      append_eq_Cons_conv Cons_eq_append_conv)

lemma role_policy_fields [simp]:
  "pol_ID (role_policy pid acc role) = pid" "pol_Access (role_policy pid acc role) = acc"
  by (simp_all add: role_policy_def mk_policy_def)

definition sample_snapshot :: "'r PolicySnapshot" where
  "sample_snapshot =
     \<lparr>snap_Allow = [role_policy ''a1'' AccessAllow ''admin'', role_policy ''a2'' AccessAllow ''admin''],
      snap_Deny = [role_policy ''d1'' AccessDeny ''blocked'']\<rparr>"

theorem CheckAccess_deny_overrides_witness:
  "\<exists>resp. CheckAccess literal_regexp (\<lambda>_ :: unit. Inr sample_snapshot) () (sample_request ''admin'') 7 = Inr resp
     \<and> resp_Allowed resp"
  using CheckAccess_deny_overrides [of "\<lambda>_ :: unit. Inr sample_snapshot" "()" sample_snapshot
      literal_regexp "sample_request ''admin''" 7]
  by (auto simp: sample_snapshot_def granted_def)

theorem CheckAccess_order_independent_witness:
  "outcome (CheckAccess literal_regexp (\<lambda>_ :: unit. Inr sample_snapshot) () (sample_request ''admin'') 7)
     = outcome (CheckAccess literal_regexp
         (\<lambda>_ :: unit. Inr (sample_snapshot\<lparr>snap_Allow := rev (snap_Allow sample_snapshot)\<rparr>)) ()
         (sample_request ''admin'') 9)"
  by (rule CheckAccess_order_independent
      [where snap = sample_snapshot and snap' = "sample_snapshot\<lparr>snap_Allow := rev (snap_Allow sample_snapshot)\<rparr>"])
    simp_all

theorem CheckAccess_provider_error_witness:
  "CheckAccess literal_regexp (\<lambda>_ :: unit. Inl ''closed'') () (sample_request ''admin'') 7
     = Inl ''failed to list policies: closed''"
  using CheckAccess_provider_error [of "\<lambda>_ :: unit. Inl ''closed''" "()" "''closed''" literal_regexp]
  by simp

end
