(* ===== verification/Policy_Interface.thy ===== *)
theory Policy_Interface
  imports Engine
begin

text \<open>
  The interfaces between the engine, the subscriber and the policy store, as locales.

  \<open>policy_provider\<close> is the Go interface \<open>PolicyProvider\<close> that the engine is built on: one call
  that lists the active policies.  Its laws say what the two lists of a snapshot hold, in
  terms of the table of policies by identifier that the provider stands for.
  \<open>policy_repository\<close> adds the updates that the subscriber makes.  The client lemmas are
  proved here once; the store interprets both locales.
\<close>

type_synonym 'r PolicyMap = "(string, 'r policy) gomap"
type_synonym 'r map_order = "(string \<times> 'r policy) list \<Rightarrow> (string \<times> 'r policy) list"

text \<open>The decision that a table of policies stands for.\<close>

definition allow_part :: "(string \<Rightarrow> 'r policy option) \<Rightarrow> 'r policy set" where
  "allow_part tab = {p \<in> ran tab. pol_Access p = AccessAllow}"

definition deny_part :: "(string \<Rightarrow> 'r policy option) \<Rightarrow> 'r policy set" where
  "deny_part tab = {p \<in> ran tab. pol_Access p \<noteq> AccessAllow}"

definition authorized ::
  "'r regexp_lib \<Rightarrow> (string \<Rightarrow> 'r policy option) \<Rightarrow> EvaluationRequest \<Rightarrow> bool" where
  "authorized rx tab req = granted rx (allow_part tab) (deny_part tab) req"

lemma allow_partI: "tab k = Some p \<Longrightarrow> pol_Access p = AccessAllow \<Longrightarrow> p \<in> allow_part tab"
  by (auto simp: allow_part_def ran_def)

lemma deny_partI: "tab k = Some p \<Longrightarrow> pol_Access p \<noteq> AccessAllow \<Longrightarrow> p \<in> deny_part tab"
  by (auto simp: deny_part_def ran_def)

lemma authorized_empty [simp]: "\<not> authorized rx (\<lambda>_. None) req"
  by (simp add: authorized_def granted_def allow_part_def)

lemma authorized_deny:
  "tab k = Some p \<Longrightarrow> pol_Access p \<noteq> AccessAllow \<Longrightarrow> applies rx p req \<Longrightarrow> \<not> authorized rx tab req"
  using deny_partI by (fastforce simp: authorized_def granted_def)

lemma authorizedD:
  "authorized rx tab req \<Longrightarrow> \<exists>k p. tab k = Some p \<and> pol_Access p = AccessAllow \<and> applies rx p req"
  by (auto simp: authorized_def granted_def allow_part_def ran_def)

subsection \<open>Updates\<close>

datatype 'r update = Upsert "'r policy" | Delete string

text \<open>The effect of an update on the abstract table.\<close>

fun update_key :: "'r update \<Rightarrow> string" where
  "update_key (Upsert p) = pol_ID p"
| "update_key (Delete k) = k"

fun table_update :: "(string \<Rightarrow> 'r policy option) \<Rightarrow> 'r update \<Rightarrow> (string \<Rightarrow> 'r policy option)" where
  "table_update tab (Upsert p) = tab(pol_ID p \<mapsto> p)"
| "table_update tab (Delete k) = tab(k := None)"

definition run_updates ::
  "('r policy \<Rightarrow> 's \<Rightarrow> 's) \<Rightarrow> (string \<Rightarrow> 's \<Rightarrow> 's) \<Rightarrow> 'r update list \<Rightarrow> 's \<Rightarrow> 's" where
  "run_updates ups del us s =
     foldl (\<lambda>s u. case u of Upsert p \<Rightarrow> ups p s | Delete k \<Rightarrow> del k s) s us"

lemma run_updates_simps [simp]:
  "run_updates ups del [] s = s"
  "run_updates ups del (u # us) s =
     run_updates ups del us (case u of Upsert p \<Rightarrow> ups p s | Delete k \<Rightarrow> del k s)"
  by (simp_all add: run_updates_def)

subsection \<open>The engine over a provider\<close>

locale policy_provider =
  fixes listing :: "'r map_order \<Rightarrow> 'r map_order \<Rightarrow> 's \<Rightarrow> string + 'r PolicySnapshot"
    and stored :: "'s \<Rightarrow> string \<Rightarrow> 'r policy option"
    and inv :: "'s \<Rightarrow> bool"
  assumes listing_snapshot:
    "inv s \<Longrightarrow> range_order oa \<Longrightarrow> range_order od \<Longrightarrow>
       \<exists>snap. listing oa od s = Inr snap
         \<and> set (snap_Allow snap) = allow_part (stored s)
         \<and> set (snap_Deny snap) = deny_part (stored s)"
begin

lemma decision:
  assumes "inv s" "range_order oa" "range_order od"
  shows "\<exists>resp. CheckAccess rx (listing oa od) s req t = Inr resp
           \<and> resp_Allowed resp = authorized rx (stored s) req"
proof -
  obtain snap where snap: "listing oa od s = Inr snap"
      "set (snap_Allow snap) = allow_part (stored s)" "set (snap_Deny snap) = deny_part (stored s)"
    using listing_snapshot [OF assms] by blast
  from CheckAccess_decision [of "listing oa od" s snap rx req t, OF snap(1)] snap(2,3)
  show ?thesis by (auto simp: authorized_def)
qed

lemma denied_by:
  assumes "inv s" "range_order oa" "range_order od"
    and "stored s k = Some p" "pol_Access p \<noteq> AccessAllow" "applies rx p req"
  shows "\<exists>resp. CheckAccess rx (listing oa od) s req t = Inr resp \<and> \<not> resp_Allowed resp"
proof -
  have "\<not> authorized rx (stored s) req" by (rule authorized_deny) (fact assms(4-6))+
  then show ?thesis using decision [OF assms(1-3), of rx req t] by auto
qed

end

subsection \<open>The subscriber over a repository\<close>

locale policy_repository = policy_provider +
  fixes empty :: 's
    and upsert :: "'r policy \<Rightarrow> 's \<Rightarrow> 's"
    and delete :: "string \<Rightarrow> 's \<Rightarrow> 's"
  assumes inv_empty: "inv empty"
    and stored_empty: "stored empty = (\<lambda>_. None)"
    and inv_upsert: "inv s \<Longrightarrow> inv (upsert p s)"
    and stored_upsert: "inv s \<Longrightarrow> stored (upsert p s) = (stored s)(pol_ID p \<mapsto> p)"
    and inv_delete: "inv s \<Longrightarrow> inv (delete k s)"
    and stored_delete: "inv s \<Longrightarrow> stored (delete k s) = (stored s)(k := None)"
begin

lemma run_from:
  "inv s \<Longrightarrow> inv (run_updates upsert delete us s)
     \<and> stored (run_updates upsert delete us s) = foldl table_update (stored s) us"
  by (induction us arbitrary: s)
     (auto simp: inv_upsert inv_delete stored_upsert stored_delete split: update.splits)

lemma run:
  "inv (run_updates upsert delete us empty)
     \<and> stored (run_updates upsert delete us empty) = foldl table_update (\<lambda>_. None) us"
  using run_from [OF inv_empty] by (simp add: stored_empty)

lemma run_decision:
  assumes "range_order oa" "range_order od"
  shows "\<exists>resp. CheckAccess rx (listing oa od) (run_updates upsert delete us empty) req t = Inr resp
           \<and> resp_Allowed resp = authorized rx (foldl table_update (\<lambda>_. None) us) req"
  using decision [OF conjunct1 [OF run] assms] by (simp add: conjunct2 [OF run])

lemma upsert_deny_decides:
  assumes "inv s" "range_order oa" "range_order od" "pol_Access p \<noteq> AccessAllow" "applies rx p req"
  shows "\<exists>resp. CheckAccess rx (listing oa od) (upsert p s) req t = Inr resp \<and> \<not> resp_Allowed resp"
  by (rule denied_by [where k = "pol_ID p", OF inv_upsert [OF assms(1)] assms(2,3) _ assms(4,5)])
     (simp add: stored_upsert [OF assms(1)])

end

end
