(* ===== verification/Policy_Store.thy ===== *)
theory Policy_Store
  imports Policy_Interface
begin

text \<open>
  The in-memory policy store, \<open>internal/store/store.go\<close>, as seen by one goroutine: the two
  tables, the copy-on-write updates and the listing.  The retry loops around compare-and-swap
  and the interleavings of goroutines are the subject of \<open>Store_Concurrent\<close>, which uses the
  same table functions; here every compare-and-swap succeeds at once.
\<close>

record 'r PolicyStore =
  ps_allow :: "'r PolicyMap"
  ps_deny :: "'r PolicyMap"

definition NewPolicyStore :: "'r PolicyStore" where
  "NewPolicyStore = \<lparr>ps_allow = [], ps_deny = []\<rparr>"

definition Count :: "'r PolicyStore \<Rightarrow> nat" where
  "Count st = length (ps_allow st) + length (ps_deny st)"

text \<open>The two range loops, each in its own iteration order.\<close>

definition ListActivePolicies ::
  "'r map_order \<Rightarrow> 'r map_order \<Rightarrow> 'r PolicyStore \<Rightarrow> string + 'r PolicySnapshot" where
  "ListActivePolicies ordAllow ordDeny st =
     Inr \<lparr>snap_Allow = map snd (ordAllow (ps_allow st)), snap_Deny = map snd (ordDeny (ps_deny st))\<rparr>"

text \<open>The new map that \<open>upsertInto\<close> builds from the current one, and the one of \<open>removeFrom\<close>.\<close>

definition inserted_map :: "'r policy \<Rightarrow> 'r PolicyMap \<Rightarrow> 'r PolicyMap" where
  "inserted_map p currentMap = gomap_put (pol_ID p) p (maps_Copy [] currentMap)"

definition removed_map :: "string \<Rightarrow> 'r PolicyMap \<Rightarrow> 'r PolicyMap" where
  "removed_map k currentMap = maps_Keep (\<lambda>k'. k' \<noteq> k) currentMap"

definition upsertInto :: "'r policy \<Rightarrow> 'r PolicyMap \<Rightarrow> 'r PolicyMap" where
  "upsertInto p currentMap = inserted_map p currentMap"

definition removeFrom :: "string \<Rightarrow> 'r PolicyMap \<Rightarrow> 'r PolicyMap" where
  "removeFrom k currentMap =
     (if \<not> gomap_has currentMap k then currentMap else removed_map k currentMap)"

definition UpsertPolicy :: "'r policy \<Rightarrow> 'r PolicyStore \<Rightarrow> 'r PolicyStore" where
  "UpsertPolicy p st =
     (if pol_Access p = AccessAllow then
        (let st1 = st\<lparr>ps_deny := removeFrom (pol_ID p) (ps_deny st)\<rparr>
         in st1\<lparr>ps_allow := upsertInto p (ps_allow st1)\<rparr>)
      else
        (let st1 = st\<lparr>ps_allow := removeFrom (pol_ID p) (ps_allow st)\<rparr>
         in st1\<lparr>ps_deny := upsertInto p (ps_deny st1)\<rparr>))"

definition DeletePolicy :: "string \<Rightarrow> 'r PolicyStore \<Rightarrow> 'r PolicyStore" where
  "DeletePolicy k st =
     (let st1 = st\<lparr>ps_allow := removeFrom k (ps_allow st)\<rparr>
      in st1\<lparr>ps_deny := removeFrom k (ps_deny st1)\<rparr>)"

subsection \<open>Tables\<close>

text \<open>
  A table is well formed for a test on access modes when its keys are distinct, every policy
  is stored under its own identifier, and every policy passes the test.
\<close>

definition table_ok :: "(Access \<Rightarrow> bool) \<Rightarrow> 'r PolicyMap \<Rightarrow> bool" where
  "table_ok P m \<longleftrightarrow> gomap_ok m
     \<and> (\<forall>k p. gomap_get m k = Some p \<longrightarrow> pol_ID p = k \<and> P (pol_Access p))"

abbreviation allow_ok :: "'r PolicyMap \<Rightarrow> bool" where
  "allow_ok \<equiv> table_ok (\<lambda>a. a = AccessAllow)"

abbreviation deny_ok :: "'r PolicyMap \<Rightarrow> bool" where
  "deny_ok \<equiv> table_ok (\<lambda>a. a \<noteq> AccessAllow)"

lemma table_ok_gomap [simp]: "table_ok P m \<Longrightarrow> gomap_ok m"
  by (simp add: table_ok_def)

lemma table_ok_Nil [simp]: "table_ok P []"
  by (simp add: table_ok_def)

lemma table_ok_insert [intro]: "table_ok P m \<Longrightarrow> P (pol_Access p) \<Longrightarrow> table_ok P (inserted_map p m)"
  by (auto simp: table_ok_def inserted_map_def split: if_splits)

lemma table_ok_removed [intro]: "table_ok P m \<Longrightarrow> table_ok P (removed_map k m)"
  by (auto simp: table_ok_def removed_map_def split: if_splits)

lemma table_ok_removeFrom [intro]: "table_ok P m \<Longrightarrow> table_ok P (removeFrom k m)"
  by (auto simp: removeFrom_def)

lemma get_inserted [gomap_simps, simp]:
  "gomap_ok m \<Longrightarrow> gomap_get (inserted_map p m) k = (if k = pol_ID p then Some p else gomap_get m k)"
  by (simp add: inserted_map_def)

lemma get_removeFrom [gomap_simps, simp]:
  "gomap_ok m \<Longrightarrow> gomap_get (removeFrom k m) k' = (if k' = k then None else gomap_get m k')"
  by (auto simp: removeFrom_def removed_map_def)

lemma removeFrom_removed: "gomap_ok m \<Longrightarrow> removeFrom k m = removed_map k m"
proof (cases "gomap_has m k")
  case False
  assume "gomap_ok m"
  moreover have "filter (\<lambda>e. fst e \<noteq> k) m = m"
    unfolding filter_id_conv using False by (metis not_Some_eq prod.collapse weak_map_of_SomeI)
  ultimately show ?thesis by (simp add: removeFrom_def removed_map_def maps_Keep_filter)
qed (simp add: removeFrom_def)

subsection \<open>The store invariant\<close>

text \<open>
  One identifier has one entry: the tables are well formed for their access modes and no
  identifier is in both.  The allow table holds only policies whose mode is exactly ALLOW.
\<close>

definition store_inv :: "'r PolicyStore \<Rightarrow> bool" where
  "store_inv st \<longleftrightarrow> allow_ok (ps_allow st) \<and> deny_ok (ps_deny st)
     \<and> (\<forall>k. gomap_get (ps_allow st) k = None \<or> gomap_get (ps_deny st) k = None)"

text \<open>The table by identifier that a store stands for.\<close>

definition stored :: "'r PolicyStore \<Rightarrow> string \<Rightarrow> 'r policy option" where
  "stored st k = (case gomap_get (ps_deny st) k of Some p \<Rightarrow> Some p | None \<Rightarrow> gomap_get (ps_allow st) k)"

lemma store_inv_allowD: "store_inv st \<Longrightarrow> allow_ok (ps_allow st)"
  and store_inv_denyD: "store_inv st \<Longrightarrow> deny_ok (ps_deny st)"
  by (simp_all add: store_inv_def)

lemma store_inv_gomap [simp]:
  "store_inv st \<Longrightarrow> gomap_ok (ps_allow st)" "store_inv st \<Longrightarrow> gomap_ok (ps_deny st)"
  by (auto simp: store_inv_def)

lemma store_inv_disjoint:
  "store_inv st \<Longrightarrow> gomap_get (ps_deny st) k = Some p \<Longrightarrow> gomap_get (ps_allow st) k = None"
  unfolding store_inv_def by (metis option.distinct(1))

lemma store_invI:
  assumes "allow_ok (ps_allow st)" "deny_ok (ps_deny st)"
    and "\<And>k p. gomap_get (ps_deny st) k = Some p \<Longrightarrow> gomap_get (ps_allow st) k = None"
  shows "store_inv st"
  unfolding store_inv_def using assms by (metis not_None_eq)

lemma UpsertPolicy_tables:
  "ps_allow (UpsertPolicy p st) =
     (if pol_Access p = AccessAllow then inserted_map p (ps_allow st)
      else removeFrom (pol_ID p) (ps_allow st))"
  "ps_deny (UpsertPolicy p st) =
     (if pol_Access p = AccessAllow then removeFrom (pol_ID p) (ps_deny st)
      else inserted_map p (ps_deny st))"
  by (simp_all add: UpsertPolicy_def upsertInto_def Let_def)

lemma DeletePolicy_tables:
  "ps_allow (DeletePolicy k st) = removeFrom k (ps_allow st)"
  "ps_deny (DeletePolicy k st) = removeFrom k (ps_deny st)"
  by (simp_all add: DeletePolicy_def Let_def)

lemma store_inv_New [simp]: "store_inv NewPolicyStore"
  by (simp add: store_inv_def NewPolicyStore_def)

lemma store_inv_Upsert: "store_inv st \<Longrightarrow> store_inv (UpsertPolicy p st)"
  by (rule store_invI)
     (auto simp: UpsertPolicy_tables store_inv_disjoint dest: store_inv_allowD store_inv_denyD
       split: if_splits)

lemma store_inv_Delete: "store_inv st \<Longrightarrow> store_inv (DeletePolicy k st)"
  by (rule store_invI)
     (auto simp: DeletePolicy_tables store_inv_disjoint dest: store_inv_allowD store_inv_denyD
       split: if_splits)

lemma stored_Upsert: "store_inv st \<Longrightarrow> stored (UpsertPolicy p st) = (stored st)(pol_ID p \<mapsto> p)"
  by (rule ext) (auto simp: stored_def UpsertPolicy_tables split: option.splits)

lemma stored_Delete: "store_inv st \<Longrightarrow> stored (DeletePolicy k st) = (stored st)(k := None)"
  by (rule ext) (auto simp: stored_def DeletePolicy_tables split: option.splits)

lemma stored_eq_Some:
  assumes "store_inv st"
  shows "stored st k = Some p \<longleftrightarrow>
           gomap_get (ps_allow st) k = Some p \<or> gomap_get (ps_deny st) k = Some p"
  using store_inv_disjoint [OF assms, of k] by (auto simp: stored_def split: option.splits)

lemma table_ok_getD: "table_ok P m \<Longrightarrow> gomap_get m k = Some p \<Longrightarrow> pol_ID p = k \<and> P (pol_Access p)"
  by (simp add: table_ok_def)

lemma stored_parts:
  assumes "store_inv st"
  shows "allow_part (stored st) = ran (gomap_get (ps_allow st))"
    and "deny_part (stored st) = ran (gomap_get (ps_deny st))"
  using table_ok_getD [OF store_inv_allowD [OF assms]] table_ok_getD [OF store_inv_denyD [OF assms]]
  unfolding allow_part_def deny_part_def ran_def by (auto simp: stored_eq_Some [OF assms])

lemma ListActivePolicies_sets:
  assumes "store_inv st" "range_order oa" "range_order od"
  shows "\<exists>snap. ListActivePolicies oa od st = Inr snap
           \<and> set (snap_Allow snap) = allow_part (stored st)
           \<and> set (snap_Deny snap) = deny_part (stored st)"
proof -
  have "gomap_ok (ps_allow st)" "gomap_ok (ps_deny st)" using assms(1) by simp_all
  then show ?thesis
    using gomap_values [of "ps_allow st"] gomap_values [of "ps_deny st"]
    by (simp add: ListActivePolicies_def stored_parts [OF assms(1)] range_order_set [OF assms(2)]
        range_order_set [OF assms(3)])
qed

interpretation store: policy_repository ListActivePolicies stored store_inv NewPolicyStore
  UpsertPolicy DeletePolicy
proof unfold_locales
  show "stored NewPolicyStore = (\<lambda>_. None)"
    by (simp add: stored_def NewPolicyStore_def fun_eq_iff)
qed (simp_all add: store_inv_Upsert store_inv_Delete stored_Upsert stored_Delete
    ListActivePolicies_sets)

subsection \<open>Properties of the store\<close>

text \<open>
  C6: the two tables implement one table of policies by identifier.  After any history of
  upserts and deletes the tables are disjoint and well formed, and looking an identifier up in
  them gives the policy of the last upsert of that identifier since its last deletion, whatever
  access modes the successive versions had.
\<close>

theorem store_refines_table:
  "store_inv (run_updates UpsertPolicy DeletePolicy us NewPolicyStore)
   \<and> stored (run_updates UpsertPolicy DeletePolicy us NewPolicyStore)
       = foldl table_update (\<lambda>_. None) us"
  by (rule store.run)

text \<open>
  C4: the engine over the store decides what the history says.  For any history of updates and
  any iteration orders of the two maps, a request is allowed exactly when some policy whose
  mode is ALLOW applies and no stored policy of any other mode does.
\<close>

theorem store_engine_decision:
  assumes "range_order oa" "range_order od"
  shows "\<exists>resp. CheckAccess rx (ListActivePolicies oa od)
             (run_updates UpsertPolicy DeletePolicy us NewPolicyStore) req t = Inr resp
           \<and> (resp_Allowed resp \<longleftrightarrow> authorized rx (foldl table_update (\<lambda>_. None) us) req)"
  by (rule store.run_decision [OF assms])

text \<open>
  An update with any access mode but ALLOW takes effect as a denial.  Right after the
  upsert, a request to which the policy applies is denied, even if the identifier was an allow
  policy before or other allow policies apply; a mode that is no known mode is no exception.
\<close>

theorem upsert_deny_effective:
  assumes "store_inv st" "range_order oa" "range_order od"
    and "pol_Access p \<noteq> AccessAllow" "applies rx p req"
  shows "\<exists>resp. CheckAccess rx (ListActivePolicies oa od) (UpsertPolicy p st) req t = Inr resp
           \<and> \<not> resp_Allowed resp"
  by (rule store.upsert_deny_decides [OF assms])

lemma gomap_card_dom: "gomap_ok m \<Longrightarrow> card (dom (gomap_get m)) = length m"
  by (metis distinct_card dom_map_of_conv_image_fst gomap_ok_def length_map list.set_map)

lemma dom_stored: "dom (stored st) = dom (gomap_get (ps_allow st)) \<union> dom (gomap_get (ps_deny st))"
  by (auto simp: stored_def split: option.splits)

lemma Count_card:
  assumes "store_inv st"
  shows "Count st = card (dom (stored st))"
proof -
  have "dom (gomap_get (ps_allow st)) \<inter> dom (gomap_get (ps_deny st)) = {}"
    using store_inv_disjoint [OF assms] by fastforce
  then show ?thesis
    using assms by (simp add: Count_def dom_stored card_Un_disjoint finite_dom_map_of gomap_card_dom)
qed

text \<open>
  The count of the store is the number of identifiers that the history leaves stored: an
  upsert of a stored identifier, with the same or another access mode, does not inflate it.
\<close>

theorem Count_history:
  "Count (run_updates UpsertPolicy DeletePolicy us NewPolicyStore)
     = card (dom (foldl table_update (\<lambda>_. None) us))"
  by (simp add: Count_card [OF conjunct1 [OF store.run]] conjunct2 [OF store.run])

subsection \<open>Witnesses\<close>

theorem store_engine_decision_witness:
  "\<exists>resp. CheckAccess literal_regexp (ListActivePolicies rev (\<lambda>m. m))
        (run_updates UpsertPolicy DeletePolicy
          [Upsert (role_policy ''a'' AccessAllow ''admin''), Upsert (role_policy ''b'' ''AUDIT'' ''admin''),
           Delete ''b''] NewPolicyStore) (sample_request ''admin'') 5 = Inr resp
     \<and> resp_Allowed resp"
  using store_engine_decision [of rev "\<lambda>m. m" literal_regexp
      "[Upsert (role_policy ''a'' AccessAllow ''admin''), Upsert (role_policy ''b'' ''AUDIT'' ''admin''),
        Delete ''b'']" "sample_request ''admin''" 5]
  by (auto simp: authorized_def granted_def allow_part_def deny_part_def ran_def AccessAllow_def
      split: if_splits)

theorem upsert_deny_effective_witness:
  "\<exists>resp. CheckAccess literal_regexp (ListActivePolicies rev rev)
        (UpsertPolicy (role_policy ''a'' ''AUDIT'' ''admin'')
          (UpsertPolicy (role_policy ''a'' AccessAllow ''admin'') NewPolicyStore))
        (sample_request ''admin'') 5 = Inr resp
     \<and> \<not> resp_Allowed resp"
  by (rule upsert_deny_effective) (simp_all add: store_inv_Upsert AccessAllow_def)

end
