(* ===== verification/Store_Concurrent.thy ===== *)
theory Store_Concurrent
  imports Policy_Store
begin

text \<open>
  The policy store under concurrency, \<open>internal/store/store.go\<close>: goroutines that update and list
  the store, one atomic operation at a time.

  Each table is an atomic pointer to a map that is never changed after it is published, so a
  pointer is a cell: an address and the contents of the map there.  The address of a map that
  a compare-and-swap publishes is fresh.  The atomic operations are the loads of a pointer and
  the compare-and-swaps; what a goroutine computes between two of them on its own maps is part
  of the step before.  The scheduler may choose any goroutine at every step.
\<close>

datatype table = TAllow | TDeny

type_synonym 'r cell = "nat \<times> 'r PolicyMap"

record 'r shared =
  sh_allow :: "'r cell"
  sh_deny :: "'r cell"
  sh_next :: nat

fun cell_of :: "table \<Rightarrow> 'r shared \<Rightarrow> 'r cell" where
  "cell_of TAllow sh = sh_allow sh"
| "cell_of TDeny sh = sh_deny sh"

text \<open>Publishing a new map: the pointer gets the next fresh address.\<close>

fun publish :: "table \<Rightarrow> 'r PolicyMap \<Rightarrow> 'r shared \<Rightarrow> 'r shared" where
  "publish TAllow m sh = sh\<lparr>sh_allow := (sh_next sh, m), sh_next := sh_next sh + 1\<rparr>"
| "publish TDeny m sh = sh\<lparr>sh_deny := (sh_next sh, m), sh_next := sh_next sh + 1\<rparr>"

text \<open>The calls of the two retry loops, and the calls that make up an update.\<close>

datatype 'r call = RemoveFrom table string | UpsertInto table "'r policy"

fun call_table :: "'r call \<Rightarrow> table" where
  "call_table (RemoveFrom t k) = t"
| "call_table (UpsertInto t p) = t"

fun upsert_calls :: "'r policy \<Rightarrow> 'r call list" where
  "upsert_calls p =
     (if pol_Access p = AccessAllow then [RemoveFrom TDeny (pol_ID p), UpsertInto TAllow p]
      else [RemoveFrom TAllow (pol_ID p), UpsertInto TDeny p])"

fun delete_calls :: "string \<Rightarrow> 'r call list" where
  "delete_calls k = [RemoveFrom TAllow k, RemoveFrom TDeny k]"

fun update_calls :: "'r update \<Rightarrow> 'r call list" where
  "update_calls (Upsert p) = upsert_calls p"
| "update_calls (Delete k) = delete_calls k"

text \<open>
  The body of a retry loop on the loaded map: the map to publish, or \<open>None\<close> where
  \<open>removeFrom\<close> returns because the identifier is absent.
\<close>

fun loop_body :: "'r call \<Rightarrow> 'r PolicyMap \<Rightarrow> 'r PolicyMap option" where
  "loop_body (UpsertInto t p) m = Some (inserted_map p m)"
| "loop_body (RemoveFrom t k) m = (if \<not> gomap_has m k then None else Some (removed_map k m))"

datatype 'r pc = AtLoad | AtCAS "'r cell" "'r PolicyMap"

text \<open>
  A goroutine is a writer with the calls it still has to make, the first one in progress, or a
  reader inside \<open>ListActivePolicies\<close> (or \<open>Count\<close>), which loads the allow pointer first and the
  deny pointer second.
\<close>

datatype 'r goroutine =
    Writer "'r call list" "'r pc"
  | Reader
  | ReaderAllow "'r PolicyMap"
  | ReaderDone "'r PolicyMap" "'r PolicyMap"

fun goroutine_step :: "'r shared \<Rightarrow> 'r goroutine \<Rightarrow> ('r shared \<times> 'r goroutine) option" where
  "goroutine_step sh (Writer [] pc) = None"
| "goroutine_step sh (Writer (c # cs) AtLoad) =
     (case loop_body c (snd (cell_of (call_table c) sh)) of
        None \<Rightarrow> Some (sh, Writer cs AtLoad)
      | Some newMap \<Rightarrow> Some (sh, Writer (c # cs) (AtCAS (cell_of (call_table c) sh) newMap)))"
| "goroutine_step sh (Writer (c # cs) (AtCAS current newMap)) =
     (if fst (cell_of (call_table c) sh) = fst current
      then Some (publish (call_table c) newMap sh, Writer cs AtLoad)
      else Some (sh, Writer (c # cs) AtLoad))"
| "goroutine_step sh Reader = Some (sh, ReaderAllow (snd (sh_allow sh)))"
| "goroutine_step sh (ReaderAllow A) = Some (sh, ReaderDone A (snd (sh_deny sh)))"
| "goroutine_step sh (ReaderDone A D) = None"

record 'r system =
  shared :: "'r shared"
  procs :: "nat \<Rightarrow> 'r goroutine"

definition system_step :: "nat \<Rightarrow> 'r system \<Rightarrow> 'r system option" where
  "system_step i s =
     map_option (\<lambda>(sh, g). \<lparr>shared = sh, procs = (procs s)(i := g)\<rparr>)
       (goroutine_step (shared s) (procs s i))"

inductive reach :: "'r system \<Rightarrow> 'r system \<Rightarrow> bool" for s0 where
  start: "reach s0 s0"
| step: "reach s0 s \<Longrightarrow> system_step i s = Some s' \<Longrightarrow> reach s0 s'"

text \<open>A schedule runs the goroutines it lists, one step each; a finished one is skipped.\<close>

fun run_schedule :: "nat list \<Rightarrow> 'r system \<Rightarrow> 'r system" where
  "run_schedule [] s = s"
| "run_schedule (i # is) s =
     run_schedule is (case system_step i s of None \<Rightarrow> s | Some s' \<Rightarrow> s')"

lemma reach_schedule_from: "reach s0 s \<Longrightarrow> reach s0 (run_schedule is s)"
  by (induction "is" arbitrary: s) (auto intro: reach.step split: option.splits)

lemma reach_schedule: "reach s (run_schedule is s)"
  by (rule reach_schedule_from) (rule reach.start)

subsection \<open>The abstract view\<close>

definition abs_store :: "'r system \<Rightarrow> 'r PolicyStore" where
  "abs_store s = \<lparr>ps_allow = snd (sh_allow (shared s)), ps_deny = snd (sh_deny (shared s))\<rparr>"

fun remaining :: "'r goroutine \<Rightarrow> 'r call list" where
  "remaining (Writer cs pc) = cs"
| "remaining Reader = []"
| "remaining (ReaderAllow A) = []"
| "remaining (ReaderDone A D) = []"

text \<open>One call as one atomic operation on the store, and the calls of an update in sequence.\<close>

fun apply_call :: "'r call \<Rightarrow> 'r PolicyStore \<Rightarrow> 'r PolicyStore" where
  "apply_call (RemoveFrom TAllow k) st = st\<lparr>ps_allow := removeFrom k (ps_allow st)\<rparr>"
| "apply_call (RemoveFrom TDeny k) st = st\<lparr>ps_deny := removeFrom k (ps_deny st)\<rparr>"
| "apply_call (UpsertInto TAllow p) st = st\<lparr>ps_allow := upsertInto p (ps_allow st)\<rparr>"
| "apply_call (UpsertInto TDeny p) st = st\<lparr>ps_deny := upsertInto p (ps_deny st)\<rparr>"

definition apply_calls :: "'r call list \<Rightarrow> 'r PolicyStore \<Rightarrow> 'r PolicyStore" where
  "apply_calls cs st = foldl (\<lambda>st c. apply_call c st) st cs"

lemma apply_calls_simps [simp]:
  "apply_calls [] st = st"
  "apply_calls (c # cs) st = apply_calls cs (apply_call c st)"
  "apply_calls (cs @ ds) st = apply_calls ds (apply_calls cs st)"
  by (simp_all add: apply_calls_def)

lemma apply_upsert_calls: "apply_calls (upsert_calls p) st = UpsertPolicy p st"
  by (simp add: UpsertPolicy_def Let_def)

lemma apply_delete_calls: "apply_calls (delete_calls k) st = DeletePolicy k st"
  by (simp add: DeletePolicy_def Let_def)

text \<open>
  What a goroutine between its load and its compare-and-swap may rely on: if the pointer still
  has the address it loaded, the map there is the one it loaded.
\<close>

definition goroutine_ok :: "'r shared \<Rightarrow> 'r goroutine \<Rightarrow> bool" where
  "goroutine_ok sh g \<longleftrightarrow>
     (\<forall>c cs current newMap. g = Writer (c # cs) (AtCAS current newMap) \<longrightarrow>
        fst current < sh_next sh \<and> loop_body c (snd current) = Some newMap
        \<and> (fst (cell_of (call_table c) sh) = fst current \<longrightarrow> cell_of (call_table c) sh = current))"

definition conc_inv :: "'r system \<Rightarrow> bool" where
  "conc_inv s \<longleftrightarrow> (\<forall>t. fst (cell_of t (shared s)) < sh_next (shared s))
     \<and> (\<forall>i. goroutine_ok (shared s) (procs s i))"

definition view :: "'r shared \<Rightarrow> 'r PolicyStore" where
  "view sh = \<lparr>ps_allow = snd (sh_allow sh), ps_deny = snd (sh_deny sh)\<rparr>"

lemma abs_store_view: "abs_store s = view (shared s)"
  by (simp add: abs_store_def view_def)

lemma view_publish:
  "loop_body c (snd (cell_of (call_table c) sh)) = Some m \<Longrightarrow>
     view (publish (call_table c) m sh) = apply_call c (view sh)"
  by (cases "(c, view sh)" rule: apply_call.cases)
     (auto simp: view_def upsertInto_def removeFrom_def split: if_splits)

lemma view_skip:
  "loop_body c (snd (cell_of (call_table c) sh)) = None \<Longrightarrow> apply_call c (view sh) = view sh"
  by (cases "(c, view sh)" rule: apply_call.cases)
     (auto simp: view_def removeFrom_def split: if_splits)

text \<open>Every step is silent or completes the first call of the goroutine that makes it.\<close>

definition linear_step :: "'r shared \<Rightarrow> 'r goroutine \<Rightarrow> 'r shared \<Rightarrow> 'r goroutine \<Rightarrow> bool" where
  "linear_step sh g sh' g' \<longleftrightarrow>
     view sh' = view sh \<and> remaining g' = remaining g
     \<or> (\<exists>c cs. remaining g = c # cs \<and> remaining g' = cs \<and> view sh' = apply_call c (view sh))"

lemma goroutine_step_linear:
  assumes "goroutine_ok sh g" "goroutine_step sh g = Some (sh', g')"
  shows "linear_step sh g sh' g'"
proof (cases "(sh, g)" rule: goroutine_step.cases)
  case (2 sh0 c cs)
  then show ?thesis using assms
    by (auto simp: linear_step_def view_skip split: option.splits)
next
  case (3 sh0 c cs current newMap)
  show ?thesis
  proof (cases "fst (cell_of (call_table c) sh) = fst current")
    case True
    with 3 assms(1) have "loop_body c (snd (cell_of (call_table c) sh)) = Some newMap"
      by (cases current) (auto simp: goroutine_ok_def)
    then have "view (publish (call_table c) newMap sh) = apply_call c (view sh)"
      by (rule view_publish)
    with True 3 assms(2) show ?thesis by (auto simp: linear_step_def)
  next
    case False
    with 3 assms(2) show ?thesis by (auto simp: linear_step_def)
  qed
qed (use assms in \<open>auto simp: linear_step_def\<close>)

lemma cell_of_publish:
  "cell_of t (publish t' m sh) = (if t = t' then (sh_next sh, m) else cell_of t sh)"
  "sh_next (publish t' m sh) = sh_next sh + 1"
  by (cases t; cases t'; simp)+

lemma goroutine_ok_publish:
  "goroutine_ok sh g \<Longrightarrow> goroutine_ok (publish t m sh) g"
  by (fastforce simp: goroutine_ok_def cell_of_publish)

lemma goroutine_ok_AtLoad [simp]:
  "goroutine_ok sh (Writer cs AtLoad)" "goroutine_ok sh Reader"
  "goroutine_ok sh (ReaderAllow A)" "goroutine_ok sh (ReaderDone A D)"
  by (simp_all add: goroutine_ok_def)

lemma goroutine_step_ok:
  assumes "goroutine_step sh g = Some (sh', g')"
    and "\<forall>t. fst (cell_of t sh) < sh_next sh"
  shows "(sh' = sh \<or> (\<exists>t m. sh' = publish t m sh)) \<and> goroutine_ok sh' g'"
proof (cases "(sh, g)" rule: goroutine_step.cases)
  case (2 sh0 c cs)
  moreover have "fst (cell_of (call_table c) sh) < sh_next sh" using assms(2) by blast
  ultimately show ?thesis using assms(1) by (auto simp: goroutine_ok_def split: option.splits)
next
  case (3 sh0 c cs current newMap)
  then show ?thesis using assms by (auto split: if_splits)
qed (use assms in auto)

lemma system_step_cases:
  assumes "system_step i s = Some s'"
  obtains sh' g' where "goroutine_step (shared s) (procs s i) = Some (sh', g')"
    and "s' = \<lparr>shared = sh', procs = (procs s)(i := g')\<rparr>"
  using assms by (auto simp: system_step_def)

lemma conc_inv_step:
  assumes "conc_inv s" "system_step i s = Some s'"
  shows "conc_inv s'"
proof -
  obtain sh' g' where gs: "goroutine_step (shared s) (procs s i) = Some (sh', g')"
    and s': "s' = \<lparr>shared = sh', procs = (procs s)(i := g')\<rparr>"
    using assms(2) by (rule system_step_cases)
  have fresh: "\<forall>t. fst (cell_of t (shared s)) < sh_next (shared s)"
    and ok: "\<And>j. goroutine_ok (shared s) (procs s j)"
    using assms(1) by (auto simp: conc_inv_def)
  from goroutine_step_ok [OF gs fresh] have g': "goroutine_ok sh' g'"
    and sh': "sh' = shared s \<or> (\<exists>t m. sh' = publish t m (shared s))" by auto
  have "goroutine_ok sh' (procs s j)" for j
    using sh' ok [of j] goroutine_ok_publish by auto
  moreover have "\<forall>t. fst (cell_of t sh') < sh_next sh'"
    using sh' fresh by (auto simp: cell_of_publish less_SucI)
  ultimately show ?thesis using g' by (simp add: conc_inv_def s')
qed

lemma conc_inv_reach: "reach s0 s \<Longrightarrow> conc_inv s0 \<Longrightarrow> conc_inv s"
  by (induction rule: reach.induct) (auto intro: conc_inv_step)

text \<open>
  The goroutines of a freshly started system over a store: writers at their first load, and
  readers.
\<close>

definition start_system :: "'r PolicyStore \<Rightarrow> (nat \<Rightarrow> 'r goroutine) \<Rightarrow> 'r system" where
  "start_system st gs =
     \<lparr>shared = \<lparr>sh_allow = (0, ps_allow st), sh_deny = (1, ps_deny st), sh_next = 2\<rparr>, procs = gs\<rparr>"

definition fresh_goroutine :: "'r goroutine \<Rightarrow> bool" where
  "fresh_goroutine g \<longleftrightarrow> g = Reader \<or> (\<exists>cs. g = Writer cs AtLoad)"

lemma conc_inv_start: "\<forall>i. fresh_goroutine (gs i) \<Longrightarrow> conc_inv (start_system st gs)"
proof -
  assume fr: "\<forall>i. fresh_goroutine (gs i)"
  have "goroutine_ok sh (gs i)" for sh i
    using fr [rule_format, of i] by (auto simp: fresh_goroutine_def)
  moreover have "\<forall>t. fst (cell_of t (shared (start_system st gs))) < sh_next (shared (start_system st gs))"
    by (rule allI, case_tac t) (simp_all add: start_system_def)
  ultimately show ?thesis by (simp add: conc_inv_def start_system_def)
qed

lemma abs_start [simp]: "abs_store (start_system st gs) = st"
  by (simp add: abs_store_def start_system_def)

lemma procs_start [simp]: "procs (start_system st gs) = gs"
  by (simp add: start_system_def)

subsection \<open>Linearizability\<close>

lemma system_step_linear:
  assumes "conc_inv s" "system_step i s = Some s'"
  shows "(abs_store s' = abs_store s \<and> (\<forall>j. remaining (procs s' j) = remaining (procs s j)))
    \<or> (\<exists>c cs. remaining (procs s i) = c # cs \<and> remaining (procs s' i) = cs
         \<and> (\<forall>j. j \<noteq> i \<longrightarrow> remaining (procs s' j) = remaining (procs s j))
         \<and> abs_store s' = apply_call c (abs_store s))"
proof -
  obtain sh' g' where gs: "goroutine_step (shared s) (procs s i) = Some (sh', g')"
    and s': "s' = \<lparr>shared = sh', procs = (procs s)(i := g')\<rparr>"
    using assms(2) by (rule system_step_cases)
  have "linear_step (shared s) (procs s i) sh' g'"
    using assms(1) gs by (auto simp: conc_inv_def intro: goroutine_step_linear)
  then show ?thesis by (auto simp: linear_step_def abs_store_view s')
qed

text \<open>
  C5: the retry loops are atomic.  In every state that any number of writers and readers can
  reach, a step of a goroutine either leaves both tables and all outstanding calls as they
  are, or completes exactly one call, the first outstanding one of the goroutine that moves,
  and changes the tables as that call does when it runs alone.  No update is lost or applied
  to an outdated map, whatever the interleaving.
\<close>

theorem cas_loops_linearizable:
  assumes "\<forall>j. fresh_goroutine (gs j)" "reach (start_system st gs) s" "system_step i s = Some s'"
  shows "(abs_store s' = abs_store s \<and> (\<forall>j. remaining (procs s' j) = remaining (procs s j)))
    \<or> (\<exists>c cs. remaining (procs s i) = c # cs \<and> remaining (procs s' i) = cs
         \<and> (\<forall>j. j \<noteq> i \<longrightarrow> remaining (procs s' j) = remaining (procs s j))
         \<and> abs_store s' = apply_call c (abs_store s))"
  by (rule system_step_linear [OF conc_inv_reach [OF assms(2) conc_inv_start [OF assms(1)]] assms(3)])

subsection \<open>One writer and any number of readers\<close>

definition update_list_calls :: "'r update list \<Rightarrow> 'r call list" where
  "update_list_calls us = concat (map update_calls us)"

lemma apply_update_calls:
  "apply_calls (update_calls u) st = run_updates UpsertPolicy DeletePolicy [u] st"
  by (cases u) (simp_all add: apply_upsert_calls apply_delete_calls del: upsert_calls.simps delete_calls.simps)

lemma apply_update_list_calls:
  "apply_calls (update_list_calls us) st = run_updates UpsertPolicy DeletePolicy us st"
proof (induction us arbitrary: st)
  case Nil
  then show ?case by (simp add: update_list_calls_def)
next
  case (Cons u us)
  have "apply_calls (update_list_calls (u # us)) st
      = apply_calls (update_list_calls us) (apply_calls (update_calls u) st)"
    by (simp add: update_list_calls_def)
  also have "\<dots> = run_updates UpsertPolicy DeletePolicy us (run_updates UpsertPolicy DeletePolicy [u] st)"
    by (simp only: apply_update_calls Cons.IH)
  finally show ?case by simp
qed

text \<open>The stores that the calls of the writer pass through.\<close>

definition hist :: "'r call list \<Rightarrow> 'r PolicyStore \<Rightarrow> nat \<Rightarrow> 'r PolicyStore" where
  "hist cs st n = apply_calls (take n cs) st"

lemma hist_0 [simp]: "hist cs st 0 = st"
  by (simp add: hist_def)

lemma hist_Suc: "drop n cs = c # rest \<Longrightarrow> hist cs st (Suc n) = apply_call c (hist cs st n)"
  by (simp add: hist_def take_Suc_conv_app_nth nth_via_drop)
     (metis drop_all list.distinct(1) not_le nth_via_drop take_Suc_conv_app_nth apply_calls_simps)

fun reader_ok :: "(nat \<Rightarrow> 'r PolicyStore) \<Rightarrow> nat \<Rightarrow> 'r goroutine \<Rightarrow> bool" where
  "reader_ok h n (ReaderAllow A) = (\<exists>m\<le>n. A = ps_allow (h m))"
| "reader_ok h n (ReaderDone A D) = (\<exists>m l. m \<le> l \<and> l \<le> n \<and> A = ps_allow (h m) \<and> D = ps_deny (h l))"
| "reader_ok h n (Writer cs pc) = True"
| "reader_ok h n Reader = True"

lemma reader_ok_mono: "reader_ok h n g \<Longrightarrow> n \<le> n' \<Longrightarrow> reader_ok h n' g"
  by (cases g) (auto intro: order_trans)

lemma reader_ok_step:
  assumes "goroutine_step sh g = Some (sh', g')" "view sh = h n" "reader_ok h n g"
  shows "reader_ok h n g'"
proof (cases g)
  case Reader
  then have "g' = ReaderAllow (ps_allow (h n))"
    using assms(1) assms(2) [symmetric] by (auto simp: view_def)
  then show ?thesis by auto
next
  case (ReaderAllow A)
  then have "g' = ReaderDone A (ps_deny (h n))"
    using assms(1) assms(2) [symmetric] by (auto simp: view_def)
  then show ?thesis using assms(3) ReaderAllow by auto
next
  case (Writer cs pc)
  then show ?thesis using assms(1)
    by (cases "(sh, g)" rule: goroutine_step.cases) (auto split: option.splits if_splits)
qed (use assms in auto)

definition one_writer :: "'r call list \<Rightarrow> 'r PolicyStore \<Rightarrow> nat \<Rightarrow> 'r system \<Rightarrow> bool" where
  "one_writer cs st i s \<longleftrightarrow> conc_inv s \<and> (\<forall>j. j \<noteq> i \<longrightarrow> remaining (procs s j) = [])
     \<and> (\<exists>n\<le>length cs. remaining (procs s i) = drop n cs \<and> abs_store s = hist cs st n
          \<and> (\<forall>j. reader_ok (hist cs st) n (procs s j)))"

lemma one_writer_step:
  assumes inv: "one_writer cs st i s" and step: "system_step k s = Some s'"
  shows "one_writer cs st i s'"
proof -
  obtain n where n: "n \<le> length cs" "remaining (procs s i) = drop n cs"
      "abs_store s = hist cs st n" "\<forall>j. reader_ok (hist cs st) n (procs s j)"
    and ci: "conc_inv s" and others: "\<forall>j. j \<noteq> i \<longrightarrow> remaining (procs s j) = []"
    using inv by (auto simp: one_writer_def)
  obtain sh' g' where gs: "goroutine_step (shared s) (procs s k) = Some (sh', g')"
    and s': "s' = \<lparr>shared = sh', procs = (procs s)(k := g')\<rparr>"
    using step by (rule system_step_cases)
  have "reader_ok (hist cs st) n g'"
    using gs n(3,4) by (intro reader_ok_step [OF gs]) (auto simp: abs_store_view)
  then have readers: "\<forall>j. reader_ok (hist cs st) n (procs s' j)" using n(4) by (simp add: s')
  have ci': "conc_inv s'" by (rule conc_inv_step [OF ci step])
  from system_step_linear [OF ci step] show ?thesis
  proof (elim disjE exE conjE)
    assume "abs_store s' = abs_store s" "\<forall>j. remaining (procs s' j) = remaining (procs s j)"
    then show ?thesis using n readers ci' others by (auto simp: one_writer_def)
  next
    fix c rest
    assume k: "remaining (procs s k) = c # rest" and k': "remaining (procs s' k) = rest"
      and oth: "\<forall>j. j \<noteq> k \<longrightarrow> remaining (procs s' j) = remaining (procs s j)"
      and abs': "abs_store s' = apply_call c (abs_store s)"
    have "k = i" using k others by (metis list.distinct(1))
    then have dr: "drop n cs = c # rest" using k n(2) by simp
    then have "Suc n \<le> length cs" by (metis drop_all list.distinct(1) not_less_eq_eq)
    moreover have "remaining (procs s' i) = drop (Suc n) cs"
      using k' dr \<open>k = i\<close> by (metis drop_Suc list.sel(3) tl_drop)
    moreover have "abs_store s' = hist cs st (Suc n)" using abs' n(3) hist_Suc [OF dr] by simp
    moreover have "\<forall>j. reader_ok (hist cs st) (Suc n) (procs s' j)"
      using readers reader_ok_mono by (metis lessI less_imp_le)
    ultimately show ?thesis using ci' oth others \<open>k = i\<close> by (auto simp: one_writer_def)
  qed
qed

lemma one_writer_reach:
  assumes "reach (start_system st gs) s" "gs i = Writer cs AtLoad" "\<forall>j. j \<noteq> i \<longrightarrow> gs j = Reader"
  shows "one_writer cs st i s"
  using assms(1)
proof (induction rule: reach.induct)
  case start
  have "\<forall>j. fresh_goroutine (gs j)" using assms(2,3) by (auto simp: fresh_goroutine_def)
  moreover have "reader_ok h n (gs j)" for h n j using assms(2,3) by (cases "j = i") auto
  ultimately show ?case using assms(2,3)
    by (auto simp: one_writer_def conc_inv_start intro!: exI [of _ 0])
next
  case (step s k s')
  then show ?case by (blast intro: one_writer_step)
qed

text \<open>
  With a single writer the concurrent store ends where the sequential one does.  When the
  goroutine that applies a list of updates has made all its calls, with any readers running in
  between, the tables are those of applying the updates one after another.
\<close>

theorem single_writer_sequential:
  assumes "gs i = Writer (update_list_calls us) AtLoad" "\<forall>j. j \<noteq> i \<longrightarrow> gs j = Reader"
    and "reach (start_system st gs) s" "remaining (procs s i) = []"
  shows "abs_store s = run_updates UpsertPolicy DeletePolicy us st"
proof -
  from one_writer_reach [OF assms(3,1,2)] assms(4)
  obtain n where "n \<le> length (update_list_calls us)" "drop n (update_list_calls us) = []"
    "abs_store s = hist (update_list_calls us) st n" by (auto simp: one_writer_def)
  then show ?thesis by (simp add: hist_def apply_update_list_calls)
qed

subsection \<open>What a concurrent reader can be granted\<close>

text \<open>The decision on a pair of tables, as the engine takes it from the listing of a reader.\<close>

definition tables_granted ::
  "'r regexp_lib \<Rightarrow> 'r PolicyMap \<Rightarrow> 'r PolicyMap \<Rightarrow> EvaluationRequest \<Rightarrow> bool" where
  "tables_granted rx A D req = granted rx (set (map snd A)) (set (map snd D)) req"

lemma tables_granted_CheckAccess:
  assumes "range_order oa" "range_order od"
  shows "\<exists>resp. CheckAccess rx (ListActivePolicies oa od) \<lparr>ps_allow = A, ps_deny = D\<rparr> req t = Inr resp
           \<and> (resp_Allowed resp \<longleftrightarrow> tables_granted rx A D req)"
  using CheckAccess_decision [of "ListActivePolicies oa od" "\<lparr>ps_allow = A, ps_deny = D\<rparr>" _ rx req t]
  by (simp add: ListActivePolicies_def tables_granted_def range_order_set [OF assms(1)]
      range_order_set [OF assms(2)])

abbreviation store_granted :: "'r regexp_lib \<Rightarrow> 'r PolicyStore \<Rightarrow> EvaluationRequest \<Rightarrow> bool" where
  "store_granted rx st req \<equiv> tables_granted rx (ps_allow st) (ps_deny st) req"

lemma gomap_ok_removeFrom [simp]: "gomap_ok m \<Longrightarrow> gomap_ok (removeFrom k m)"
  by (simp add: removeFrom_def removed_map_def gomap_ok_Keep)

lemma gomap_ok_inserted [simp]: "gomap_ok m \<Longrightarrow> gomap_ok (inserted_map p m)"
  by (simp add: inserted_map_def)

lemma removeFrom_absent [simp]: "gomap_get m k = None \<Longrightarrow> removeFrom k m = m"
  by (simp add: removeFrom_def)

text \<open>A larger allow table and a smaller deny table, as maps, can only grant more.\<close>

lemma tables_granted_mono:
  assumes "gomap_ok A" "gomap_ok A'" "gomap_ok D" "gomap_ok D'"
    and "gomap_get A \<subseteq>\<^sub>m gomap_get A'" "gomap_get D' \<subseteq>\<^sub>m gomap_get D"
    and "tables_granted rx A D req"
  shows "tables_granted rx A' D' req"
  unfolding tables_granted_def
proof (rule granted_mono)
  have "ran m \<subseteq> ran m'" if "m \<subseteq>\<^sub>m m'" for m m' :: "string \<Rightarrow> 'a policy option"
    using that by (fastforce simp: map_le_def ran_def dom_def)
  then show "set (map snd A) \<subseteq> set (map snd A')" "set (map snd D') \<subseteq> set (map snd D)"
    by (simp_all only: gomap_values assms(1-6))
qed (use assms(7) in \<open>simp only: tables_granted_def\<close>)

lemma granted_less_allow:
  assumes "store_inv st" "tables_granted rx (removeFrom k (ps_allow st)) (ps_deny st) req"
  shows "store_granted rx st req"
  by (rule tables_granted_mono [OF _ _ _ _ _ _ assms(2)])
     (auto simp: assms(1) map_le_def split: if_splits)

text \<open>
  A reader that loaded the allow table before an update and the deny table after it: each case
  of the update compares its pair of tables with the store before and the store after.
\<close>

lemma mixed_upsert_allow:
  assumes inv: "store_inv st" and acc: "pol_Access p = AccessAllow"
    and gr: "tables_granted rx (ps_allow st) (removeFrom (pol_ID p) (ps_deny st)) req"
  shows "store_granted rx st req \<or> store_granted rx (UpsertPolicy p st) req"
proof (cases "gomap_get (ps_deny st) (pol_ID p)")
  case None
  then show ?thesis using gr by simp
next
  case (Some q)
  then have "gomap_get (ps_allow st) (pol_ID p) = None" by (rule store_inv_disjoint [OF inv])
  then have "store_granted rx (UpsertPolicy p st) req"
    by (intro tables_granted_mono [OF _ _ _ _ _ _ gr])
       (auto simp: inv acc UpsertPolicy_tables map_le_def dom_def)
  then show ?thesis ..
qed

lemma mixed_upsert_deny:
  assumes inv: "store_inv st" and acc: "pol_Access p \<noteq> AccessAllow"
    and gr: "tables_granted rx (ps_allow st) (inserted_map p (ps_deny st)) req"
  shows "store_granted rx st req \<or> store_granted rx (UpsertPolicy p st) req"
proof (cases "gomap_get (ps_deny st) (pol_ID p)")
  case None
  have "store_granted rx st req"
    by (rule tables_granted_mono [OF _ _ _ _ _ _ gr]) (auto simp: inv None map_le_def dom_def)
  then show ?thesis ..
next
  case (Some q)
  then have "gomap_get (ps_allow st) (pol_ID p) = None" by (rule store_inv_disjoint [OF inv])
  then show ?thesis using acc gr by (simp add: UpsertPolicy_tables)
qed

lemma mixed_delete:
  assumes inv: "store_inv st"
    and gr: "tables_granted rx (ps_allow st) (removeFrom k (ps_deny st)) req"
  shows "store_granted rx st req \<or> store_granted rx (DeletePolicy k st) req"
proof (cases "gomap_get (ps_deny st) k")
  case None
  then show ?thesis using gr by simp
next
  case (Some q)
  then have "gomap_get (ps_allow st) k = None" by (rule store_inv_disjoint [OF inv])
  then show ?thesis using gr by (simp add: DeletePolicy_tables)
qed

lemma nat_pairs_2: "m \<le> l \<Longrightarrow> l \<le> (2::nat) \<Longrightarrow>
    (m, l) \<in> {(0, 0), (0, 1), (0, 2), (1, 1), (1, 2), (2, 2)}"
  by auto

lemma update_snapshot_safe:
  assumes inv: "store_inv st" and ml: "m \<le> l" "l \<le> 2"
    and gr: "tables_granted rx (ps_allow (hist (update_calls u) st m))
               (ps_deny (hist (update_calls u) st l)) req"
  shows "store_granted rx st req
       \<or> store_granted rx (run_updates UpsertPolicy DeletePolicy [u] st) req"
proof (cases u)
  case (Upsert p)
  show ?thesis
  proof (cases "pol_Access p = AccessAllow")
    case True
    then show ?thesis
      using nat_pairs_2 [OF ml] gr inv mixed_upsert_allow [OF inv True, of rx req]
      by (auto simp: Upsert hist_def UpsertPolicy_tables upsertInto_def)
  next
    case False
    then show ?thesis
      using nat_pairs_2 [OF ml] gr inv mixed_upsert_deny [OF inv False, of rx req]
      by (auto simp: Upsert hist_def UpsertPolicy_tables upsertInto_def dest: granted_less_allow [OF inv])
  qed
next
  case (Delete k)
  then show ?thesis
    using nat_pairs_2 [OF ml] gr inv mixed_delete [OF inv, of rx k req]
    by (auto simp: hist_def DeletePolicy_tables dest: granted_less_allow [OF inv])
qed

text \<open>
  One update is fail-safe for every reader.  While a single goroutine applies one upsert or
  one deletion, whatever point each of its two compare-and-swaps is at when a reader loads each
  pointer, the tables that the reader has put together grant a request only if the store
  before the update or the store after it grants it.  A change of access mode can deny
  transiently, it cannot grant transiently.
\<close>

theorem single_update_fail_safe:
  assumes "store_inv st" "gs i = Writer (update_calls u) AtLoad" "\<forall>j. j \<noteq> i \<longrightarrow> gs j = Reader"
    and "reach (start_system st gs) s" "procs s j = ReaderDone A D" "tables_granted rx A D req"
  shows "store_granted rx st req
       \<or> store_granted rx (run_updates UpsertPolicy DeletePolicy [u] st) req"
proof -
  have len: "length (update_calls u) = 2" by (cases u) simp_all
  from one_writer_reach [OF assms(4,2,3)]
  obtain n where n: "n \<le> 2" "\<forall>j. reader_ok (hist (update_calls u) st) n (procs s j)"
    by (auto simp: one_writer_def len)
  from n(2) [rule_format, of j] assms(5) obtain m l where "m \<le> l" "l \<le> n"
      "A = ps_allow (hist (update_calls u) st m)" "D = ps_deny (hist (update_calls u) st l)"
    by auto
  then show ?thesis
    using update_snapshot_safe [OF assms(1), of m l rx u req] n(1) assms(6) by simp
qed

subsection \<open>Two updates are not one step for a reader\<close>

text \<open>
  An allow policy \<open>y\<close> and a deny policy \<open>x\<close> for the same requests; the writer removes \<open>y\<close> and
  then \<open>x\<close>, so no store on the way grants such a request.
\<close>

definition torn_store :: "'r PolicyStore" where
  "torn_store =
     \<lparr>ps_allow = [(''y'', role_policy ''y'' AccessAllow ''admin'')],
      ps_deny = [(''x'', role_policy ''x'' AccessDeny ''admin'')]\<rparr>"

definition torn_updates :: "'r update list" where
  "torn_updates = [Delete ''y'', Delete ''x'']"

definition writer_and_readers :: "'r update list \<Rightarrow> nat \<Rightarrow> 'r goroutine" where
  "writer_and_readers us j = (if j = 0 then Writer (update_list_calls us) AtLoad else Reader)"

text \<open>The reader loads the allow pointer, the writer runs, the reader loads the deny pointer.\<close>

definition torn_run :: "'r system" where
  "torn_run = run_schedule [1, 0, 0, 0, 0, 0, 0, 1]
     (start_system torn_store (writer_and_readers torn_updates))"

lemma torn_run_reader:
  "procs torn_run 1 = ReaderDone [(''y'', role_policy ''y'' AccessAllow ''admin'')] []"
  by (simp add: torn_run_def system_step_def start_system_def writer_and_readers_def
      torn_updates_def update_list_calls_def torn_store_def removed_map_def maps_Keep_def
      gomap_put_def)

lemma torn_hist:
  "\<not> store_granted rx (hist (update_list_calls torn_updates) torn_store n) (sample_request ''admin'')"
proof -
  consider "n = 0" | "n = 1" | "n = 2" | "n = 3" | "n \<ge> 4" by linarith
  then show ?thesis
    by cases (auto simp: hist_def torn_updates_def update_list_calls_def torn_store_def
        removeFrom_def removed_map_def maps_Keep_def gomap_put_def tables_granted_def granted_def
        numeral_eq_Suc)
qed

text \<open>
  A listing is not an instant of the store.  The two pointers are loaded one after the
  other, and a reader that overlaps two updates can combine an allow table that is too old
  with a deny table that is too new: here it grants a request that the store grants at no
  moment, neither before, between nor after the calls of the two deletions.
\<close>

theorem torn_listing_grants:
  "\<exists>s A D. reach (start_system torn_store (writer_and_readers torn_updates)) s
     \<and> procs s 1 = ReaderDone A D
     \<and> tables_granted literal_regexp A D (sample_request ''admin'')
     \<and> (\<forall>n. \<not> store_granted literal_regexp
               (hist (update_list_calls torn_updates) torn_store n) (sample_request ''admin''))"
proof (intro exI conjI)
  show "reach (start_system torn_store (writer_and_readers torn_updates))
          (torn_run :: string system)"
    unfolding torn_run_def by (rule reach_schedule)
  show "procs torn_run 1 = ReaderDone [(''y'', role_policy ''y'' AccessAllow ''admin'')] []"
    by (rule torn_run_reader)
  show "tables_granted literal_regexp [(''y'', role_policy ''y'' AccessAllow ''admin'')] []
          (sample_request ''admin'')"
    by (simp add: tables_granted_def granted_def)
  show "\<forall>n. \<not> store_granted literal_regexp
          (hist (update_list_calls torn_updates) torn_store n) (sample_request ''admin'')"
    using torn_hist by blast
qed

subsection \<open>Access modes under any number of writers\<close>

definition call_ok :: "'r call \<Rightarrow> bool" where
  "call_ok c = (case c of
     RemoveFrom t k \<Rightarrow> True
   | UpsertInto t p \<Rightarrow> (t = TAllow) = (pol_Access p = AccessAllow))"

definition modes_ok :: "'r PolicyStore \<Rightarrow> bool" where
  "modes_ok st \<longleftrightarrow> allow_ok (ps_allow st) \<and> deny_ok (ps_deny st)"

lemma modes_ok_call: "modes_ok st \<Longrightarrow> call_ok c \<Longrightarrow> modes_ok (apply_call c st)"
  by (cases "(c, st)" rule: apply_call.cases) (auto simp: modes_ok_def call_ok_def upsertInto_def)

lemma update_call_ok: "c \<in> set (update_calls u) \<Longrightarrow> call_ok c"
  by (cases u) (auto simp: call_ok_def split: if_splits)

lemma update_calls_ok: "c \<in> set (update_list_calls us) \<Longrightarrow> call_ok c"
  by (auto simp: update_list_calls_def update_call_ok)

fun goroutine_modes :: "'r goroutine \<Rightarrow> bool" where
  "goroutine_modes (Writer cs pc) = (\<forall>c \<in> set cs. call_ok c)"
| "goroutine_modes Reader = True"
| "goroutine_modes (ReaderAllow A) = allow_ok A"
| "goroutine_modes (ReaderDone A D) = (allow_ok A \<and> deny_ok D)"

lemma goroutine_modes_step:
  assumes "goroutine_step sh g = Some (sh', g')" "modes_ok (view sh)" "goroutine_modes g"
  shows "goroutine_modes g'"
  using assms
  by (cases "(sh, g)" rule: goroutine_step.cases)
     (auto simp: modes_ok_def view_def split: option.splits if_splits)

definition modes_inv :: "'r system \<Rightarrow> bool" where
  "modes_inv s \<longleftrightarrow> conc_inv s \<and> modes_ok (abs_store s) \<and> (\<forall>j. goroutine_modes (procs s j))"

lemma modes_inv_step:
  assumes inv: "modes_inv s" and step: "system_step i s = Some s'"
  shows "modes_inv s'"
proof -
  have ci: "conc_inv s" and mo: "modes_ok (abs_store s)" and gm: "\<And>j. goroutine_modes (procs s j)"
    using inv by (auto simp: modes_inv_def)
  obtain sh' g' where gs: "goroutine_step (shared s) (procs s i) = Some (sh', g')"
    and s': "s' = \<lparr>shared = sh', procs = (procs s)(i := g')\<rparr>"
    using step by (rule system_step_cases)
  have "goroutine_modes g'"
    using goroutine_modes_step [OF gs _ gm] mo by (simp add: abs_store_view)
  moreover have "modes_ok (abs_store s')"
    using system_step_linear [OF ci step]
  proof (elim disjE exE conjE)
    fix c cs
    assume rem: "remaining (procs s i) = c # cs" and ab: "abs_store s' = apply_call c (abs_store s)"
    have "call_ok c" using gm [of i] rem by (cases "procs s i") auto
    then show ?thesis using modes_ok_call [OF mo] ab by simp
  qed (simp add: mo)
  ultimately show ?thesis using conc_inv_step [OF ci step] gm by (simp add: modes_inv_def s')
qed

text \<open>
  An unrecognised access mode can never grant access, under any number of concurrent
  writers and readers.  In every reachable state the allow table holds only policies whose
  mode is exactly ALLOW and the deny table none of them, each under its own identifier, and
  so do the tables that every reader has loaded.
\<close>

theorem concurrent_access_modes:
  assumes "store_inv st"
    and "\<forall>j. gs j = Reader \<or> (\<exists>us. gs j = Writer (update_list_calls us) AtLoad)"
    and "reach (start_system st gs) s"
  shows "modes_ok (abs_store s) \<and> (\<forall>j A D. procs s j = ReaderDone A D \<longrightarrow> allow_ok A \<and> deny_ok D)"
proof -
  have "\<forall>j. fresh_goroutine (gs j)" using assms(2) by (auto simp: fresh_goroutine_def)
  moreover have "goroutine_modes (gs j)" for j
    using assms(2) [rule_format, of j] update_calls_ok by auto
  ultimately have "modes_inv (start_system st gs)"
    using assms(1) by (simp add: modes_inv_def conc_inv_start modes_ok_def store_inv_def)
  with assms(3) have "modes_inv s"
    by (induction rule: reach.induct) (auto intro: modes_inv_step)
  then show ?thesis by (metis goroutine_modes.simps(4) modes_inv_def)
qed

subsection \<open>Progress\<close>

lemma system_step_None: "remaining (procs s i) = [] \<Longrightarrow> procs s i = Writer cs pc \<Longrightarrow> system_step i s = None"
  by (simp add: system_step_def)

lemma run_idle: "system_step i s = None \<Longrightarrow> run_schedule (replicate n i) s = s"
  by (induction n) auto

definition alone :: "nat \<Rightarrow> nat \<Rightarrow> 'r system \<Rightarrow> 'r system" where
  "alone n i s = run_schedule (replicate n i) s"

lemma alone_Suc: "alone (Suc n) i s = alone n i (case system_step i s of None \<Rightarrow> s | Some s' \<Rightarrow> s')"
  by (simp add: alone_def)

text \<open>A writer at its first load, running alone, needs at most two steps for each call.\<close>

lemma alone_AtLoad:
  "procs s i = Writer cs AtLoad \<Longrightarrow> 2 * length cs \<le> n \<Longrightarrow>
     procs (alone n i s) i = Writer [] AtLoad \<and> abs_store (alone n i s) = apply_calls cs (abs_store s)"
proof (induction cs arbitrary: n s)
  case Nil
  then show ?case by (simp add: alone_def run_idle system_step_def)
next
  case (Cons c cs)
  let ?cell = "cell_of (call_table c) (shared s)"
  obtain n' where n: "n = Suc (Suc n')" "2 * length cs \<le> n'"
    using Cons.prems(2) by (cases n; cases "n - 1") auto
  show ?case
  proof (cases "loop_body c (snd ?cell)")
    case None
    let ?s1 = "s\<lparr>procs := (procs s)(i := Writer cs AtLoad)\<rparr>"
    have st: "system_step i s = Some ?s1" using Cons.prems(1) None by (simp add: system_step_def)
    have "abs_store ?s1 = apply_call c (abs_store s)"
      using view_skip [OF None] by (simp add: abs_store_view)
    then show ?thesis
      using Cons.IH [of ?s1 "Suc n'"] n st by (simp add: alone_Suc [of "Suc n'" i s])
  next
    case (Some m)
    let ?s1 = "s\<lparr>procs := (procs s)(i := Writer (c # cs) (AtCAS ?cell m))\<rparr>"
    let ?s2 = "s\<lparr>shared := publish (call_table c) m (shared s), procs := (procs s)(i := Writer cs AtLoad)\<rparr>"
    have "system_step i s = Some ?s1" using Cons.prems(1) Some by (simp add: system_step_def)
    moreover have "system_step i ?s1 = Some ?s2" by (simp add: system_step_def)
    ultimately have al: "alone n i s = alone n' i ?s2" using n by (simp add: alone_Suc)
    have "abs_store ?s2 = apply_call c (abs_store s)"
      using view_publish [OF Some] by (simp add: abs_store_view)
    then show ?thesis using Cons.IH [of ?s2 n'] n al by simp
  qed
qed

lemma alone_any:
  assumes "conc_inv s" "procs s i = Writer cs pc"
  shows "remaining (procs (alone (2 * length cs + 1) i s) i) = []
       \<and> abs_store (alone (2 * length cs + 1) i s) = apply_calls cs (abs_store s)"
proof (cases pc)
  case AtLoad
  then show ?thesis using alone_AtLoad [of s i cs "2 * length cs + 1"] assms(2) by simp
next
  case (AtCAS current m)
  show ?thesis
  proof (cases cs)
    case Nil
    then have "system_step i s = None" using assms(2) by (simp add: system_step_def)
    then show ?thesis using Nil assms(2) by (simp add: alone_def run_idle)
  next
    case (Cons c rest)
    obtain s' where st: "system_step i s = Some s'" and pr: "\<exists>ds. procs s' i = Writer ds AtLoad"
      using assms(2) AtCAS Cons
      by (cases "fst (cell_of (call_table c) (shared s)) = fst current") (auto simp: system_step_def)
    then obtain ds where ds: "procs s' i = Writer ds AtLoad" by blast
    have eq: "apply_calls ds (abs_store s') = apply_calls cs (abs_store s)"
      using system_step_linear [OF assms(1) st] ds assms(2)
      by (elim disjE exE conjE) (auto dest: spec [of _ i])
    have "length ds \<le> length cs"
      using system_step_linear [OF assms(1) st] ds assms(2)
      by (elim disjE exE conjE) (auto dest: spec [of _ i])
    then show ?thesis
      using alone_AtLoad [OF ds, of "2 * length cs"] eq st by (simp add: alone_Suc)
  qed
qed

text \<open>
  The retry loops terminate without interference.  From every reachable state, whatever
  the other goroutines have done and wherever its own loop stands, a writer that then runs
  alone finishes all its outstanding calls within two steps each and one more (a last failed
  compare-and-swap), and the tables are those of making these calls in order.
\<close>

theorem cas_loops_terminate_alone:
  assumes "\<forall>j. fresh_goroutine (gs j)" "reach (start_system st gs) s" "procs s i = Writer cs pc"
  shows "remaining (procs (run_schedule (replicate (2 * length cs + 1) i) s) i) = []
       \<and> abs_store (run_schedule (replicate (2 * length cs + 1) i) s) = apply_calls cs (abs_store s)"
  using alone_any [OF conc_inv_reach [OF assms(2) conc_inv_start [OF assms(1)]] assms(3)]
  by (simp add: alone_def)

subsection \<open>The documented race of two writers\<close>

definition two_writers :: "nat \<Rightarrow> 'r goroutine" where
  "two_writers j =
     (if j = 0 then Writer (update_list_calls [Upsert (role_policy ''p'' AccessAllow ''admin'')]) AtLoad
      else if j = 1 then Writer (update_list_calls [Upsert (role_policy ''p'' AccessDeny ''admin'')]) AtLoad
      else Reader)"

definition race_run :: "'r system" where
  "race_run = run_schedule [0, 1, 0, 0, 1, 1] (start_system NewPolicyStore two_writers)"

text \<open>
  Two goroutines that upsert the same identifier with conflicting modes can leave it in
  both tables, as the comment on \<open>UpsertPolicy\<close> says; a decision on the result is a denial.
\<close>

theorem conflicting_upserts:
  "\<exists>s. reach (start_system NewPolicyStore two_writers) s
     \<and> (\<forall>j. remaining (procs s j) = [])
     \<and> gomap_has (ps_allow (abs_store s)) ''p'' \<and> gomap_has (ps_deny (abs_store s)) ''p''
     \<and> \<not> store_granted literal_regexp (abs_store s) (sample_request ''admin'')"
proof (intro exI conjI)
  show "reach (start_system NewPolicyStore two_writers) (race_run :: string system)"
    unfolding race_run_def by (rule reach_schedule)
  note eval = race_run_def system_step_def start_system_def two_writers_def update_list_calls_def
    NewPolicyStore_def inserted_map_def maps_Copy_def gomap_put_def abs_store_def
  show "\<forall>j. remaining (procs (race_run :: string system) j) = []" by (simp add: eval)
  show "gomap_has (ps_allow (abs_store (race_run :: string system))) ''p''" by (simp add: eval)
  show "gomap_has (ps_deny (abs_store (race_run :: string system))) ''p''" by (simp add: eval)
  show "\<not> store_granted literal_regexp (abs_store race_run) (sample_request ''admin'')"
    by (simp add: eval tables_granted_def granted_def)
qed

subsection \<open>Witnesses\<close>

definition one_policy_store :: "'r PolicyStore" where
  "one_policy_store = \<lparr>ps_allow = [(''y'', role_policy ''y'' AccessAllow ''admin'')], ps_deny = []\<rparr>"

lemma one_policy_store_inv: "store_inv one_policy_store"
  by (simp add: store_inv_def one_policy_store_def table_ok_def gomap_ok_def)

lemma writer_and_readers_fresh: "\<forall>j. fresh_goroutine (writer_and_readers us j)"
  by (simp add: writer_and_readers_def fresh_goroutine_def)

lemma writer_0 [simp]: "writer_and_readers us 0 = Writer (update_list_calls us) AtLoad"
  by (simp add: writer_and_readers_def)

lemma writer_and_readers_shape:
  "\<forall>j. writer_and_readers us j = Reader \<or> (\<exists>us'. writer_and_readers us j = Writer (update_list_calls us') AtLoad)"
  by (auto simp: writer_and_readers_def)

text \<open>The reader loads the allow pointer, the writer deletes the policy, the reader ends.\<close>

definition delete_run :: "string system" where
  "delete_run = run_schedule [1, 0, 0, 0, 1]
     (start_system one_policy_store (writer_and_readers [Delete ''y'']))"

lemmas run_eval = system_step_def start_system_def writer_and_readers_def update_list_calls_def
  one_policy_store_def removed_map_def maps_Keep_def gomap_put_def

lemma delete_run_reach:
  "reach (start_system one_policy_store (writer_and_readers [Delete ''y''])) delete_run"
  unfolding delete_run_def by (rule reach_schedule)

lemma delete_run_state:
  "procs delete_run 1 = ReaderDone [(''y'', role_policy ''y'' AccessAllow ''admin'')] []"
  "procs delete_run 0 = Writer [] AtLoad" "abs_store delete_run = \<lparr>ps_allow = [], ps_deny = []\<rparr>"
  by (simp_all add: delete_run_def run_eval abs_store_def)

theorem single_update_fail_safe_witness:
  "store_granted literal_regexp one_policy_store (sample_request ''admin'')
   \<or> store_granted literal_regexp
       (run_updates UpsertPolicy DeletePolicy [Delete ''y''] one_policy_store) (sample_request ''admin'')"
  by (rule single_update_fail_safe [OF one_policy_store_inv _ _ delete_run_reach delete_run_state(1)])
     (auto simp: writer_and_readers_def update_list_calls_def tables_granted_def granted_def)

theorem single_writer_sequential_witness:
  "abs_store delete_run = run_updates UpsertPolicy DeletePolicy [Delete ''y''] one_policy_store
   \<and> abs_store delete_run = \<lparr>ps_allow = [], ps_deny = []\<rparr>"
  using single_writer_sequential [OF _ _ delete_run_reach, of 0 "[Delete ''y'']"] delete_run_state
  by (simp add: writer_and_readers_def)

theorem concurrent_access_modes_witness:
  "modes_ok (abs_store delete_run) \<and> allow_ok [(''y'', role_policy ''y'' AccessAllow ''admin'' :: string policy)]"
  using concurrent_access_modes [OF one_policy_store_inv writer_and_readers_shape delete_run_reach]
    delete_run_state(1) by blast

theorem cas_loops_linearizable_witness:
  "\<exists>s'. system_step 0 (start_system one_policy_store (writer_and_readers [Delete ''y''])) = Some s'
     \<and> abs_store s' = (one_policy_store :: string PolicyStore)"
proof -
  let ?s = "start_system one_policy_store (writer_and_readers [Delete ''y'']) :: string system"
  obtain s' where s': "system_step 0 ?s = Some s'"
      "remaining (procs s' 0) = [RemoveFrom TAllow ''y'', RemoveFrom TDeny ''y'']"
    by (simp add: run_eval)
  from cas_loops_linearizable [OF writer_and_readers_fresh reach.start s'(1)] s' show ?thesis
    by (auto simp: writer_and_readers_def update_list_calls_def)
qed

theorem cas_loops_terminate_alone_witness:
  "abs_store (run_schedule (replicate 5 0)
      (start_system one_policy_store (writer_and_readers [Delete ''y''])))
     = apply_calls (delete_calls ''y'') (one_policy_store :: string PolicyStore)"
  using cas_loops_terminate_alone [OF writer_and_readers_fresh reach.start,
      of "one_policy_store :: string PolicyStore" "[Delete ''y'']" 0 "delete_calls ''y''" AtLoad]
  by (simp add: update_list_calls_def del: apply_calls_simps)

end
