(* ===== verification/Store_Writers.thy ===== *)
theory Store_Writers
  imports Store_Concurrent
begin

text \<open>
  Any number of writers of the concurrent store that are about different policies: whatever the
  scheduler does, each leaves its policies as if it had been alone.  The test of the repository
  with fifty writers and a hundred policies each is one instance.
\<close>

subsection \<open>What one call does to the entries of one identifier\<close>

fun call_key :: "'r call \<Rightarrow> string" where
  "call_key (RemoveFrom t k) = k"
| "call_key (UpsertInto t p) = pol_ID p"

text \<open>The entries of an identifier in the two tables.\<close>

definition slot :: "'r PolicyStore \<Rightarrow> string \<Rightarrow> 'r policy option \<times> 'r policy option" where
  "slot st k = (gomap_get (ps_allow st) k, gomap_get (ps_deny st) k)"

definition tables_ok :: "'r PolicyStore \<Rightarrow> bool" where
  "tables_ok st \<longleftrightarrow> gomap_ok (ps_allow st) \<and> gomap_ok (ps_deny st)"

lemma tables_ok_call: "tables_ok st \<Longrightarrow> tables_ok (apply_call c st)"
  by (cases "(c, st)" rule: apply_call.cases) (auto simp: tables_ok_def upsertInto_def)

lemma slot_other_call: "tables_ok st \<Longrightarrow> call_key c \<noteq> k \<Longrightarrow> slot (apply_call c st) k = slot st k"
  by (cases "(c, st)" rule: apply_call.cases) (auto simp: slot_def tables_ok_def upsertInto_def)

lemma slot_call:
  "tables_ok st \<Longrightarrow> tables_ok st' \<Longrightarrow> slot st k = slot st' k \<Longrightarrow>
     slot (apply_call c st) k = slot (apply_call c st') k"
  by (cases "(c, st)" rule: apply_call.cases) (auto simp: slot_def tables_ok_def upsertInto_def)

lemma tables_ok_calls: "tables_ok st \<Longrightarrow> tables_ok (apply_calls cs st)"
  by (induction cs arbitrary: st) (simp_all add: tables_ok_call)

lemma update_call_key: "c \<in> set (update_calls u) \<Longrightarrow> call_key c = update_key u"
  by (cases u) (auto split: if_splits)

lemma update_calls_key: "c \<in> set (update_list_calls us) \<Longrightarrow> call_key c \<in> update_key ` set us"
  using update_call_key by (fastforce simp: update_list_calls_def)

subsection \<open>Writers of different policies\<close>

text \<open>
  Every goroutine has made some of its calls, and the entries of the identifiers it is about are
  as those calls alone would have left them; the other entries have not changed.
\<close>

definition writers_inv :: "(nat \<Rightarrow> 'r update list) \<Rightarrow> 'r PolicyStore \<Rightarrow> 'r system \<Rightarrow> bool" where
  "writers_inv us st s \<longleftrightarrow> tables_ok (abs_store s)
     \<and> (\<forall>i. \<exists>cs. update_list_calls (us i) = cs @ remaining (procs s i)
          \<and> (\<forall>k \<in> update_key ` set (us i). slot (abs_store s) k = slot (apply_calls cs st) k))
     \<and> (\<forall>k. (\<forall>i. k \<notin> update_key ` set (us i)) \<longrightarrow> slot (abs_store s) k = slot st k)"

lemma writers_inv_call:
  assumes "writers_inv us st s" "tables_ok st"
    and "\<forall>i j. i \<noteq> j \<longrightarrow> update_key ` set (us i) \<inter> update_key ` set (us j) = {}"
    and "remaining (procs s i) = c # cs" "remaining (procs s' i) = cs"
    and "\<forall>j. j \<noteq> i \<longrightarrow> remaining (procs s' j) = remaining (procs s j)" "abs_store s' = apply_call c (abs_store s)"
  shows "writers_inv us st s'"
proof -
  have ok: "tables_ok (abs_store s)" using assms(1) by (simp add: writers_inv_def)
  obtain ds where ds: "update_list_calls (us i) = ds @ c # cs"
      "\<forall>k \<in> update_key ` set (us i). slot (abs_store s) k = slot (apply_calls ds st) k"
    using assms(1,4) unfolding writers_inv_def by metis
  have "call_key c \<in> update_key ` set (us i)" by (rule update_calls_key) (simp add: ds(1))
  then have other: "slot (abs_store s') k = slot (abs_store s) k" if "k \<notin> update_key ` set (us i)" for k
    using slot_other_call [OF ok, of c k] that assms(7) by auto
  have own: "slot (abs_store s') k = slot (apply_calls (ds @ [c]) st) k" if "k \<in> update_key ` set (us i)" for k
    using slot_call [OF ok tables_ok_calls [OF assms(2), of ds], of k c] ds(2) that assms(7) by simp
  have "\<exists>es. update_list_calls (us j) = es @ remaining (procs s' j)
      \<and> (\<forall>k \<in> update_key ` set (us j). slot (abs_store s') k = slot (apply_calls es st) k)" for j
  proof (cases "j = i")
    case True
    then show ?thesis using ds(1) own assms(5) by (intro exI [of _ "ds @ [c]"]) simp
  next
    case False
    then have "k \<notin> update_key ` set (us i)" if "k \<in> update_key ` set (us j)" for k
      using assms(3) that by blast
    with other assms(1,6) False show ?thesis unfolding writers_inv_def by metis
  qed
  moreover have "slot (abs_store s') k = slot st k" if "\<forall>j. k \<notin> update_key ` set (us j)" for k
    using other assms(1) that by (simp add: writers_inv_def)
  ultimately show ?thesis using tables_ok_call [OF ok, of c] assms(7) by (simp add: writers_inv_def)
qed

lemma writers_inv_reach:
  assumes "reach (start_system st gs) s" "\<forall>i. fresh_goroutine (gs i)" "tables_ok st"
    and "\<forall>i. remaining (gs i) = update_list_calls (us i)"
    and "\<forall>i j. i \<noteq> j \<longrightarrow> update_key ` set (us i) \<inter> update_key ` set (us j) = {}"
  shows "writers_inv us st s"
  using assms(1)
proof (induction rule: reach.induct)
  case start
  show ?case using assms(3,4) by (auto simp: writers_inv_def)
next
  case (step s i s')
  from system_step_linear [OF conc_inv_reach [OF step.hyps(1) conc_inv_start [OF assms(2)]] step.hyps(2)]
  show ?case
  proof
    assume "abs_store s' = abs_store s \<and> (\<forall>j. remaining (procs s' j) = remaining (procs s j))"
    then show ?thesis using step.IH by (simp add: writers_inv_def)
  next
    assume "\<exists>c cs. remaining (procs s i) = c # cs \<and> remaining (procs s' i) = cs
      \<and> (\<forall>j. j \<noteq> i \<longrightarrow> remaining (procs s' j) = remaining (procs s j))
      \<and> abs_store s' = apply_call c (abs_store s)"
    then show ?thesis using writers_inv_call [OF step.IH assms(3,5)] by blast
  qed
qed

text \<open>
  C9: concurrent writers of different policies lose nothing.  Any number of goroutines update
  the store at the same time, with any readers, and no two of them update the same identifier.
  When all their calls are made, the entries of both tables under the identifiers of a writer
  are those that its updates leave when they run alone and one after the other, and the entries
  under all other identifiers are the old ones.
\<close>

theorem writers_independent:
  assumes "\<forall>i. gs i = Writer (update_list_calls (us i)) AtLoad \<or> gs i = Reader \<and> us i = []"
    and "\<forall>i j. i \<noteq> j \<longrightarrow> update_key ` set (us i) \<inter> update_key ` set (us j) = {}"
    and "store_inv st" "reach (start_system st gs) s" "\<forall>i. remaining (procs s i) = []"
  shows "(\<forall>i. \<forall>k \<in> update_key ` set (us i).
        gomap_get (ps_allow (abs_store s)) k = gomap_get (ps_allow (run_updates UpsertPolicy DeletePolicy (us i) st)) k
      \<and> gomap_get (ps_deny (abs_store s)) k = gomap_get (ps_deny (run_updates UpsertPolicy DeletePolicy (us i) st)) k)
    \<and> (\<forall>k. (\<forall>i. k \<notin> update_key ` set (us i)) \<longrightarrow>
        gomap_get (ps_allow (abs_store s)) k = gomap_get (ps_allow st) k
      \<and> gomap_get (ps_deny (abs_store s)) k = gomap_get (ps_deny st) k)"
proof -
  have calls: "fresh_goroutine (gs i) \<and> remaining (gs i) = update_list_calls (us i)" for i
    using spec [OF assms(1), of i]
    by (elim disjE) (simp_all add: fresh_goroutine_def update_list_calls_def)
  have "tables_ok st"
    using assms(3) unfolding tables_ok_def store_inv_def table_ok_def by blast
  with calls have inv: "writers_inv us st s" by (intro writers_inv_reach [OF assms(4) _ _ _ assms(2)]) simp_all
  have "slot (abs_store s) k = slot (run_updates UpsertPolicy DeletePolicy (us i) st) k"
    if "k \<in> update_key ` set (us i)" for i k
  proof -
    have "\<exists>cs. update_list_calls (us i) = cs @ remaining (procs s i)
        \<and> (\<forall>k \<in> update_key ` set (us i). slot (abs_store s) k = slot (apply_calls cs st) k)"
      using inv unfolding writers_inv_def by (elim conjE) (erule spec)
    then obtain cs where cs: "update_list_calls (us i) = cs @ remaining (procs s i)"
        "\<forall>k \<in> update_key ` set (us i). slot (abs_store s) k = slot (apply_calls cs st) k"
      by (elim exE conjE)
    have "remaining (procs s i) = []" using assms(5) by (rule spec)
    then have "update_list_calls (us i) = cs" using cs(1) by simp
    then show ?thesis using bspec [OF cs(2) that] apply_update_list_calls [of "us i" st] by simp
  qed
  moreover have "slot (abs_store s) k = slot st k" if "\<forall>i. k \<notin> update_key ` set (us i)" for k
    using inv that unfolding writers_inv_def by (elim conjE) (erule allE, erule mp)
  ultimately show ?thesis by (simp add: slot_def)
qed

subsection \<open>Two writers\<close>

text \<open>Both load the allow map before either publishes, so the second has to retry.\<close>

definition pair_updates :: "nat \<Rightarrow> string update list" where
  "pair_updates j =
     (if j = 0 then [Upsert (role_policy ''x'' AccessAllow ''admin'')]
      else if j = 1 then [Upsert (role_policy ''y'' AccessAllow ''user'')] else [])"

definition pair_writers :: "nat \<Rightarrow> string goroutine" where
  "pair_writers j = (if j \<le> 1 then Writer (update_list_calls (pair_updates j)) AtLoad else Reader)"

definition pair_run :: "string system" where
  "pair_run = run_schedule [0, 1, 0, 1, 0, 1, 1, 1] (start_system NewPolicyStore pair_writers)"

theorem writers_independent_witness:
  "gomap_get (ps_allow (abs_store pair_run)) ''x'' = Some (role_policy ''x'' AccessAllow ''admin'')
   \<and> gomap_get (ps_allow (abs_store pair_run)) ''y'' = Some (role_policy ''y'' AccessAllow ''user'')"
proof -
  note eval = pair_run_def system_step_def start_system_def pair_writers_def pair_updates_def
    update_list_calls_def NewPolicyStore_def inserted_map_def maps_Copy_def gomap_put_def
  have shape: "\<forall>i. pair_writers i = Writer (update_list_calls (pair_updates i)) AtLoad
      \<or> pair_writers i = Reader \<and> pair_updates i = []"
    by (simp add: pair_writers_def pair_updates_def)
  have apart: "\<forall>i j. i \<noteq> j \<longrightarrow> update_key ` set (pair_updates i) \<inter> update_key ` set (pair_updates j) = {}"
    by (auto simp: pair_updates_def split: if_splits)
  have reach: "reach (start_system NewPolicyStore pair_writers) pair_run"
    unfolding pair_run_def by (rule reach_schedule)
  have finished: "\<forall>j. remaining (procs pair_run j) = []" by (simp add: eval)
  have keys: "''x'' \<in> update_key ` set (pair_updates 0)" "''y'' \<in> update_key ` set (pair_updates 1)"
    by (simp_all add: pair_updates_def)
  note alone = bspec [OF spec [OF conjunct1 [OF writers_independent [OF shape apart store_inv_New reach finished]]]]
  show ?thesis
    using alone [OF keys(1)] alone [OF keys(2)]
    by (simp add: pair_updates_def UpsertPolicy_tables NewPolicyStore_def upsertInto_def inserted_map_def
        maps_Copy_def)
qed

end
