(* ===== verification/Netip_V6_Text.thy ===== *)
theory Netip_V6_Text
  imports Operators
begin

text \<open>
  The texts of IPv6 addresses: eight groups of lower-case hexadecimal numbers without leading
  zeros, of which a run of zeros may be left out for \<open>::\<close>.  \<open>ParseAddr\<close> and \<open>ParsePrefix\<close> read
  every such text back, whichever run is left out, so IN_CIDR on IPv6 is membership in a
  network, as it is on dotted quads.
\<close>

subsection \<open>Printing\<close>

definition hex_char :: "nat \<Rightarrow> char" where
  "hex_char d = char_of (if d < 10 then 48 + d else 87 + d)"

fun hex_digits :: "nat \<Rightarrow> string" where
  "hex_digits n = (if n < 16 then [hex_char n] else hex_digits (n div 16) @ [hex_char (n mod 16)])"

declare hex_digits.simps [simp del]

fun groups_string :: "nat list \<Rightarrow> string" where
  "groups_string [] = []"
| "groups_string [g] = hex_digits g"
| "groups_string (g # h # gs) = hex_digits g @ CHR '':'' # groups_string (h # gs)"

text \<open>A text is all eight groups, or the groups before and after the run that is left out.\<close>

datatype v6_text = Full "nat list" | Elided "nat list" "nat list"

fun v6_string :: "v6_text \<Rightarrow> string" where
  "v6_string (Full gs) = groups_string gs"
| "v6_string (Elided gs hs) = groups_string gs @ ''::'' @ groups_string hs"

fun v6_groups :: "v6_text \<Rightarrow> nat list" where
  "v6_groups (Full gs) = gs"
| "v6_groups (Elided gs hs) = gs @ replicate (8 - length gs - length hs) 0 @ hs"

fun valid_v6 :: "v6_text \<Rightarrow> bool" where
  "valid_v6 (Full gs) \<longleftrightarrow> length gs = 8 \<and> (\<forall>g \<in> set gs. g < 65536)"
| "valid_v6 (Elided gs hs) \<longleftrightarrow> length gs + length hs < 8 \<and> (\<forall>g \<in> set gs \<union> set hs. g < 65536)"

definition group_bytes :: "nat list \<Rightarrow> int list" where
  "group_bytes gs = concat (map (\<lambda>g. [int g div 256, int g mod 256]) gs)"

definition v6_num :: "v6_text \<Rightarrow> int" where
  "v6_num t = byte_num (group_bytes (v6_groups t))"

lemma group_bytes_simps [simp]:
  "group_bytes [] = []" "group_bytes (g # gs) = [int g div 256, int g mod 256] @ group_bytes gs"
  "group_bytes (gs @ hs) = group_bytes gs @ group_bytes hs"
  by (simp_all add: group_bytes_def)

lemma length_group_bytes [simp]: "length (group_bytes gs) = 2 * length gs"
  by (induction gs) simp_all

lemma group_bytes_zeros [simp]: "group_bytes (replicate k 0) = replicate (2 * k) 0"
  by (induction k) simp_all

subsection \<open>One group\<close>

lemma hex_val_char: "d < 16 \<Longrightarrow> hex_val (hex_char d) = Some d"
  by (auto simp: hex_val_def hex_char_def of_char_of Let_def take_bit_eq_mod)

lemma hex_char_digits: "c \<in> set (hex_digits n) \<Longrightarrow> \<exists>d < 16. c = hex_char d"
proof (induction n rule: hex_digits.induct)
  case (1 n)
  show ?case
  proof (cases "n < 16")
    case True
    then show ?thesis using 1(2) by (auto simp: hex_digits.simps [of n])
  next
    case False
    then have "c \<in> set (hex_digits (n div 16)) \<or> c = hex_char (n mod 16)"
      using 1(2) by (auto simp: hex_digits.simps [of n])
    moreover have "n mod 16 < 16" by simp
    ultimately show ?thesis using 1(1) [OF False] by blast
  qed
qed

lemma hex_val_sep [simp]:
  "hex_val (CHR '':'') = None" "hex_val (CHR ''.'') = None" "hex_val (CHR ''%'') = None"
  "hex_val (CHR ''/'') = None"
  by (simp_all add: hex_val_def)

lemma hex_digits_val: "c \<in> set (hex_digits n) \<Longrightarrow> hex_val c \<noteq> None"
  by (drule hex_char_digits) (auto simp: hex_val_char)

lemma hex_digits_Nil [simp]: "hex_digits n \<noteq> []"
  by (simp add: hex_digits.simps [of n])

lemma length_hex_digits: "n < 16 ^ k \<Longrightarrow> 0 < k \<Longrightarrow> length (hex_digits n) \<le> k"
proof (induction k arbitrary: n)
  case (Suc k)
  show ?case
  proof (cases "n < 16")
    case True
    then show ?thesis by (simp add: hex_digits.simps [of n])
  next
    case False
    then have "k \<noteq> 0" using Suc.prems by (cases k) auto
    moreover have "n div 16 < 16 ^ k" using Suc.prems(1) by (simp add: less_mult_imp_div_less)
    ultimately show ?thesis using Suc.IH [of "n div 16"] False by (simp add: hex_digits.simps [of n])
  qed
qed simp

lemma hex_group_digits:
  "n < 65536 \<Longrightarrow> hex_group 0 0 (hex_digits n @ rest) = hex_group (length (hex_digits n)) (int n) rest"
proof (induction n arbitrary: rest rule: hex_digits.induct)
  case (1 n)
  show ?case
  proof (cases "n < 16")
    case True
    then show ?thesis by (simp add: hex_digits.simps [of n] hex_val_char)
  next
    case False
    have eq: "hex_digits n = hex_digits (n div 16) @ [hex_char (n mod 16)]"
      using False by (simp add: hex_digits.simps [of n])
    have "length (hex_digits (n div 16)) \<le> 3" using 1(2) by (intro length_hex_digits) auto
    moreover have "16 * int (n div 16) + int (n mod 16) = int n" by (simp add: zdiv_int zmod_int)
    ultimately show ?thesis
      using 1(1) [OF False, of "hex_char (n mod 16) # rest"] 1(2) by (simp add: eq hex_val_char)
  qed
qed

lemma hex_group_colon:
  "n < 65536 \<Longrightarrow> hex_group 0 0 (hex_digits n @ CHR '':'' # rest)
     = Some (length (hex_digits n), int n, CHR '':'' # rest)"
  by (simp add: hex_group_digits)

lemma hex_group_end:
  "n < 65536 \<Longrightarrow> hex_group 0 0 (hex_digits n) = Some (length (hex_digits n), int n, [])"
  using hex_group_digits [of n "[]"] by simp

subsection \<open>The groups\<close>

lemma groups_string_head:
  assumes "gs \<noteq> []"
  shows "\<exists>d ds. groups_string gs = d # ds \<and> hex_val d \<noteq> None"
proof -
  obtain g gs' where gs: "gs = g # gs'" using assms by (cases gs) auto
  obtain d ds where "hex_digits g = d # ds" using hex_digits_Nil by (cases "hex_digits g") auto
  then show ?thesis using hex_digits_val [of d g] by (cases gs') (simp_all add: gs)
qed

lemma parse_last_group:
  "g < 65536 \<Longrightarrow> length ip < 16 \<Longrightarrow>
     parseIPv6_loop ip e (hex_digits g) = Some (ip @ [int g div 256, int g mod 256], e, [])"
  by (simp add: parseIPv6_loop.simps [of ip e] hex_group_end)

lemma parse_group_colon:
  assumes "g < 65536" "length ip < 16" "d \<noteq> CHR '':''"
  shows "parseIPv6_loop ip e (hex_digits g @ CHR '':'' # d # ds)
    = parseIPv6_loop (ip @ [int g div 256, int g mod 256]) e (d # ds)"
  using assms by (simp add: parseIPv6_loop.simps [of ip e "hex_digits g @ _"] hex_group_colon)

lemma parse_group_elision:
  assumes "g < 65536" "length ip < 16"
  shows "parseIPv6_loop ip None (hex_digits g @ ''::'' @ ds)
    = (if ds = [] then Some (ip @ [int g div 256, int g mod 256], Some (length ip + 2), [])
       else parseIPv6_loop (ip @ [int g div 256, int g mod 256]) (Some (length ip + 2)) ds)"
  using assms by (simp add: parseIPv6_loop.simps [of ip None "hex_digits g @ _"] hex_group_colon)

lemma parse_groups:
  "gs \<noteq> [] \<Longrightarrow> length ip + 2 * length gs \<le> 16 \<Longrightarrow> \<forall>g \<in> set gs. g < 65536 \<Longrightarrow>
     parseIPv6_loop ip e (groups_string gs) = Some (ip @ group_bytes gs, e, [])"
proof (induction gs arbitrary: ip rule: groups_string.induct)
  case (2 g)
  then show ?case by (simp add: parse_last_group)
next
  case (3 g h gs)
  obtain d ds where d: "groups_string (h # gs) = d # ds" "hex_val d \<noteq> None"
    using groups_string_head by blast
  then have "d \<noteq> CHR '':''" by auto
  with 3 d(1) show ?case by (simp add: parse_group_colon)
qed simp

lemma parse_groups_elided:
  "gs \<noteq> [] \<Longrightarrow> length ip + 2 * length gs + 2 * length hs < 16 \<Longrightarrow>
     \<forall>g \<in> set gs \<union> set hs. g < 65536 \<Longrightarrow>
     parseIPv6_loop ip None (groups_string gs @ ''::'' @ groups_string hs)
       = Some (ip @ group_bytes gs @ group_bytes hs, Some (length ip + 2 * length gs), [])"
proof (induction gs arbitrary: ip rule: groups_string.induct)
  case (2 g)
  show ?case
  proof (cases hs)
    case Nil
    then show ?thesis using 2 parse_group_elision [of g ip "[]"] by simp
  next
    case (Cons h hs')
    then have "groups_string hs \<noteq> []" using groups_string_head [of hs] by auto
    then show ?thesis
      using 2 Cons parse_group_elision [of g ip "groups_string hs"]
        parse_groups [of hs "ip @ [int g div 256, int g mod 256]"] by simp
  qed
next
  case (3 g h gs)
  obtain d ds where d: "groups_string (h # gs) = d # ds" "hex_val d \<noteq> None"
    using groups_string_head by blast
  then have "d \<noteq> CHR '':''" by auto
  then have "parseIPv6_loop ip None (hex_digits g @ CHR '':'' # d # ds @ ''::'' @ groups_string hs)
      = parseIPv6_loop (ip @ [int g div 256, int g mod 256]) None (d # ds @ ''::'' @ groups_string hs)"
    using 3 by (intro parse_group_colon) simp_all
  then show ?case using 3 d(1) by simp
qed simp

subsection \<open>Addresses\<close>

lemma groups_string_chars: "c \<in> set (groups_string gs) \<Longrightarrow> c = CHR '':'' \<or> hex_val c \<noteq> None"
  by (induction gs rule: groups_string.induct) (auto dest: hex_digits_val)

lemma v6_string_chars: "c \<in> set (v6_string t) \<Longrightarrow> c = CHR '':'' \<or> hex_val c \<noteq> None"
  by (cases t) (auto dest: groups_string_chars)

lemma v6_string_no_sep:
  "CHR ''%'' \<notin> set (v6_string t)" "CHR ''/'' \<notin> set (v6_string t)" "CHR ''.'' \<notin> set (v6_string t)"
  using v6_string_chars [of _ t] by fastforce+

lemma addr_family_colon:
  "CHR ''%'' \<notin> set s \<Longrightarrow> CHR ''.'' \<notin> set s \<Longrightarrow> CHR '':'' \<in> set s \<Longrightarrow> addr_family s = Some (CHR '':'')"
  by (induction s) auto

lemma v6_string_colon: "valid_v6 t \<Longrightarrow> CHR '':'' \<in> set (v6_string t)"
proof (cases t)
  case (Full gs)
  moreover assume "valid_v6 t"
  ultimately obtain g h gs' where "gs = g # h # gs'" by (cases gs; cases "tl gs") auto
  then show ?thesis using Full by simp
qed simp

lemma take_2_head: "hex_val d \<noteq> None \<Longrightarrow> take 2 (d # ds) \<noteq> ''::''"
  by auto

lemma ParseAddr_v6 [text_simps]:
  assumes "valid_v6 t"
  shows "ParseAddr (v6_string t) = Some (Addr6 (word_of_int (v6_num t)) [])"
proof -
  have "ParseAddr (v6_string t) = parseIPv6 (v6_string t)"
    using v6_string_no_sep [of t] v6_string_colon [OF assms]
    by (simp add: ParseAddr_def addr_family_colon)
  also have "\<dots> = Some (Addr6 (word_of_int (v6_num t)) [])"
  proof (cases t)
    case (Full gs)
    then have gs: "gs \<noteq> []" "length gs = 8" "\<forall>g \<in> set gs. g < 65536" using assms by auto
    have "take 2 (groups_string gs) \<noteq> ''::''"
      using groups_string_head [OF gs(1)] take_2_head by force
    then show ?thesis
      using parse_groups [of gs "[]" None] gs v6_string_no_sep(1) [of t]
      by (simp add: parseIPv6_def Full strings_Cut_missing v6_num_def Let_def)
  next
    case (Elided gs hs)
    then have v: "length gs + length hs < 8" "\<forall>g \<in> set gs \<union> set hs. g < 65536" using assms by auto
    have cut: "strings_Cut (v6_string t) (CHR ''%'') = (v6_string t, [], False)"
      by (rule strings_Cut_missing [OF v6_string_no_sep(1)])
    have zeros: "16 - (2 * length gs + 2 * length hs) = 2 * (8 - length gs - length hs)" by simp
    show ?thesis
    proof (cases gs)
      case Nil
      show ?thesis
      proof (cases hs)
        case Nil2: Nil
        have "byte_num (replicate 16 0) = 0" by (simp add: byte_num_def numeral_eq_Suc)
        then show ?thesis
          using cut by (simp add: parseIPv6_def Elided Nil Nil2 v6_num_def Let_def)
      next
        case (Cons h hs')
        then have "groups_string hs \<noteq> []" using groups_string_head [of hs] by auto
        then show ?thesis
          using cut parse_groups [of hs "[]" "Some 0"] v Cons zeros
          by (simp add: parseIPv6_def Elided Nil v6_num_def Let_def)
      qed
    next
      case (Cons g gs')
      then have "take 2 (groups_string gs @ ''::'' @ groups_string hs) \<noteq> ''::''"
        using groups_string_head [of gs] take_2_head by force
      then show ?thesis
        using cut parse_groups_elided [of gs "[]" hs] v Cons zeros
        by (simp add: parseIPv6_def Elided v6_num_def Let_def)
    qed
  qed
  finally show ?thesis .
qed

lemma ParsePrefix_v6 [text_simps]:
  assumes "valid_v6 t" "n \<le> 128"
  shows "ParsePrefix (v6_string t @ CHR ''/'' # nat_digits n)
    = Some (Prefix (Addr6 (word_of_int (v6_num t)) []) n)"
proof -
  have "digit_val (hd (nat_digits n)) \<noteq> None" by (rule nat_digits_digit [of _ n]) simp
  then show ?thesis
    using assms nat_digits_lead [of n]
    by (auto simp: ParsePrefix_def last_slash_found nat_digits_no_slash ParseAddr_v6 Atoi_nat_digits)
qed

lemma byte_num_bound:
  "\<forall>b \<in> set bs. 0 \<le> b \<and> b < 256 \<Longrightarrow> 0 \<le> byte_num bs \<and> byte_num bs < 256 ^ length bs"
proof (induction bs rule: rev_induct)
  case (snoc b bs)
  then show ?case by (auto simp: byte_num_def)
qed (simp add: byte_num_def)

lemma uint_v6:
  assumes "valid_v6 t"
  shows "uint (word_of_int (v6_num t) :: 128 word) = v6_num t"
proof -
  have "length (v6_groups t) = 8 \<and> (\<forall>g \<in> set (v6_groups t). g < 65536)"
    using assms by (cases t) auto
  then have "\<forall>b \<in> set (group_bytes (v6_groups t)). 0 \<le> b \<and> b < 256"
      "length (group_bytes (v6_groups t)) = 16"
    by (auto simp: group_bytes_def) (simp flip: group_bytes_def)
  from byte_num_bound [OF this(1)] this(2) show ?thesis
    by (simp add: v6_num_def uint_word_of_int)
qed

subsection \<open>IN_CIDR\<close>

definition v6_block_string :: "v6_text \<times> nat \<Rightarrow> string" where
  "v6_block_string = (\<lambda>(t, n). v6_string t @ CHR ''/'' # nat_digits n)"

definition valid_v6_block :: "v6_text \<times> nat \<Rightarrow> bool" where
  "valid_v6_block = (\<lambda>(t, n). valid_v6 t \<and> n \<le> 128)"

definition in_v6_block :: "v6_text \<times> nat \<Rightarrow> int \<Rightarrow> bool" where
  "in_v6_block = (\<lambda>(t, n) ip. ip div 2 ^ (128 - n) = v6_num t div 2 ^ (128 - n))"

lemma ParsePrefix_v6_block:
  "valid_v6_block blk \<Longrightarrow> valid_v6 t \<Longrightarrow>
     (\<exists>p. ParsePrefix (v6_block_string blk) = Some p \<and> Contains p (Addr6 (word_of_int (v6_num t)) []))
     \<longleftrightarrow> in_v6_block blk (v6_num t)"
  by (cases blk)
     (simp add: valid_v6_block_def v6_block_string_def in_v6_block_def ParsePrefix_v6 Contains_v6 uint_v6
       del: Contains.simps)

text \<open>
  IN_CIDR on IPv6 is network membership, however the address and the blocks are written.
  A request with one IPv6 address matches a list of IPv6 blocks exactly when for one of them
  the leading bits of the two addresses agree, whichever run of zeros the texts leave out.
\<close>

theorem evalInCIDR_ipv6:
  assumes blocks: "\<forall>blk \<in> set blocks. valid_v6_block blk" and addr: "valid_v6 t"
  shows "evalInCIDR (map v6_block_string blocks) [v6_string t]
    \<longleftrightarrow> (\<exists>blk \<in> set blocks. in_v6_block blk (v6_num t))"
proof -
  have "evalInCIDR (map v6_block_string blocks) [v6_string t] \<longleftrightarrow>
      (\<exists>blk \<in> set blocks. \<exists>p. ParsePrefix (v6_block_string blk) = Some p
         \<and> Contains p (Addr6 (word_of_int (v6_num t)) []))"
    using ParseAddr_v6 [OF addr] by (auto simp: evalInCIDR_iff)
  also have "\<dots> \<longleftrightarrow> (\<exists>blk \<in> set blocks. in_v6_block blk (v6_num t))"
    using ParsePrefix_v6_block [OF _ addr] blocks by blast
  finally show ?thesis .
qed

theorem evalInCIDR_ipv6_witness:
  "evalInCIDR [''2001:db8::/32''] [''2001:db8::8:800:200c:417a'']
     \<and> \<not> evalInCIDR [''2001:db8::/32''] [''2001:db9:0:0:0:0:0:1'']"
proof -
  let ?blk = "(Elided [0x2001, 0xdb8] [], 32)"
  let ?a = "Elided [0x2001, 0xdb8] [8, 0x800, 0x200c, 0x417a]"
  let ?b = "Full [0x2001, 0xdb9, 0, 0, 0, 0, 0, 1]"
  have texts: "map v6_block_string [?blk] = [''2001:db8::/32'']"
      "v6_string ?a = ''2001:db8::8:800:200c:417a''" "v6_string ?b = ''2001:db9:0:0:0:0:0:1''"
    by (simp_all add: v6_block_string_def hex_digits.simps hex_char_def nat_digits_2 char_of_def bit_0)
  have valid: "\<forall>blk \<in> set [?blk]. valid_v6_block blk" "valid_v6 ?a" "valid_v6 ?b"
    by (simp_all add: valid_v6_block_def)
  have "in_v6_block ?blk (v6_num ?a)" "\<not> in_v6_block ?blk (v6_num ?b)"
    by (simp_all add: in_v6_block_def v6_num_def byte_num_def numeral_eq_Suc)
  then have "\<exists>blk \<in> set [?blk]. in_v6_block blk (v6_num ?a)" "\<not> (\<exists>blk \<in> set [?blk]. in_v6_block blk (v6_num ?b))"
    by (simp_all only: list.set bex_simps simp_thms)
  then show ?thesis
    using evalInCIDR_ipv6 [OF valid(1,2)] evalInCIDR_ipv6 [OF valid(1,3)] by (simp only: texts simp_thms)
qed

subsection \<open>Both families\<close>

text \<open>The text of an address or of a block, of either family.\<close>

datatype ip_text = V4Text nat nat nat nat | V6Text v6_text

datatype cidr_text = V4Block "nat \<times> nat \<times> nat \<times> nat \<times> nat" | V6Block "v6_text \<times> nat"

fun ip_string :: "ip_text \<Rightarrow> string" where
  "ip_string (V4Text a b c d) = quad_string a b c d"
| "ip_string (V6Text t) = v6_string t"

fun valid_ip :: "ip_text \<Rightarrow> bool" where
  "valid_ip (V4Text a b c d) = (a < 256 \<and> b < 256 \<and> c < 256 \<and> d < 256)"
| "valid_ip (V6Text t) = valid_v6 t"

fun ip_addr :: "ip_text \<Rightarrow> addr" where
  "ip_addr (V4Text a b c d) = Addr4 (word_of_int (quad_num a b c d))"
| "ip_addr (V6Text t) = Addr6 (word_of_int (v6_num t)) []"

fun network_string :: "cidr_text \<Rightarrow> string" where
  "network_string (V4Block blk) = block_string blk"
| "network_string (V6Block blk) = v6_block_string blk"

fun valid_network :: "cidr_text \<Rightarrow> bool" where
  "valid_network (V4Block blk) = valid_block blk"
| "valid_network (V6Block blk) = valid_v6_block blk"

fun in_network :: "cidr_text \<Rightarrow> ip_text \<Rightarrow> bool" where
  "in_network (V4Block blk) (V4Text a b c d) = in_block blk (quad_num a b c d)"
| "in_network (V6Block blk) (V6Text t) = in_v6_block blk (v6_num t)"
| "in_network _ _ = False"

lemma ParseAddr_ip: "valid_ip a \<Longrightarrow> ParseAddr (ip_string a) = Some (ip_addr a)"
  by (cases a) (simp_all add: ParseAddr_quad ParseAddr_v6)

lemma ParsePrefix_network:
  assumes "valid_network net" "valid_ip a"
  shows "(\<exists>p. ParsePrefix (network_string net) = Some p \<and> Contains p (ip_addr a)) \<longleftrightarrow> in_network net a"
proof (cases net)
  case (V4Block blk)
  obtain e f g h n where blk: "blk = (e, f, g, h, n)" by (metis prod_cases5)
  show ?thesis
  proof (cases a)
    case (V4Text a b c d)
    with assms V4Block ParsePrefix_block [of blk a b c d] show ?thesis by simp
  next
    case (V6Text t)
    with assms V4Block blk show ?thesis by (simp add: valid_block_def block_string_def ParsePrefix_cidr)
  qed
next
  case (V6Block blk)
  obtain t n where blk: "blk = (t, n)" by force
  show ?thesis
  proof (cases a)
    case (V4Text a b c d)
    with assms V6Block blk show ?thesis by (simp add: valid_v6_block_def v6_block_string_def ParsePrefix_v6)
  next
    case (V6Text u)
    with assms V6Block ParsePrefix_v6_block [of blk u] show ?thesis by simp
  qed
qed

text \<open>
  C30: IN_CIDR is network membership.  A request with one address, a dotted IPv4 quad or an IPv6
  text whichever run of zeros it leaves out, matches a list of blocks of both families exactly
  when one of them is of the family of the address and agrees with it in the leading bits.
\<close>

theorem evalInCIDR_networks:
  assumes nets: "\<forall>net \<in> set nets. valid_network net" and addr: "valid_ip a"
  shows "evalInCIDR (map network_string nets) [ip_string a] \<longleftrightarrow> (\<exists>net \<in> set nets. in_network net a)"
proof -
  have "evalInCIDR (map network_string nets) [ip_string a] \<longleftrightarrow>
      (\<exists>net \<in> set nets. \<exists>p. ParsePrefix (network_string net) = Some p \<and> Contains p (ip_addr a))"
    using ParseAddr_ip [OF addr] by (auto simp: evalInCIDR_iff)
  also have "\<dots> \<longleftrightarrow> (\<exists>net \<in> set nets. in_network net a)"
    using ParsePrefix_network [OF _ addr] nets by blast
  finally show ?thesis .
qed

text \<open>A list with a block of each family, and an address of each.\<close>

theorem evalInCIDR_networks_witness:
  "evalInCIDR [''10.0.0.0/8'', ''2001:db8::/32''] [''10.4.4.10'']
     \<and> evalInCIDR [''10.0.0.0/8'', ''2001:db8::/32''] [''2001:db8::8:800:200c:417a'']
     \<and> \<not> evalInCIDR [''10.0.0.0/8'', ''2001:db8::/32''] [''11.4.4.10'']"
proof -
  let ?nets = "[V4Block (10, 0, 0, 0, 8), V6Block (Elided [0x2001, 0xdb8] [], 32)]"
  let ?a = "V6Text (Elided [0x2001, 0xdb8] [8, 0x800, 0x200c, 0x417a])"
  have quads: "block_string (10, 0, 0, 0, 8) = ''10.0.0.0/8''" "quad_string 10 4 4 10 = ''10.4.4.10''"
      "quad_string 11 4 4 10 = ''11.4.4.10''"
    by code_simp+
  have texts: "map network_string ?nets = [''10.0.0.0/8'', ''2001:db8::/32'']"
      "ip_string ?a = ''2001:db8::8:800:200c:417a''"
      "ip_string (V4Text 10 4 4 10) = ''10.4.4.10''" "ip_string (V4Text 11 4 4 10) = ''11.4.4.10''"
    by (simp_all add: quads v6_block_string_def hex_digits.simps hex_char_def nat_digits_2 char_of_def bit_0)
  have valid: "\<forall>net \<in> set ?nets. valid_network net" "valid_ip ?a"
      "valid_ip (V4Text 10 4 4 10)" "valid_ip (V4Text 11 4 4 10)"
    by (simp_all add: valid_block_def valid_v6_block_def)
  have "in_network (V4Block (10, 0, 0, 0, 8)) (V4Text 10 4 4 10)"
      "\<not> in_network (V4Block (10, 0, 0, 0, 8)) (V4Text 11 4 4 10)"
    by (simp_all add: in_block_def quad_num_def byte_num_def)
  moreover have "in_network (V6Block (Elided [0x2001, 0xdb8] [], 32)) ?a"
    by (simp add: in_v6_block_def v6_num_def byte_num_def numeral_eq_Suc)
  ultimately have "\<exists>net \<in> set ?nets. in_network net (V4Text 10 4 4 10)"
      "\<not> (\<exists>net \<in> set ?nets. in_network net (V4Text 11 4 4 10))" "\<exists>net \<in> set ?nets. in_network net ?a"
    by (simp_all only: list.set bex_simps simp_thms in_network.simps)
  then show ?thesis
    using evalInCIDR_networks [OF valid(1,2)] evalInCIDR_networks [OF valid(1,3)]
      evalInCIDR_networks [OF valid(1,4)] by (simp only: texts simp_thms)
qed

end
