(* ===== verification/Authz_Api.thy ===== *)
theory Authz_Api
  imports Bouncer_Prelude
begin

text \<open>
  The gRPC surface, \<open>pkg/gen/authzv1\<close>: the messages, their nil-safe getters, and the generated
  handler that decodes a request and passes it through the interceptor to the service.

  A pointer is an option and a nil map is the empty map.  What goes through the interceptor is
  an interface value, so a response pointer that is nil inside a non-nil interface is kept
  apart from the nil interface.  A unary handler takes the state of the process to a new state,
  a response and an error; \<open>None\<close> is a panic.
\<close>

record AttributeValues =
  av_Values :: "string list"

record CheckAccessRequest =
  crq_PrincipalId :: string
  crq_PrincipalAttributes :: "(string, AttributeValues option) gomap"
  crq_ResourceType :: string
  crq_ResourceId :: string
  crq_ResourceAttributes :: "(string, AttributeValues option) gomap"
  crq_Action :: string
  crq_EnvironmentAttributes :: "(string, AttributeValues option) gomap"

record CheckAccessResponse =
  crs_Allowed :: bool
  crs_MatchedPolicyId :: string
  crs_Reason :: string
  crs_EvaluationTimeNs :: int

definition GetValues :: "AttributeValues option \<Rightarrow> string list" where
  "GetValues x = (case x of Some v \<Rightarrow> av_Values v | None \<Rightarrow> [])"

definition GetPrincipalId :: "CheckAccessRequest option \<Rightarrow> string" where
  "GetPrincipalId x = (case x of Some r \<Rightarrow> crq_PrincipalId r | None \<Rightarrow> [])"

definition GetPrincipalAttributes ::
  "CheckAccessRequest option \<Rightarrow> (string, AttributeValues option) gomap" where
  "GetPrincipalAttributes x = (case x of Some r \<Rightarrow> crq_PrincipalAttributes r | None \<Rightarrow> [])"

definition GetResourceType :: "CheckAccessRequest option \<Rightarrow> string" where
  "GetResourceType x = (case x of Some r \<Rightarrow> crq_ResourceType r | None \<Rightarrow> [])"

definition GetResourceId :: "CheckAccessRequest option \<Rightarrow> string" where
  "GetResourceId x = (case x of Some r \<Rightarrow> crq_ResourceId r | None \<Rightarrow> [])"

definition GetResourceAttributes ::
  "CheckAccessRequest option \<Rightarrow> (string, AttributeValues option) gomap" where
  "GetResourceAttributes x = (case x of Some r \<Rightarrow> crq_ResourceAttributes r | None \<Rightarrow> [])"

definition GetAction :: "CheckAccessRequest option \<Rightarrow> string" where
  "GetAction x = (case x of Some r \<Rightarrow> crq_Action r | None \<Rightarrow> [])"

definition GetEnvironmentAttributes ::
  "CheckAccessRequest option \<Rightarrow> (string, AttributeValues option) gomap" where
  "GetEnvironmentAttributes x = (case x of Some r \<Rightarrow> crq_EnvironmentAttributes r | None \<Rightarrow> [])"

definition GetAllowed :: "CheckAccessResponse option \<Rightarrow> bool" where
  "GetAllowed x = (case x of Some r \<Rightarrow> crs_Allowed r | None \<Rightarrow> False)"

definition GetMatchedPolicyId :: "CheckAccessResponse option \<Rightarrow> string" where
  "GetMatchedPolicyId x = (case x of Some r \<Rightarrow> crs_MatchedPolicyId r | None \<Rightarrow> [])"

definition GetReason :: "CheckAccessResponse option \<Rightarrow> string" where
  "GetReason x = (case x of Some r \<Rightarrow> crs_Reason r | None \<Rightarrow> [])"

definition GetEvaluationTimeNs :: "CheckAccessResponse option \<Rightarrow> int" where
  "GetEvaluationTimeNs x = (case x of Some r \<Rightarrow> crs_EvaluationTimeNs r | None \<Rightarrow> 0)"

lemma getters_Some [simp]:
  "GetAllowed (Some r) = crs_Allowed r" "GetMatchedPolicyId (Some r) = crs_MatchedPolicyId r"
  "GetReason (Some r) = crs_Reason r" "GetEvaluationTimeNs (Some r) = crs_EvaluationTimeNs r"
  by (simp_all add: GetAllowed_def GetMatchedPolicyId_def GetReason_def GetEvaluationTimeNs_def)

datatype message =
    NilMessage
  | ResponseMessage "CheckAccessResponse option"
  | OtherMessage

type_synonym 's unary_result = "('s \<times> message \<times> string option) option"
type_synonym 's unary_handler = "'s \<Rightarrow> 's unary_result"

definition CheckAccess_Handler ::
  "(CheckAccessRequest \<Rightarrow> 's unary_handler) \<Rightarrow> string + CheckAccessRequest
     \<Rightarrow> ('s unary_handler \<Rightarrow> 's unary_handler) option \<Rightarrow> 's unary_handler" where
  "CheckAccess_Handler srv decoded interceptor s =
     (case decoded of
        Inl err \<Rightarrow> Some (s, NilMessage, Some err)
      | Inr req \<Rightarrow>
          (case interceptor of
             None \<Rightarrow> srv req s
           | Some ic \<Rightarrow> ic (srv req) s))"

text \<open>The answer that a client of the handler gets: an error, or the response in the message.\<close>

definition client_answer :: "message \<times> string option \<Rightarrow> string + CheckAccessResponse" where
  "client_answer a =
     (case a of
        (_, Some err) \<Rightarrow> Inl err
      | (ResponseMessage (Some r), None) \<Rightarrow> Inr r
      | (_, None) \<Rightarrow> Inl ''internal'')"

subsection \<open>The service on the wire\<close>

text \<open>
  The description that the generated code registers, with the handlers by method name.  gRPC
  calls a method by its full name, the names of service and method with slashes; a name that
  no registered service has is unimplemented.
\<close>

record 'h service_desc =
  sd_ServiceName :: string
  sd_Methods :: "(string \<times> 'h) list"

definition CheckAccess_FullMethodName :: string where
  "CheckAccess_FullMethodName = ''/authz.v1.AuthorizationService/CheckAccess''"

definition AuthorizationService_ServiceDesc :: "'h \<Rightarrow> 'h service_desc" where
  "AuthorizationService_ServiceDesc handler =
     \<lparr>sd_ServiceName = ''authz.v1.AuthorizationService'', sd_Methods = [(''CheckAccess'', handler)]\<rparr>"

definition service_route :: "'h service_desc \<Rightarrow> string \<Rightarrow> 'h option" where
  "service_route desc fullMethod =
     map_of (map (\<lambda>(name, h). (''/'' @ sd_ServiceName desc @ ''/'' @ name, h)) (sd_Methods desc)) fullMethod"

text \<open>The client stub over a connection that invokes a method by its full name.\<close>

definition client_CheckAccess ::
  "(string \<Rightarrow> CheckAccessRequest \<Rightarrow> string + CheckAccessResponse) \<Rightarrow> CheckAccessRequest
     \<Rightarrow> string + CheckAccessResponse" where
  "client_CheckAccess Invoke req =
     (case Invoke CheckAccess_FullMethodName req of
        Inl err \<Rightarrow> Inl err
      | Inr out \<Rightarrow> Inr out)"

text \<open>The name that the stub calls is the one that the registered service answers to.\<close>

lemma stub_reaches_handler [simp]:
  "service_route (AuthorizationService_ServiceDesc handler) CheckAccess_FullMethodName = Some handler"
  by (simp add: service_route_def AuthorizationService_ServiceDesc_def CheckAccess_FullMethodName_def)

lemma client_CheckAccess_Invoke [simp]:
  "client_CheckAccess Invoke req = Invoke CheckAccess_FullMethodName req"
  by (simp add: client_CheckAccess_def split: sum.split)

end
