(* ===== verification/Metrics.thy ===== *)
theory Metrics
  imports Complex_Main Authz_Api Policy_Store
begin

text \<open>
  The Prometheus metrics, \<open>internal/metrics/metrics.go\<close>: registration, the interceptor that
  counts decisions and observes durations, and the policy gauge.

  The Prometheus client is a parameter: resolving a child counter gives a handle of type \<open>'c\<close>
  or an error, and the calls made on the handles and on the histogram are kept in order.  The
  duration in seconds is a floating-point quotient of two integers, a parameter too.  A nil
  counter or interface is \<open>None\<close>, and so is the result of a call that panics.
\<close>

subsection \<open>The collectors\<close>

text \<open>
  A collector is described by its name, its help text, its labels and, for a histogram, the
  upper bounds of its buckets in seconds.
\<close>

record collector =
  col_Name :: string
  col_Help :: string
  col_labels :: "string list"
  col_Buckets :: "rat list"

definition evaluationsTotal :: collector where
  "evaluationsTotal =
     \<lparr>col_Name = ''authz_evaluations_total'',
      col_Help = ''Total number of authorization evaluations, labelled by access decision (allow|deny).'',
      col_labels = [''access''], col_Buckets = []\<rparr>"

definition evaluationDurationSeconds :: collector where
  "evaluationDurationSeconds =
     \<lparr>col_Name = ''authz_evaluation_duration_seconds'',
      col_Help = ''Time spent evaluating an authorization request, in seconds, as reported by the engine.'',
      col_labels = [],
      col_Buckets = [5 / 10000, 1 / 1000, 25 / 10000, 5 / 1000, 1 / 100, 25 / 1000, 5 / 100,
        1 / 10, 25 / 100, 5 / 10, 1, 25 / 10]\<rparr>"

definition policyCount_gauge :: collector where
  "policyCount_gauge =
     \<lparr>col_Name = ''authz_policy_count'',
      col_Help = ''Number of policies currently held in the in-memory store (allow + deny tables).'',
      col_labels = [], col_Buckets = []\<rparr>"

definition all_collectors :: "collector list" where
  "all_collectors = [evaluationsTotal, evaluationDurationSeconds, policyCount_gauge]"

text \<open>
  \<open>NewHistogram\<close> panics unless the bounds increase strictly, and \<open>MustRegister\<close> panics when a
  collector of the same name is registered already.  Here the registry is the names that the
  program has registered.
\<close>

definition histogram_ok :: "collector \<Rightarrow> bool" where
  "histogram_ok c \<longleftrightarrow> sorted_wrt (<) (col_Buckets c)"

fun MustRegister :: "collector list \<Rightarrow> string list \<Rightarrow> string list option" where
  "MustRegister [] reg = Some reg"
| "MustRegister (c # cs) reg =
     (if col_Name c \<in> set reg then None else MustRegister cs (reg @ [col_Name c]))"

subsection \<open>State and operations\<close>

record ('c, 'f) prom_lib =
  prom_GetMetricWithLabelValues :: "string \<Rightarrow> string + 'c"
  float_quotient :: "int \<Rightarrow> int \<Rightarrow> 'f"

datatype ('c, 'f) metric_call = Inc 'c | Observe 'f

record ('s, 'c, 'f) metrics =
  mt_registeredCounter :: "('s \<Rightarrow> nat) option"
  mt_allowCounter :: "'c option"
  mt_denyCounter :: "'c option"
  mt_registry :: "string list"
  mt_calls :: "('c, 'f) metric_call list"

definition initial_metrics :: "('s, 'c, 'f) metrics" where
  "initial_metrics =
     \<lparr>mt_registeredCounter = None, mt_allowCounter = None, mt_denyCounter = None,
      mt_registry = [], mt_calls = []\<rparr>"

definition Register ::
  "('c, 'f) prom_lib \<Rightarrow> ('s \<Rightarrow> nat) \<Rightarrow> ('s, 'c, 'f) metrics \<Rightarrow> ('s, 'c, 'f) metrics option" where
  "Register lib cnt m =
     (case prom_GetMetricWithLabelValues lib ''allow'' of
        Inl err \<Rightarrow> None
      | Inr allow \<Rightarrow>
          (case prom_GetMetricWithLabelValues lib ''deny'' of
             Inl err \<Rightarrow> None
           | Inr deny \<Rightarrow>
               (case MustRegister all_collectors (mt_registry m) of
                  None \<Rightarrow> None
                | Some reg \<Rightarrow>
                    Some (m\<lparr>mt_registeredCounter := Some cnt, mt_allowCounter := Some allow,
                            mt_denyCounter := Some deny, mt_registry := reg\<rparr>))))"

lemma package_collectors:
  "histogram_ok evaluationDurationSeconds"
  "distinct (map col_Name all_collectors)"
  by (simp_all add: histogram_ok_def evaluationsTotal_def evaluationDurationSeconds_def
      policyCount_gauge_def all_collectors_def)

definition registered_names :: "string list" where
  "registered_names = [''authz_evaluations_total'', ''authz_evaluation_duration_seconds'', ''authz_policy_count'']"

lemma MustRegister_package:
  "MustRegister all_collectors reg =
     (if set registered_names \<inter> set reg = {} then Some (reg @ registered_names) else None)"
  by (simp add: registered_names_def all_collectors_def evaluationsTotal_def
      evaluationDurationSeconds_def policyCount_gauge_def)

text \<open>The function of the gauge, run at every scrape.\<close>

definition policyCount :: "('s, 'c, 'f) metrics \<Rightarrow> 's \<Rightarrow> nat" where
  "policyCount m s = (case mt_registeredCounter m of None \<Rightarrow> 0 | Some cnt \<Rightarrow> cnt s)"

definition time_Second :: int where "time_Second = 1000000000"

text \<open>
  The state of the process is the metrics, which are package variables, beside the state of
  the service.  A service that leaves the metrics alone is lifted to both.
\<close>

definition lift_handler :: "'t unary_handler \<Rightarrow> ('m \<times> 't) unary_handler" where
  "lift_handler handler ms =
     (case ms of (m, s) \<Rightarrow>
        (case handler s of
           None \<Rightarrow> None
         | Some (s', resp, err) \<Rightarrow> Some ((m, s'), resp, err)))"

definition UnaryInterceptor ::
  "('c, 'f) prom_lib \<Rightarrow> (('s, 'c, 'f) metrics \<times> 't) unary_handler
     \<Rightarrow> (('s, 'c, 'f) metrics \<times> 't) unary_handler" where
  "UnaryInterceptor lib handler ms =
     (case handler ms of
        None \<Rightarrow> None
      | Some ((m, s), resp, err) \<Rightarrow>
          if err \<noteq> None then Some ((m, s), resp, err)
          else
            (case resp of
               ResponseMessage (Some authzResp) \<Rightarrow>
                 (case (if crs_Allowed authzResp then mt_allowCounter m else mt_denyCounter m) of
                    None \<Rightarrow> None
                  | Some counter \<Rightarrow>
                      Some ((m\<lparr>mt_calls := mt_calls m @
                                 [Inc counter,
                                  Observe (float_quotient lib (crs_EvaluationTimeNs authzResp) time_Second)]\<rparr>,
                             s), resp, err))
             | _ \<Rightarrow> Some ((m, s), resp, err)))"

subsection \<open>Registered metrics\<close>

definition metrics_ready :: "('c, 'f) prom_lib \<Rightarrow> ('s \<Rightarrow> nat) \<Rightarrow> ('s, 'c, 'f) metrics \<Rightarrow> bool" where
  "metrics_ready lib cnt m \<longleftrightarrow> set registered_names \<subseteq> set (mt_registry m) \<and> mt_registeredCounter m = Some cnt
     \<and> (\<exists>a. mt_allowCounter m = Some a \<and> prom_GetMetricWithLabelValues lib ''allow'' = Inr a)
     \<and> (\<exists>d. mt_denyCounter m = Some d \<and> prom_GetMetricWithLabelValues lib ''deny'' = Inr d)"

lemma Register_ready: "Register lib cnt m = Some m' \<Longrightarrow> metrics_ready lib cnt m' \<and> mt_calls m' = mt_calls m"
  by (auto simp: Register_def MustRegister_package metrics_ready_def split: sum.splits if_splits)

text \<open>The counter of a decision, and the calls that one decision costs.\<close>

definition decision_counter :: "('c, 'f) prom_lib \<Rightarrow> bool \<Rightarrow> 'c" where
  "decision_counter lib allowed =
     projr (prom_GetMetricWithLabelValues lib (if allowed then ''allow'' else ''deny''))"

definition decision_calls :: "('c, 'f) prom_lib \<Rightarrow> CheckAccessResponse \<Rightarrow> ('c, 'f) metric_call list" where
  "decision_calls lib r =
     [Inc (decision_counter lib (crs_Allowed r)),
      Observe (float_quotient lib (crs_EvaluationTimeNs r) time_Second)]"

lemma ready_counters:
  "metrics_ready lib cnt m \<Longrightarrow>
     (if b then mt_allowCounter m else mt_denyCounter m) = Some (decision_counter lib b)"
  by (auto simp: metrics_ready_def decision_counter_def)

lemma UnaryInterceptor_eq:
  assumes "metrics_ready lib cnt m"
  shows "UnaryInterceptor lib (lift_handler handler) (m, s) =
     (case handler s of
        None \<Rightarrow> None
      | Some (s', resp, err) \<Rightarrow>
          Some ((m\<lparr>mt_calls := mt_calls m @
                    (case client_answer (resp, err) of
                       Inl _ \<Rightarrow> []
                     | Inr r \<Rightarrow> decision_calls lib r)\<rparr>, s'), resp, err))"
  using ready_counters [OF assms]
  by (auto simp: UnaryInterceptor_def lift_handler_def client_answer_def decision_calls_def
      split: option.splits message.splits prod.splits)

text \<open>
  The interceptor is transparent and counts exactly the decisions.  Whatever handler it
  wraps, the client sees the handler's own response and error and the handler's effect on the
  state; a call that produced a decision adds one increment of the counter of that decision
  and one observation of the engine's time; a call that failed, or whose response is no
  decision, adds nothing; and it panics only if the handler does.
\<close>

theorem UnaryInterceptor_transparent:
  assumes "metrics_ready lib cnt m"
  shows "UnaryInterceptor lib (lift_handler handler) (m, s) =
     (case handler s of
        None \<Rightarrow> None
      | Some (s', resp, err) \<Rightarrow>
          Some ((m\<lparr>mt_calls := mt_calls m @
                    (case client_answer (resp, err) of
                       Inl _ \<Rightarrow> []
                     | Inr r \<Rightarrow> decision_calls lib r)\<rparr>, s'), resp, err))"
  by (rule UnaryInterceptor_eq [OF assms])

lemma metrics_ready_calls [simp]:
  "metrics_ready lib cnt (m\<lparr>mt_calls := cs\<rparr>) = metrics_ready lib cnt m"
  by (simp add: metrics_ready_def)

lemma mt_calls_idle [simp]: "m\<lparr>mt_calls := mt_calls m @ []\<rparr> = m"
  by simp

text \<open>
  Before \<open>Register\<close> has run the interceptor panics on the first decision instead of losing
  it, and a second \<open>Register\<close> panics; a first one, on a client that resolves both labels,
  succeeds and makes the interceptor ready.
\<close>

theorem Register_once:
  assumes "prom_GetMetricWithLabelValues lib ''allow'' = Inr a"
    and "prom_GetMetricWithLabelValues lib ''deny'' = Inr d"
  shows "(\<exists>m. Register lib cnt initial_metrics = Some m \<and> metrics_ready lib cnt m
            \<and> Register lib cnt' m = None)
    \<and> UnaryInterceptor lib (lift_handler (\<lambda>s. Some (s, ResponseMessage (Some r), None))) (initial_metrics, s) = None"
  using assms
  by (simp add: Register_def MustRegister_package initial_metrics_def metrics_ready_def
      UnaryInterceptor_def lift_handler_def) (simp add: registered_names_def)

subsection \<open>The gauge over a policy counter\<close>

text \<open>The Go interface \<open>PolicyCounter\<close>: one call, that counts what the provider holds.\<close>

locale policy_counter =
  fixes cnt :: "'s \<Rightarrow> nat"
    and holds :: "'s \<Rightarrow> string \<Rightarrow> 'r policy option"
    and good :: "'s \<Rightarrow> bool"
  assumes count_ids: "good s \<Longrightarrow> cnt s = card (dom (holds s))"
begin

lemma gauge:
  "good s \<Longrightarrow> metrics_ready lib cnt m \<Longrightarrow> policyCount m s = card (dom (holds s))"
  by (simp add: metrics_ready_def policyCount_def count_ids)

lemma gauge_after_register:
  "good s \<Longrightarrow> Register lib cnt m0 = Some m \<Longrightarrow> policyCount m s = card (dom (holds s))"
  using gauge Register_ready by blast

end

interpretation counter: policy_counter Count stored store_inv
  by unfold_locales (rule Count_card)

text \<open>
  The policy gauge reports, at every scrape after registration, the number of distinct
  identifiers that the history of updates leaves in the store.
\<close>

theorem policyCount_history:
  assumes "Register lib Count initial_metrics = Some m"
  shows "policyCount m (run_updates UpsertPolicy DeletePolicy us NewPolicyStore)
           = card (dom (foldl table_update (\<lambda>_. None) us))"
  using counter.gauge_after_register [OF conjunct1 [OF store.run] assms]
  by (simp add: conjunct2 [OF store.run])

subsection \<open>Examples for the witnesses\<close>

definition sample_prom :: "(string, int \<times> int) prom_lib" where
  "sample_prom = \<lparr>prom_GetMetricWithLabelValues = Inr, float_quotient = Pair\<rparr>"

definition sample_metrics :: "('s \<Rightarrow> nat) \<Rightarrow> ('s, string, int \<times> int) metrics" where
  "sample_metrics cnt =
     \<lparr>mt_registeredCounter = Some cnt, mt_allowCounter = Some ''allow'',
      mt_denyCounter = Some ''deny'', mt_registry = registered_names, mt_calls = []\<rparr>"

lemma sample_metrics_ready: "metrics_ready sample_prom cnt (sample_metrics cnt)"
  by (simp add: metrics_ready_def sample_prom_def sample_metrics_def)

lemma sample_Register: "Register sample_prom cnt initial_metrics = Some (sample_metrics cnt)"
  by (simp add: Register_def MustRegister_package sample_prom_def initial_metrics_def sample_metrics_def)

definition sample_answer :: CheckAccessResponse where
  "sample_answer = \<lparr>crs_Allowed = False, crs_MatchedPolicyId = [], crs_Reason = ''none'', crs_EvaluationTimeNs = 900\<rparr>"

theorem UnaryInterceptor_transparent_witness:
  "UnaryInterceptor sample_prom
      (lift_handler (\<lambda>s :: unit. Some (s, ResponseMessage (Some sample_answer), None)))
      (sample_metrics Count, ())
    = Some (((sample_metrics Count)\<lparr>mt_calls := [Inc ''deny'', Observe (900, 1000000000)]\<rparr>, ()),
        ResponseMessage (Some sample_answer), None)"
  using UnaryInterceptor_transparent [OF sample_metrics_ready,
      of "\<lambda>s :: unit. Some (s, ResponseMessage (Some sample_answer), None)" Count "()"]
  by (simp add: client_answer_def decision_calls_def decision_counter_def sample_prom_def
      sample_metrics_def sample_answer_def time_Second_def)

theorem Register_once_witness:
  "\<exists>m. Register sample_prom Count initial_metrics = Some m
     \<and> Register sample_prom Count m = None"
  using Register_once [of sample_prom "''allow''" "''deny''" Count Count sample_answer "()"]
  by (auto simp: sample_prom_def)

theorem policyCount_history_witness:
  "policyCount (sample_metrics Count) (run_updates UpsertPolicy DeletePolicy
      [Upsert (role_policy ''a'' AccessAllow ''admin''), Upsert (role_policy ''a'' AccessDeny ''admin'')]
      NewPolicyStore) = 1"
  using policyCount_history [OF sample_Register,
      of "[Upsert (role_policy ''a'' AccessAllow ''admin''), Upsert (role_policy ''a'' AccessDeny ''admin'')]"]
  by simp

end
