(* ===== verification/Audit_Log.thy ===== *)
theory Audit_Log
  imports Bouncer_Prelude
begin

text \<open>
  The asynchronous audit logger, \<open>internal/audit/logger.go\<close>: a bounded channel between the
  request path and a pool of worker goroutines.

  The state is the channel (capacity, buffer, closed flag), the wait group, the program
  counters of the workers and what they have written.  Every transition of one worker is one
  step; \<open>LogDecision\<close> and the \<open>close\<close> of \<open>Stop\<close> are one step each, as channel operations are
  atomic.  The language does not say which of several waiting receivers a send wakes, so that
  choice is an argument.  A panic is \<open>None\<close>.
\<close>

record AuditLog =
  al_PrincipalID :: string
  al_Action :: string
  al_ResourceID :: string
  al_Allowed :: bool
  al_Reason :: string
  al_PolicyId :: string
  al_LatencyNs :: int

text \<open>
  A worker is about to receive, waits in a receive on the empty channel, holds a record that
  it is about to write, or has left its loop and called \<open>Done\<close>.
\<close>

datatype worker = Ready | Parked | Busy AuditLog | Exited

record AuditLogger =
  ch_cap :: nat
  ch_buf :: "AuditLog list"
  ch_closed :: bool
  wg_count :: nat
  lg_workers :: "worker list"
  slog_records :: "AuditLog list"
  slog_warnings :: nat

text \<open>\<open>make\<close> panics on a negative size.\<close>

definition NewAuditLogger :: "int \<Rightarrow> AuditLogger option" where
  "NewAuditLogger bufferSize =
     (if bufferSize < 0 then None
      else Some \<lparr>ch_cap = nat bufferSize, ch_buf = [], ch_closed = False, wg_count = 0,
                 lg_workers = [], slog_records = [], slog_warnings = 0\<rparr>)"

text \<open>The loop of \<open>Start\<close>, one goroutine per round.\<close>

fun start_workers :: "nat \<Rightarrow> AuditLogger \<Rightarrow> AuditLogger" where
  "start_workers 0 l = l"
| "start_workers (Suc n) l =
     start_workers n (l\<lparr>wg_count := Suc (wg_count l), lg_workers := lg_workers l @ [Ready]\<rparr>)"

definition Start_workers :: "int \<Rightarrow> AuditLogger \<Rightarrow> AuditLogger" where
  "Start_workers workers l = start_workers (nat workers) l"

text \<open>The body of the worker goroutine \<open>i\<close>, one scheduling step at a time.\<close>

definition set_worker :: "nat \<Rightarrow> worker \<Rightarrow> AuditLogger \<Rightarrow> AuditLogger" where
  "set_worker i w l = l\<lparr>lg_workers := (lg_workers l)[i := w]\<rparr>"

definition worker_step :: "nat \<Rightarrow> AuditLogger \<Rightarrow> AuditLogger option" where
  "worker_step i l =
     (if length (lg_workers l) \<le> i then None
      else
        (case lg_workers l ! i of
           Ready \<Rightarrow>
             (case ch_buf l of
                r # rest \<Rightarrow> Some (set_worker i (Busy r) (l\<lparr>ch_buf := rest\<rparr>))
              | [] \<Rightarrow>
                  if ch_closed l then Some (set_worker i Exited (l\<lparr>wg_count := wg_count l - 1\<rparr>))
                  else Some (set_worker i Parked l))
         | Parked \<Rightarrow> None
         | Busy r \<Rightarrow> Some (set_worker i Ready (l\<lparr>slog_records := slog_records l @ [r]\<rparr>))
         | Exited \<Rightarrow> None))"

definition parked :: "AuditLogger \<Rightarrow> nat \<Rightarrow> bool" where
  "parked l i \<longleftrightarrow> i < length (lg_workers l) \<and> lg_workers l ! i = Parked"

text \<open>
  The non-blocking send: a panic on a closed channel, else a hand-over to a waiting worker,
  else the buffer, else the default branch.  The flag tells whether the record was accepted.
\<close>

definition LogDecision :: "nat \<Rightarrow> AuditLog \<Rightarrow> AuditLogger \<Rightarrow> (AuditLogger \<times> bool) option" where
  "LogDecision recv record l =
     (if ch_closed l then None
      else if parked l recv then Some (set_worker recv (Busy record) l, True)
      else if length (ch_buf l) < ch_cap l then Some (l\<lparr>ch_buf := ch_buf l @ [record]\<rparr>, True)
      else Some (l\<lparr>slog_warnings := Suc (slog_warnings l)\<rparr>, False))"

text \<open>The receiver chosen is a waiting one whenever there is one.\<close>

definition receiver_ok :: "AuditLogger \<Rightarrow> nat \<Rightarrow> bool" where
  "receiver_ok l recv \<longleftrightarrow> (Parked \<in> set (lg_workers l) \<longrightarrow> parked l recv)"

text \<open>
  \<open>Stop\<close> closes the channel, which wakes every waiting worker, and then blocks until the wait
  group is down to zero.
\<close>

definition Stop_close :: "AuditLogger \<Rightarrow> AuditLogger option" where
  "Stop_close l =
     (if ch_closed l then None
      else Some (l\<lparr>ch_closed := True,
                   lg_workers := map (\<lambda>w. if w = Parked then Ready else w) (lg_workers l)\<rparr>))"

definition Stop_returns :: "AuditLogger \<Rightarrow> bool" where
  "Stop_returns l \<longleftrightarrow> ch_closed l \<and> wg_count l = 0"

lemma LogDecision_open: "\<not> ch_closed l \<Longrightarrow> \<exists>a ok. LogDecision recv r l = Some (a, ok)"
  by (cases "parked l recv"; cases "length (ch_buf l) < ch_cap l") (auto simp: LogDecision_def)

lemma LogDecision_closed: "LogDecision recv r l = Some (a, ok) \<Longrightarrow> ch_closed a = ch_closed l"
  by (auto simp: LogDecision_def set_worker_def split: if_splits)

subsection \<open>Runs of the logger\<close>

datatype audit_event = Accepted AuditLog | Dropped AuditLog | Worked nat | Closed

inductive audit_step :: "AuditLogger \<Rightarrow> audit_event \<Rightarrow> AuditLogger \<Rightarrow> bool" where
  Log_accepted:
    "receiver_ok l recv \<Longrightarrow> LogDecision recv r l = Some (l', True) \<Longrightarrow> audit_step l (Accepted r) l'"
| Log_dropped:
    "receiver_ok l recv \<Longrightarrow> LogDecision recv r l = Some (l', False) \<Longrightarrow> audit_step l (Dropped r) l'"
| Work: "worker_step i l = Some l' \<Longrightarrow> audit_step l (Worked i) l'"
| Close: "Stop_close l = Some l' \<Longrightarrow> audit_step l Closed l'"

inductive_cases audit_stepE: "audit_step l e l'"
inductive_simps audit_step_accepted: "audit_step l (Accepted r) l'"
inductive_simps audit_step_dropped: "audit_step l (Dropped r) l'"
inductive_simps audit_step_worked: "audit_step l (Worked i) l'"
inductive_simps audit_step_closed: "audit_step l Closed l'"

lemmas audit_step_simps = audit_step_accepted audit_step_dropped audit_step_worked audit_step_closed

inductive audit_run :: "AuditLogger \<Rightarrow> audit_event list \<Rightarrow> AuditLogger \<Rightarrow> bool" where
  run_Nil: "audit_run l [] l"
| run_snoc: "audit_run l es l1 \<Longrightarrow> audit_step l1 e l2 \<Longrightarrow> audit_run l (es @ [e]) l2"

definition accepted :: "audit_event list \<Rightarrow> AuditLog list" where
  "accepted es = concat (map (\<lambda>e. case e of Accepted r \<Rightarrow> [r] | _ \<Rightarrow> []) es)"

definition dropped :: "audit_event list \<Rightarrow> AuditLog list" where
  "dropped es = concat (map (\<lambda>e. case e of Dropped r \<Rightarrow> [r] | _ \<Rightarrow> []) es)"

lemma accepted_simps [simp]:
  "accepted [] = []" "accepted (es @ fs) = accepted es @ accepted fs"
  "accepted [Accepted r] = [r]" "accepted [Dropped r] = []" "accepted [Worked i] = []"
  "accepted [Closed] = []"
  by (simp_all add: accepted_def)

lemma dropped_simps [simp]:
  "dropped [] = []" "dropped (es @ fs) = dropped es @ dropped fs"
  "dropped [Accepted r] = []" "dropped [Dropped r] = [r]" "dropped [Worked i] = []"
  "dropped [Closed] = []"
  by (simp_all add: dropped_def)

text \<open>The logger as the program sets it up: \<open>NewAuditLogger\<close>, then \<open>Start\<close>.\<close>

definition started :: "nat \<Rightarrow> nat \<Rightarrow> AuditLogger" where
  "started cap n = Start_workers (int n) (the (NewAuditLogger (int cap)))"

lemma start_workers_fields:
  "start_workers n l = l\<lparr>wg_count := wg_count l + n, lg_workers := lg_workers l @ replicate n Ready\<rparr>"
  by (induction n arbitrary: l) (simp_all add: replicate_app_Cons_same)

lemma started_fields [simp]:
  "ch_cap (started cap n) = cap" "ch_buf (started cap n) = []"
  "ch_closed (started cap n) = False" "wg_count (started cap n) = n"
  "lg_workers (started cap n) = replicate n Ready" "slog_records (started cap n) = []"
  "slog_warnings (started cap n) = 0"
  by (simp_all add: started_def Start_workers_def NewAuditLogger_def start_workers_fields)

subsection \<open>Counting over the pool\<close>

text \<open>A measure of the pool is a sum over its workers; a step changes one summand.\<close>

definition busy_records :: "worker \<Rightarrow> AuditLog multiset" where
  "busy_records w = (case w of Busy r \<Rightarrow> {#r#} | _ \<Rightarrow> {#})"

definition in_flight :: "worker list \<Rightarrow> AuditLog multiset" where
  "in_flight ws = sum_mset (image_mset busy_records (mset ws))"

definition live_count :: "worker list \<Rightarrow> nat" where
  "live_count ws = length (filter (\<lambda>w. w \<noteq> Exited) ws)"

lemma in_flight_update:
  "i < length ws \<Longrightarrow> ws ! i = w \<Longrightarrow>
     in_flight (ws[i := w']) + busy_records w = in_flight ws + busy_records w'"
proof (induction ws arbitrary: i)
  case Nil
  then show ?case by simp
next
  case (Cons x ws)
  then show ?case by (cases i) (auto simp: in_flight_def ac_simps)
qed

lemma live_count_update:
  "i < length ws \<Longrightarrow> ws ! i = w \<Longrightarrow>
     live_count (ws[i := w']) + (if w = Exited then 0 else 1)
       = live_count ws + (if w' = Exited then 0 else 1)"
proof (induction ws arbitrary: i)
  case Nil
  then show ?case by simp
next
  case (Cons x ws)
  then show ?case by (cases i) (auto simp: live_count_def)
qed

lemma busy_records_simps [simp]:
  "busy_records Ready = {#}" "busy_records Parked = {#}" "busy_records (Busy r) = {#r#}"
  "busy_records Exited = {#}"
  by (simp_all add: busy_records_def)

lemma in_flight_wake [simp]: "in_flight (map (\<lambda>w. if w = Parked then Ready else w) ws) = in_flight ws"
  by (induction ws) (auto simp: in_flight_def)

lemma live_count_wake [simp]: "live_count (map (\<lambda>w. if w = Parked then Ready else w) ws) = live_count ws"
  by (induction ws) (auto simp: live_count_def)

lemma set_update_cases: "x \<in> set (ws[i := w]) \<Longrightarrow> x = w \<or> x \<in> set ws"
  by (meson insertE set_update_subset_insert subsetD)

lemmas pool_update = in_flight_update live_count_update

subsection \<open>The invariant\<close>

text \<open>
  The buffer stays within the capacity, the wait group counts the workers that have not left,
  a worker waits only on an empty open channel, and leaves only an empty closed one.
\<close>

definition audit_inv :: "AuditLogger \<Rightarrow> bool" where
  "audit_inv l \<longleftrightarrow> length (ch_buf l) \<le> ch_cap l
     \<and> wg_count l = live_count (lg_workers l)
     \<and> (Parked \<in> set (lg_workers l) \<longrightarrow> ch_buf l = [] \<and> \<not> ch_closed l)
     \<and> (Exited \<in> set (lg_workers l) \<longrightarrow> ch_buf l = [] \<and> ch_closed l)"

lemma audit_invD:
  assumes "audit_inv l"
  shows "length (ch_buf l) \<le> ch_cap l" "wg_count l = live_count (lg_workers l)"
    "Parked \<in> set (lg_workers l) \<Longrightarrow> ch_buf l = [] \<and> \<not> ch_closed l"
    "Exited \<in> set (lg_workers l) \<Longrightarrow> ch_buf l = [] \<and> ch_closed l"
  using assms by (auto simp: audit_inv_def)

lemma audit_inv_started: "audit_inv (started cap n)"
  by (auto simp: audit_inv_def live_count_def)

lemma parked_mem: "parked l i \<Longrightarrow> Parked \<in> set (lg_workers l)"
  unfolding parked_def by (metis nth_mem)

lemma parked_update:
  "parked l i \<Longrightarrow> in_flight ((lg_workers l)[i := Busy r]) = add_mset r (in_flight (lg_workers l))"
  "parked l i \<Longrightarrow> live_count ((lg_workers l)[i := Busy r]) = live_count (lg_workers l)"
  using pool_update [of i "lg_workers l" Parked "Busy r"] by (auto simp: parked_def)

lemma audit_inv_LogDecision:
  assumes "audit_inv l" "LogDecision recv r l = Some (l', ok)" "receiver_ok l recv"
  shows "audit_inv l'"
proof (cases "parked l recv")
  case True
  then show ?thesis
    using assms parked_mem [OF True] parked_update [OF True]
    by (auto simp: LogDecision_def audit_inv_def set_worker_def split: if_splits
        dest!: set_update_cases)
next
  case False
  then have "Parked \<notin> set (lg_workers l)" using assms(3) by (simp add: receiver_ok_def)
  then show ?thesis using False assms(1,2)
    by (auto simp: LogDecision_def audit_inv_def split: if_splits)
qed

text \<open>What a worker step does, by the state of the worker.\<close>

lemma worker_stepE:
  assumes "worker_step i l = Some l'"
  obtains (take) r rest where "i < length (lg_workers l)" "lg_workers l ! i = Ready"
      "ch_buf l = r # rest" "l' = set_worker i (Busy r) (l\<lparr>ch_buf := rest\<rparr>)"
  | (leave) "i < length (lg_workers l)" "lg_workers l ! i = Ready" "ch_buf l = []" "ch_closed l"
      "l' = set_worker i Exited (l\<lparr>wg_count := wg_count l - 1\<rparr>)"
  | (park) "i < length (lg_workers l)" "lg_workers l ! i = Ready" "ch_buf l = []" "\<not> ch_closed l"
      "l' = set_worker i Parked l"
  | (emit) r where "i < length (lg_workers l)" "lg_workers l ! i = Busy r"
      "l' = set_worker i Ready (l\<lparr>slog_records := slog_records l @ [r]\<rparr>)"
  using assms
  by (auto simp: worker_step_def split: if_splits worker.splits list.splits)

lemma audit_inv_worker:
  assumes "audit_inv l" "worker_step i l = Some l'"
  shows "audit_inv l'"
  using assms(2)
proof (cases rule: worker_stepE)
  case (take r rest)
  then show ?thesis using assms(1) live_count_update [of i "lg_workers l" Ready "Busy r"]
    by (auto simp: audit_inv_def set_worker_def dest!: set_update_cases)
next
  case leave
  then show ?thesis using assms(1) live_count_update [of i "lg_workers l" Ready Exited]
    by (auto simp: audit_inv_def set_worker_def dest!: set_update_cases)
next
  case park
  then show ?thesis using assms(1) live_count_update [of i "lg_workers l" Ready Parked]
    by (auto simp: audit_inv_def set_worker_def dest!: set_update_cases)
next
  case (emit r)
  then show ?thesis using assms(1) live_count_update [of i "lg_workers l" "Busy r" Ready]
    by (auto simp: audit_inv_def set_worker_def dest!: set_update_cases)
qed

lemma audit_inv_close: "audit_inv l \<Longrightarrow> Stop_close l = Some l' \<Longrightarrow> audit_inv l'"
  by (auto simp: Stop_close_def audit_inv_def split: if_splits)

lemma audit_inv_step: "audit_step l e l' \<Longrightarrow> audit_inv l \<Longrightarrow> audit_inv l'"
  by (induction rule: audit_step.induct)
     (auto intro: audit_inv_LogDecision audit_inv_worker audit_inv_close)

lemma audit_inv_run: "audit_run l es l' \<Longrightarrow> audit_inv l \<Longrightarrow> audit_inv l'"
  by (induction rule: audit_run.induct) (auto intro: audit_inv_step)

subsection \<open>No record is lost or made up\<close>

text \<open>Where the records are: written, held by a worker, or in the buffer.\<close>

definition audit_content :: "AuditLogger \<Rightarrow> AuditLog multiset" where
  "audit_content l = mset (slog_records l) + in_flight (lg_workers l) + mset (ch_buf l)"

lemma content_worker:
  assumes "worker_step i l = Some l'"
  shows "audit_content l' = audit_content l \<and> slog_warnings l' = slog_warnings l
    \<and> length (lg_workers l') = length (lg_workers l) \<and> ch_closed l' = ch_closed l
    \<and> ch_cap l' = ch_cap l"
  using assms
proof (cases rule: worker_stepE)
  case (take r rest)
  then show ?thesis using in_flight_update [of i "lg_workers l" Ready "Busy r"]
    by (simp add: audit_content_def set_worker_def)
next
  case leave
  then show ?thesis using in_flight_update [of i "lg_workers l" Ready Exited]
    by (simp add: audit_content_def set_worker_def)
next
  case park
  then show ?thesis using in_flight_update [of i "lg_workers l" Ready Parked]
    by (simp add: audit_content_def set_worker_def)
next
  case (emit r)
  then show ?thesis using in_flight_update [of i "lg_workers l" "Busy r" Ready]
    by (simp add: audit_content_def set_worker_def)
qed

lemma content_LogDecision:
  assumes "LogDecision recv r l = Some (l', ok)"
  shows "audit_content l' = audit_content l + (if ok then {#r#} else {#})
    \<and> slog_warnings l' = slog_warnings l + (if ok then 0 else 1)
    \<and> length (lg_workers l') = length (lg_workers l) \<and> ch_cap l' = ch_cap l"
  using assms parked_update [of l recv r]
  by (auto simp: LogDecision_def audit_content_def set_worker_def split: if_splits)

lemma content_close:
  assumes "Stop_close l = Some l'"
  shows "audit_content l' = audit_content l \<and> slog_warnings l' = slog_warnings l
    \<and> length (lg_workers l') = length (lg_workers l) \<and> ch_cap l' = ch_cap l"
  using assms by (auto simp: Stop_close_def audit_content_def split: if_splits)

lemma content_run:
  "audit_run l es l' \<Longrightarrow> audit_content l' = audit_content l + mset (accepted es)
     \<and> slog_warnings l' = slog_warnings l + length (dropped es)
     \<and> length (lg_workers l') = length (lg_workers l) \<and> ch_cap l' = ch_cap l"
proof (induction rule: audit_run.induct)
  case (run_snoc l es l1 e l2)
  from run_snoc.hyps(2) show ?case
    using run_snoc.IH
    by (cases rule: audit_stepE) (auto dest: content_LogDecision content_worker content_close)
qed simp

lemma content_started [simp]: "audit_content (started cap n) = {#}"
  by (induction n) (simp_all add: audit_content_def in_flight_def)

lemma audit_conserved:
  assumes "audit_run (started cap n) es l"
  shows "mset (accepted es) = mset (slog_records l) + in_flight (lg_workers l) + mset (ch_buf l)
    \<and> length (ch_buf l) \<le> cap \<and> slog_warnings l = length (dropped es)"
  using content_run [OF assms] audit_invD(1) [OF audit_inv_run [OF assms audit_inv_started]]
  by (simp add: audit_content_def [of l])

text \<open>
  In every run of the logger the accepted records are exactly the written ones, the ones a
  worker holds and the ones in the buffer, with repetitions, so no record is lost, duplicated
  or made up; the buffer never exceeds its capacity; and there is one warning per dropped
  record.
\<close>

theorem audit_conservation:
  assumes "audit_run (started cap n) es l"
  shows "mset (accepted es) = mset (slog_records l) + in_flight (lg_workers l) + mset (ch_buf l)
    \<and> length (ch_buf l) \<le> cap \<and> slog_warnings l = length (dropped es)"
  by (rule audit_conserved [OF assms])

lemma live_count_0: "live_count ws = 0 \<longleftrightarrow> (\<forall>w \<in> set ws. w = Exited)"
  by (simp add: live_count_def filter_empty_conv)

lemma in_flight_exited: "\<forall>w \<in> set ws. w = Exited \<Longrightarrow> in_flight ws = {#}"
  by (induction ws) (auto simp: in_flight_def)

lemma Stop_drained:
  assumes "audit_run (started cap n) es l" "Stop_returns l" "0 < n"
  shows "mset (slog_records l) = mset (accepted es)"
proof -
  have inv: "audit_inv l" by (rule audit_inv_run [OF assms(1) audit_inv_started])
  have len: "length (lg_workers l) = n" using content_run [OF assms(1)] by simp
  have exited: "\<forall>w \<in> set (lg_workers l). w = Exited"
    using assms(2) audit_invD(2) [OF inv] live_count_0 by (auto simp: Stop_returns_def)
  moreover have "lg_workers l \<noteq> []" using len assms(3) by auto
  ultimately have "Exited \<in> set (lg_workers l)" by (metis last_in_set)
  then have "ch_buf l = []" using audit_invD(4) [OF inv] by blast
  then show ?thesis
    using audit_conserved [OF assms(1)] in_flight_exited [OF exited] by simp
qed

text \<open>
  \<open>Stop\<close> drains the log.  When it returns, every record that was ever accepted has been
  written exactly once, provided the pool has a worker.
\<close>

theorem Stop_drains:
  assumes "audit_run (started cap n) es l" "Stop_returns l" "0 < n"
  shows "mset (slog_records l) = mset (accepted es)"
  by (rule Stop_drained [OF assms])

subsection \<open>Stop returns\<close>

text \<open>The work left after the channel is closed: two steps a record, one to leave.\<close>

definition worker_work :: "worker \<Rightarrow> nat" where
  "worker_work w = (case w of Ready \<Rightarrow> 1 | Parked \<Rightarrow> 0 | Busy _ \<Rightarrow> 2 | Exited \<Rightarrow> 0)"

definition audit_work :: "AuditLogger \<Rightarrow> nat" where
  "audit_work l = 2 * length (ch_buf l) + sum_list (map worker_work (lg_workers l))"

lemma worker_work_simps [simp]:
  "worker_work Ready = 1" "worker_work Parked = 0" "worker_work (Busy r) = 2" "worker_work Exited = 0"
  by (simp_all add: worker_work_def)

lemma pool_work_update:
  "i < length ws \<Longrightarrow> ws ! i = w \<Longrightarrow>
     sum_list (map worker_work (ws[i := w'])) + worker_work w
       = sum_list (map worker_work ws) + worker_work w'"
proof (induction ws arbitrary: i)
  case Nil
  then show ?case by simp
next
  case (Cons x ws)
  then show ?case by (cases i) auto
qed

lemma audit_work_step:
  assumes "worker_step i l = Some l'" "ch_closed l"
  shows "audit_work l' < audit_work l"
  using assms(1)
proof (cases rule: worker_stepE)
  case (take r rest)
  then show ?thesis using pool_work_update [of i "lg_workers l" Ready "Busy r"]
    by (simp add: audit_work_def set_worker_def)
next
  case leave
  then show ?thesis using pool_work_update [of i "lg_workers l" Ready Exited]
    by (simp add: audit_work_def set_worker_def)
next
  case park
  then show ?thesis using assms(2) by simp
next
  case (emit r)
  then show ?thesis using pool_work_update [of i "lg_workers l" "Busy r" Ready]
    by (simp add: audit_work_def set_worker_def)
qed

lemma pool_work_bound: "sum_list (map worker_work ws) \<le> 2 * length ws"
proof (induction ws)
  case (Cons w ws)
  then show ?case by (cases w) auto
qed simp

text \<open>Only workers can still step once the channel is closed; a send or a second close panics.\<close>

lemma closed_step_worked:
  assumes "audit_step l e l'" "ch_closed l"
  shows "\<exists>i. e = Worked i \<and> worker_step i l = Some l'"
  using assms by (cases rule: audit_stepE) (auto simp: LogDecision_def Stop_close_def)

lemma closed_run_work:
  "audit_run l es l' \<Longrightarrow> ch_closed l \<Longrightarrow> ch_closed l' \<and> audit_work l' + length es \<le> audit_work l"
proof (induction rule: audit_run.induct)
  case (run_snoc l es l1 e l2)
  then obtain i where "worker_step i l1 = Some l2" "ch_closed l1"
    using closed_step_worked by blast
  then show ?case using run_snoc.IH run_snoc.prems audit_work_step [of i l1 l2] content_worker [of i l1 l2]
    by simp
qed simp

lemma closed_progress:
  assumes "audit_inv l" "ch_closed l" "\<not> Stop_returns l"
  shows "\<exists>i l'. worker_step i l = Some l'"
proof -
  have "live_count (lg_workers l) \<noteq> 0"
    using assms audit_invD(2) by (auto simp: Stop_returns_def)
  then obtain w where w: "w \<in> set (lg_workers l)" "w \<noteq> Exited" by (auto simp: live_count_0)
  then obtain i where i: "i < length (lg_workers l)" "lg_workers l ! i = w" by (auto simp: in_set_conv_nth)
  have "w \<noteq> Parked" using w(1) assms(2) audit_invD(3) [OF assms(1)] by blast
  then have "worker_step i l \<noteq> None"
    using i w(2) assms(2) by (auto simp: worker_step_def split: worker.splits list.splits)
  then show ?thesis by blast
qed

text \<open>
  C26: \<open>Stop\<close> returns.  Once the channel of a running logger is closed, every schedule of the
  workers ends after at most two steps per buffered record and two per worker, and as long as
  \<open>Stop\<close> has not returned some worker can step; so no schedule blocks it.
\<close>

theorem Stop_terminates:
  assumes "audit_run (started cap n) es0 l0" "Stop_close l0 = Some l"
    and "audit_run l es l'"
  shows "length es \<le> 2 * length (ch_buf l) + 2 * n
    \<and> (Stop_returns l' \<or> (\<exists>i l2. audit_step l' (Worked i) l2))"
proof -
  have closed: "ch_closed l" using assms(2) by (auto simp: Stop_close_def split: if_splits)
  have inv: "audit_inv l'"
    using assms audit_inv_started audit_inv_close audit_inv_run by blast
  have "length (lg_workers l) = n"
    using content_run [OF assms(1)] content_close [OF assms(2)] by simp
  then have "audit_work l \<le> 2 * length (ch_buf l) + 2 * n"
    using pool_work_bound [of "lg_workers l"] by (simp add: audit_work_def)
  moreover have "ch_closed l' \<and> audit_work l' + length es \<le> audit_work l"
    by (rule closed_run_work [OF assms(3) closed])
  ultimately show ?thesis
    using closed_progress [OF inv] by (auto simp: audit_step_worked)
qed

subsection \<open>What the request path sees\<close>

text \<open>
  \<open>LogDecision\<close> never blocks the request path and drops only under overload.  On a running
  logger it panics exactly when the channel is closed; otherwise it returns at once, refuses
  the record exactly when the buffer is at its capacity and no worker waits for one, and a
  refusal changes nothing but the number of warnings.
\<close>

theorem LogDecision_drops_only_full:
  assumes "audit_run (started cap n) es l" "receiver_ok l recv"
  shows "(LogDecision recv r l = None \<longleftrightarrow> ch_closed l)
    \<and> (\<forall>l' ok. LogDecision recv r l = Some (l', ok) \<longrightarrow>
         (\<not> ok \<longleftrightarrow> length (ch_buf l) = cap \<and> Parked \<notin> set (lg_workers l))
         \<and> (\<not> ok \<longrightarrow> l' = l\<lparr>slog_warnings := Suc (slog_warnings l)\<rparr>))"
proof -
  have "ch_cap l = cap" using content_run [OF assms(1)] by simp
  moreover have "length (ch_buf l) \<le> ch_cap l"
    by (rule audit_invD(1) [OF audit_inv_run [OF assms(1) audit_inv_started]])
  ultimately show ?thesis
    using assms(2) parked_mem [of l recv] by (auto simp: LogDecision_def receiver_ok_def)
qed

subsection \<open>Examples for the witnesses\<close>

definition sample_log :: "string \<Rightarrow> AuditLog" where
  "sample_log who =
     \<lparr>al_PrincipalID = who, al_Action = ''READ'', al_ResourceID = ''r-1'', al_Allowed = True,
      al_Reason = ''Matched Policy'', al_PolicyId = ''p-1'', al_LatencyNs = 900\<rparr>"

definition stage :: "AuditLog list \<Rightarrow> bool \<Rightarrow> nat \<Rightarrow> worker \<Rightarrow> AuditLog list \<Rightarrow> AuditLogger" where
  "stage buf closed wg w out =
     \<lparr>ch_cap = 1, ch_buf = buf, ch_closed = closed, wg_count = wg, lg_workers = [w],
      slog_records = out, slog_warnings = 1\<rparr>"

text \<open>One worker, room for one record: the second record is dropped, the first one is drained.\<close>

lemma sample_run_open:
  "audit_run (started 1 1) [Accepted (sample_log ''a''), Dropped (sample_log ''b'')]
     (stage [sample_log ''a''] False 1 Ready [])"
proof -
  let ?l1 = "(started 1 1)\<lparr>ch_buf := [sample_log ''a'']\<rparr>"
  have 1: "audit_run (started 1 1) ([] @ [Accepted (sample_log ''a'')]) ?l1"
    by (rule run_snoc [OF run_Nil], rule Log_accepted [where recv = 0])
       (simp_all add: receiver_ok_def LogDecision_def parked_def)
  have "audit_step ?l1 (Dropped (sample_log ''b'')) (stage [sample_log ''a''] False 1 Ready [])"
    by (rule Log_dropped [where recv = 0])
       (simp_all add: receiver_ok_def LogDecision_def parked_def stage_def started_def
         Start_workers_def NewAuditLogger_def)
  from run_snoc [OF 1 this] show ?thesis by simp
qed

lemma sample_close:
  "Stop_close (stage [sample_log ''a''] False 1 Ready []) = Some (stage [sample_log ''a''] True 1 Ready [])"
  by (simp add: Stop_close_def stage_def)

lemma sample_drain:
  "audit_run (stage [sample_log ''a''] True 1 Ready []) [Worked 0, Worked 0, Worked 0]
     (stage [] True 0 Exited [sample_log ''a''])"
proof -
  have "audit_step (stage [sample_log ''a''] True 1 Ready []) (Worked 0)
          (stage [] True 1 (Busy (sample_log ''a'')) [])"
    "audit_step (stage [] True 1 (Busy (sample_log ''a'')) []) (Worked 0)
          (stage [] True 1 Ready [sample_log ''a''])"
    "audit_step (stage [] True 1 Ready [sample_log ''a'']) (Worked 0)
          (stage [] True 0 Exited [sample_log ''a''])"
    by (simp_all add: audit_step_worked worker_step_def stage_def set_worker_def)
  from run_snoc [OF run_snoc [OF run_snoc [OF run_Nil this(1)] this(2)] this(3)] show ?thesis by simp
qed

lemma audit_run_append: "audit_run l1 fs l2 \<Longrightarrow> audit_run l es l1 \<Longrightarrow> audit_run l (es @ fs) l2"
proof (induction rule: audit_run.induct)
  case (run_snoc l1 fs l2 e l3)
  then show ?case using audit_run.run_snoc [of l "es @ fs" l2 e l3] by simp
qed simp

lemma sample_run_stopped:
  "audit_run (started 1 1)
     ([Accepted (sample_log ''a''), Dropped (sample_log ''b'')] @ [Closed] @ [Worked 0, Worked 0, Worked 0])
     (stage [] True 0 Exited [sample_log ''a''])"
proof -
  have "audit_run (stage [sample_log ''a''] False 1 Ready []) ([] @ [Closed])
      (stage [sample_log ''a''] True 1 Ready [])"
    by (rule run_snoc [OF run_Nil]) (rule Close [OF sample_close])
  then show ?thesis
    using audit_run_append [OF sample_drain] audit_run_append [OF _ sample_run_open] by fastforce
qed

theorem audit_conservation_witness:
  "mset (accepted [Accepted (sample_log ''a''), Dropped (sample_log ''b'')]) = {#sample_log ''a''#}"
  using audit_conservation [OF sample_run_open] by (simp add: stage_def in_flight_def)

theorem Stop_drains_witness:
  "mset (slog_records (stage [] True 0 Exited [sample_log ''a''])) = {#sample_log ''a''#}"
  using Stop_drains [OF sample_run_stopped]
  by (simp add: Stop_returns_def stage_def accepted_def)

theorem Stop_terminates_witness: "length [Worked 0, Worked 0, Worked 0] \<le> 2 * length [sample_log ''a''] + 2 * 1"
  using Stop_terminates [OF sample_run_open sample_close sample_drain] by (simp add: stage_def)

theorem LogDecision_drops_only_full_witness:
  "LogDecision 0 (sample_log ''c'') (stage [sample_log ''a''] False 1 Ready []) \<noteq> None
     \<and> \<not> snd (the (LogDecision 0 (sample_log ''c'') (stage [sample_log ''a''] False 1 Ready [])))"
proof -
  have "receiver_ok (stage [sample_log ''a''] False 1 Ready []) 0"
    by (simp add: receiver_ok_def stage_def)
  from LogDecision_drops_only_full [OF sample_run_open this, of "sample_log ''c''"]
  have "LogDecision 0 (sample_log ''c'') (stage [sample_log ''a''] False 1 Ready []) \<noteq> None"
    "\<forall>l' ok. LogDecision 0 (sample_log ''c'') (stage [sample_log ''a''] False 1 Ready []) = Some (l', ok)
       \<longrightarrow> \<not> ok"
    by (auto simp: stage_def)
  then show ?thesis by (metis not_Some_eq option.sel prod.collapse)
qed

end
