(* ===== verification/Server.thy ===== *)
theory Server
  imports Metrics Audit_Log
begin

text \<open>
  The gRPC server, \<open>internal/server/grpc.go\<close>: the translation of a protobuf request into a
  request of the engine, the call of the engine, the audit record and the translation back.

  The engine is given by its provider, as in \<open>Engine\<close>; the audit logger is the one of
  \<open>Audit_Log\<close>.  The elapsed time and the worker that a hand-over of the audit record wakes
  are arguments.
\<close>

record 'p AuthzServer =
  as_engine :: 'p
  as_audit :: AuditLogger

definition NewAuthzServer :: "'p \<Rightarrow> AuditLogger \<Rightarrow> 'p AuthzServer" where
  "NewAuthzServer e a = \<lparr>as_engine = e, as_audit = a\<rparr>"

text \<open>The body of the range loop of \<open>mapAttributes\<close>.\<close>

definition put_attribute ::
  "(string, string list) gomap \<Rightarrow> string \<times> AttributeValues option \<Rightarrow> (string, string list) gomap" where
  "put_attribute engineAttrs =
     (\<lambda>(k, v). case v of None \<Rightarrow> engineAttrs | Some vals \<Rightarrow> gomap_put k (av_Values vals) engineAttrs)"

definition mapAttributes ::
  "(string, AttributeValues option) gomap \<Rightarrow> (string, string list) gomap" where
  "mapAttributes protoAttrs =
     (if protoAttrs = [] then [] else foldl put_attribute [] protoAttrs)"

definition eval_request :: "CheckAccessRequest \<Rightarrow> EvaluationRequest" where
  "eval_request req =
     \<lparr>req_PrincipalID = crq_PrincipalId req,
      req_PrincipalAttributes = mapAttributes (crq_PrincipalAttributes req),
      req_ResourceType = crq_ResourceType req,
      req_ResourceID = crq_ResourceId req,
      req_ResourceAttributes = mapAttributes (crq_ResourceAttributes req),
      req_Action = crq_Action req,
      req_EnvironmentAttributes = mapAttributes (crq_EnvironmentAttributes req)\<rparr>"

definition audit_record :: "CheckAccessRequest \<Rightarrow> EvaluationResponse \<Rightarrow> AuditLog" where
  "audit_record req evalResp =
     \<lparr>al_PrincipalID = crq_PrincipalId req, al_Action = crq_Action req,
      al_ResourceID = crq_ResourceId req, al_Allowed = resp_Allowed evalResp,
      al_Reason = resp_Reason evalResp, al_PolicyId = resp_MatchedPolicyID evalResp,
      al_LatencyNs = resp_EvaluationTimeNs evalResp\<rparr>"

definition proto_response :: "EvaluationResponse \<Rightarrow> CheckAccessResponse" where
  "proto_response evalResp =
     \<lparr>crs_Allowed = resp_Allowed evalResp, crs_MatchedPolicyId = resp_MatchedPolicyID evalResp,
      crs_Reason = resp_Reason evalResp, crs_EvaluationTimeNs = resp_EvaluationTimeNs evalResp\<rparr>"

definition AuthzServer_CheckAccess ::
  "'r regexp_lib \<Rightarrow> ('p \<Rightarrow> string + 'r PolicySnapshot) \<Rightarrow> int \<Rightarrow> nat
     \<Rightarrow> CheckAccessRequest \<Rightarrow> 'p AuthzServer unary_handler" where
  "AuthzServer_CheckAccess rx listActive elapsed recv req s =
     (case CheckAccess rx listActive (as_engine s) (eval_request req) elapsed of
        Inl err \<Rightarrow> Some (s, ResponseMessage None, Some err)
      | Inr evalResp \<Rightarrow>
          (case LogDecision recv (audit_record req evalResp) (as_audit s) of
             None \<Rightarrow> None
           | Some (audit', _) \<Rightarrow>
               Some (s\<lparr>as_audit := audit'\<rparr>, ResponseMessage (Some (proto_response evalResp)), None)))"

subsection \<open>The attributes that reach the engine\<close>

lemma mapAttributes_foldl:
  "gomap_ok m \<Longrightarrow>
     gomap_get (foldl put_attribute acc m) k
     = (case gomap_get m k of Some (Some vals) \<Rightarrow> Some (av_Values vals) | _ \<Rightarrow> gomap_get acc k)"
proof (induction m arbitrary: acc)
  case Nil
  then show ?case by simp
next
  case (Cons e m)
  obtain k' v where e: "e = (k', v)" by fastforce
  have m: "gomap_ok m \<and> gomap_get m k' = None"
    by (rule gomap_ok_ConsD [of k' v]) (use Cons.prems e in simp)
  from Cons.IH [OF conjunct1 [OF m], of "put_attribute acc e"] show ?case
    using conjunct2 [OF m] by (cases "k = k'") (simp_all add: e put_attribute_def split: option.split)
qed

text \<open>
  The translation of attributes loses nothing but nil entries.  An attribute reaches the
  engine exactly when the message has it with a non-nil value, with exactly its values; a nil
  entry is absent for the engine, so conditions on it do not hold, instead of crashing or
  reading as an empty list.
\<close>

theorem mapAttributes_lookup:
  assumes "gomap_ok protoAttrs"
  shows "gomap_get (mapAttributes protoAttrs) k
    = (case gomap_get protoAttrs k of Some (Some vals) \<Rightarrow> Some (av_Values vals) | _ \<Rightarrow> None)"
  using mapAttributes_foldl [OF assms, of "[]" k] by (simp add: mapAttributes_def split: option.split)

subsection \<open>One evaluation of the server\<close>

lemma AuthzServer_CheckAccess_cases:
  assumes "AuthzServer_CheckAccess rx la t recv req s = Some (s', resp, err)"
  obtains (failed) e where "CheckAccess rx la (as_engine s) (eval_request req) t = Inl e"
      "s' = s" "resp = ResponseMessage None" "err = Some e"
  | (decided) r a ok where "CheckAccess rx la (as_engine s) (eval_request req) t = Inr r"
      "LogDecision recv (audit_record req r) (as_audit s) = Some (a, ok)"
      "s' = s\<lparr>as_audit := a\<rparr>" "resp = ResponseMessage (Some (proto_response r))" "err = None"
  using assms by (auto simp: AuthzServer_CheckAccess_def split: sum.splits option.splits prod.splits)

text \<open>
  The server answers what the engine decided and audits exactly that.  An evaluation error
  reaches the client as an error and leaves no audit record; a decision reaches the client
  unchanged, with one attempt to log a record that carries the same decision, reason, policy
  and time and the request's principal, action and resource; whether the logger accepts or
  drops the record makes no difference to the client or to the engine.
\<close>

theorem AuthzServer_answers_and_audits:
  assumes "\<not> ch_closed (as_audit s)"
  shows "case CheckAccess rx la (as_engine s) (eval_request req) t of
      Inl e \<Rightarrow> AuthzServer_CheckAccess rx la t recv req s = Some (s, ResponseMessage None, Some e)
    | Inr r \<Rightarrow>
        (\<exists>a ok. LogDecision recv (audit_record req r) (as_audit s) = Some (a, ok)
           \<and> AuthzServer_CheckAccess rx la t recv req s
               = Some (s\<lparr>as_audit := a\<rparr>, ResponseMessage (Some (proto_response r)), None))
        \<and> al_Allowed (audit_record req r) = crs_Allowed (proto_response r)
        \<and> al_PolicyId (audit_record req r) = crs_MatchedPolicyId (proto_response r)
        \<and> al_Reason (audit_record req r) = crs_Reason (proto_response r)"
  using assms
  by (auto simp: AuthzServer_CheckAccess_def LogDecision_def audit_record_def proto_response_def
      split: sum.splits)

subsection \<open>The decision service\<close>

text \<open>
  What a policy enforcement point relies on: a call that answers without an error answers with
  the decision of the service in its current state.  The service is a unary handler.
\<close>

locale decision_service =
  fixes serve :: "CheckAccessRequest \<Rightarrow> 's unary_handler"
    and decides :: "'s \<Rightarrow> CheckAccessRequest \<Rightarrow> bool"
    and usable :: "'s \<Rightarrow> bool"
  assumes answer_decides:
    "usable s \<Longrightarrow> serve req s = Some (s', msg, err) \<Longrightarrow> client_answer (msg, err) = Inr r \<Longrightarrow>
       crs_Allowed r = decides s req"
begin

lemma allow_authorized:
  "usable s \<Longrightarrow> serve req s = Some (s', msg, err) \<Longrightarrow> client_answer (msg, err) = Inr r \<Longrightarrow>
     crs_Allowed r \<Longrightarrow> decides s req"
  using answer_decides by blast

text \<open>Putting the metrics interceptor in front of a service keeps the contract.\<close>

lemma intercepted:
  assumes "metrics_ready lib cnt m" "usable s"
    and "UnaryInterceptor lib (lift_handler (serve req)) (m, s) = Some (ms', msg, err)"
    and "client_answer (msg, err) = Inr r"
  shows "crs_Allowed r = decides s req"
  using assms(2,3,4) answer_decides [of s req]
  by (auto simp: UnaryInterceptor_eq [OF assms(1)] split: option.splits)

end

definition server_decides :: "'r regexp_lib \<Rightarrow> 'r PolicyStore AuthzServer \<Rightarrow> CheckAccessRequest \<Rightarrow> bool" where
  "server_decides rx s req = authorized rx (stored (as_engine s)) (eval_request req)"

lemma server_answer_decides:
  assumes "store_inv (as_engine s)" "range_order oa" "range_order od"
    and "AuthzServer_CheckAccess rx (ListActivePolicies oa od) t recv req s = Some (s', msg, err)"
    and "client_answer (msg, err) = Inr r"
  shows "crs_Allowed r = server_decides rx s req"
  using assms(4)
proof (cases rule: AuthzServer_CheckAccess_cases)
  case (failed e)
  then show ?thesis using assms(5) by (simp add: client_answer_def)
next
  case (decided resp a ok)
  then show ?thesis
    using assms(5) store.decision [OF assms(1-3), of rx "eval_request req" t]
    by (auto simp: client_answer_def proto_response_def server_decides_def)
qed

interpretation server: decision_service
  "AuthzServer_CheckAccess rx (ListActivePolicies oa od) t recv" "server_decides rx"
  "\<lambda>s. store_inv (as_engine s) \<and> range_order oa \<and> range_order od"
  for rx oa od t recv
  by unfold_locales (elim conjE, rule server_answer_decides)

subsection \<open>Examples for the witnesses\<close>

definition sample_call :: "string \<Rightarrow> CheckAccessRequest" where
  "sample_call role =
     \<lparr>crq_PrincipalId = ''usr-1'',
      crq_PrincipalAttributes = [(''role'', Some \<lparr>av_Values = [role]\<rparr>), (''team'', None)],
      crq_ResourceType = ''dashboard'', crq_ResourceId = [], crq_ResourceAttributes = [],
      crq_Action = ''READ'', crq_EnvironmentAttributes = []\<rparr>"

lemma eval_sample_call: "eval_request (sample_call role) = sample_request role"
  by (simp add: eval_request_def sample_call_def sample_request_def mapAttributes_def
      put_attribute_def gomap_put_def)

theorem mapAttributes_lookup_witness:
  "gomap_get (mapAttributes (crq_PrincipalAttributes (sample_call ''admin''))) ''role'' = Some [''admin'']
   \<and> gomap_get (mapAttributes (crq_PrincipalAttributes (sample_call ''admin''))) ''team'' = None"
  using mapAttributes_lookup [of "crq_PrincipalAttributes (sample_call ''admin'')"]
  by (simp add: sample_call_def gomap_ok_def)

theorem AuthzServer_answers_and_audits_witness:
  "AuthzServer_CheckAccess literal_regexp (\<lambda>_. Inl ''closed'') 5 0 (sample_call ''admin'')
      (NewAuthzServer () (started 1 1))
    = Some (NewAuthzServer () (started 1 1), ResponseMessage None, Some ''failed to list policies: closed'')"
  using AuthzServer_answers_and_audits [where s = "NewAuthzServer () (started 1 1)"
      and rx = literal_regexp and la = "\<lambda>_. Inl ''closed''" and req = "sample_call ''admin''"
      and t = 5 and recv = 0]
  by (simp add: NewAuthzServer_def CheckAccess_def)

end
