(* ===== verification/Go_Json.thy ===== *)
theory Go_Json
  imports Go_Text
begin

text \<open>
  The JSON reader of the Go library that \<open>json.Unmarshal\<close> runs before it fills a value: bytes to
  tokens, tokens to a tree.  The tokeniser is a state machine over the bytes and the parser a
  machine over the tokens with an explicit stack, as the scanner of the library is, so both
  are total without a bound on the input.  Escapes, surrogate pairs and the replacement of
  ill-formed UTF-8 follow the library's \<open>unquote\<close>; nesting is limited to 10000 as in its
  scanner.
\<close>

datatype json =
    JNull
  | JBool bool
  | JNum string
  | JStr string
  | JArr "json list"
  | JObj "(string \<times> json) list"

subsection \<open>UTF-8\<close>

definition utf8_bytes :: "nat \<Rightarrow> string" where
  "utf8_bytes r =
     (if r < 128 then [char_of r]
      else if r < 2048 then [char_of (192 + r div 64), char_of (128 + r mod 64)]
      else if r < 65536 then
        [char_of (224 + r div 4096), char_of (128 + r div 64 mod 64), char_of (128 + r mod 64)]
      else
        [char_of (240 + r div 262144), char_of (128 + r div 4096 mod 64),
         char_of (128 + r div 64 mod 64), char_of (128 + r mod 64)])"

definition replacement :: string where
  "replacement = utf8_bytes 65533"

definition cont_byte :: "nat \<Rightarrow> nat \<Rightarrow> char \<Rightarrow> bool" where
  "cont_byte lo hi c \<longleftrightarrow> lo \<le> of_char c \<and> of_char c \<le> hi"

text \<open>The length of the well-formed sequence at the front, or 0 if there is none.\<close>

definition utf8_len :: "string \<Rightarrow> nat" where
  "utf8_len s =
     (case s of
        [] \<Rightarrow> 0
      | a # s1 \<Rightarrow>
          (let n = (of_char a :: nat) in
           if n < 128 then 1
           else
             (case s1 of
                [] \<Rightarrow> 0
              | b # s2 \<Rightarrow>
                  if 194 \<le> n \<and> n \<le> 223 then (if cont_byte 128 191 b then 2 else 0)
                  else
                    (case s2 of
                       [] \<Rightarrow> 0
                     | c # s3 \<Rightarrow>
                         if 224 \<le> n \<and> n \<le> 239 then
                           (if cont_byte (if n = 224 then 160 else 128) (if n = 237 then 159 else 191) b
                               \<and> cont_byte 128 191 c then 3 else 0)
                         else
                           (case s3 of
                              [] \<Rightarrow> 0
                            | d # s4 \<Rightarrow>
                                if 240 \<le> n \<and> n \<le> 244 then
                                  (if cont_byte (if n = 240 then 144 else 128) (if n = 244 then 143 else 191) b
                                      \<and> cont_byte 128 191 c \<and> cont_byte 128 191 d then 4 else 0)
                                else 0)))))"

subsection \<open>String literals\<close>

definition hex_digit :: "char \<Rightarrow> nat option" where
  "hex_digit c =
     (let n = of_char c
      in if 48 \<le> n \<and> n \<le> 57 then Some (n - 48)
         else if 97 \<le> n \<and> n \<le> 102 then Some (n - 87)
         else if 65 \<le> n \<and> n \<le> 70 then Some (n - 55) else None)"

text \<open>The four hex digits of an escape; the scanner has checked that they are there.\<close>

definition hex4 :: "string \<Rightarrow> nat" where
  "hex4 s = foldl (\<lambda>acc c. 16 * acc + (case hex_digit c of None \<Rightarrow> 0 | Some d \<Rightarrow> d)) 0 (take 4 s)"

definition high_surrogate :: "nat \<Rightarrow> bool" where
  "high_surrogate r \<longleftrightarrow> 55296 \<le> r \<and> r < 56320"

definition low_surrogate :: "nat \<Rightarrow> bool" where
  "low_surrogate r \<longleftrightarrow> 56320 \<le> r \<and> r < 57344"

definition simple_escape :: "char \<Rightarrow> char option" where
  "simple_escape c =
     (if c = CHR ''b'' then Some (char_of (8 :: nat))
      else if c = CHR ''f'' then Some (char_of (12 :: nat))
      else if c = CHR ''n'' then Some (char_of (10 :: nat))
      else if c = CHR ''r'' then Some (char_of (13 :: nat))
      else if c = CHR ''t'' then Some (char_of (9 :: nat))
      else if c = CHR ''/'' \<or> c = CHR 0x5C \<or> c = CHR 0x22 then Some c
      else None)"

text \<open>The content of a literal whose escapes are well formed, from its raw bytes.\<close>

function unquote :: "string \<Rightarrow> string" where
  "unquote s =
     (case s of
        [] \<Rightarrow> []
      | c # cs \<Rightarrow>
          if c = CHR 0x5C then
            (case cs of
               [] \<Rightarrow> []
             | e # es \<Rightarrow>
                 if e = CHR ''u'' then
                   (let r = hex4 es; rest = drop 4 es in
                    if high_surrogate r \<and> take 2 rest = [CHR 0x5C, CHR ''u'']
                       \<and> low_surrogate (hex4 (drop 2 rest))
                    then utf8_bytes (65536 + 1024 * (r - 55296) + (hex4 (drop 2 rest) - 56320))
                           @ unquote (drop 6 rest)
                    else if high_surrogate r \<or> low_surrogate r then replacement @ unquote rest
                    else utf8_bytes r @ unquote rest)
                 else (case simple_escape e of None \<Rightarrow> [e] | Some x \<Rightarrow> [x]) @ unquote es)
          else
            (let n = utf8_len s in
             if n = 0 then replacement @ unquote cs
             else take n s @ unquote (drop n s)))"
  by pat_completeness auto
termination
  by (relation "measure length") auto

declare unquote.simps [simp del]

subsection \<open>Tokens\<close>

datatype token =
    LBrace | RBrace | LBracket | RBracket | Colon | Comma
  | TStr string | TNum string | TTrue | TFalse | TNull

text \<open>
  The states of the tokeniser: between tokens, inside a literal string (raw bytes in reverse),
  after a backslash, inside the hex digits of an escape, and inside a bare word.
\<close>

datatype lexer = Between | InStr string | InEsc string | InHex nat string | InWord string

definition is_space :: "char \<Rightarrow> bool" where
  "is_space c \<longleftrightarrow> of_char c \<in> {9, 10, 13, 32 :: nat}"

definition word_char :: "char \<Rightarrow> bool" where
  "word_char c \<longleftrightarrow>
     (let n = of_char c :: nat in
      48 \<le> n \<and> n \<le> 57 \<or> 65 \<le> n \<and> n \<le> 90 \<or> 97 \<le> n \<and> n \<le> 122 \<or> n \<in> {43, 45, 46})"

definition punctuation :: "char \<Rightarrow> token option" where
  "punctuation c =
     (if c = CHR 0x7B then Some LBrace else if c = CHR 0x7D then Some RBrace
      else if c = CHR ''['' then Some LBracket else if c = CHR '']'' then Some RBracket
      else if c = CHR '':'' then Some Colon else if c = CHR '','' then Some Comma else None)"

text \<open>Numbers: an optional sign, an integer part, an optional fraction, an optional exponent.\<close>

fun drop_digits :: "string \<Rightarrow> string" where
  "drop_digits [] = []"
| "drop_digits (c # cs) = (if digit_val c \<noteq> None then drop_digits cs else c # cs)"

definition some_digits :: "string \<Rightarrow> string option" where
  "some_digits s =
     (case s of [] \<Rightarrow> None | c # cs \<Rightarrow> if digit_val c \<noteq> None then Some (drop_digits cs) else None)"

definition int_part :: "string \<Rightarrow> string option" where
  "int_part s =
     (case s of [] \<Rightarrow> None | c # cs \<Rightarrow> if c = CHR ''0'' then Some cs else some_digits s)"

definition frac_part :: "string \<Rightarrow> string option" where
  "frac_part s =
     (case s of [] \<Rightarrow> Some [] | c # cs \<Rightarrow> if c = CHR ''.'' then some_digits cs else Some s)"

definition exp_part :: "string \<Rightarrow> string option" where
  "exp_part s =
     (case s of
        [] \<Rightarrow> Some []
      | c # cs \<Rightarrow>
          if c = CHR ''e'' \<or> c = CHR ''E'' then
            (case cs of
               [] \<Rightarrow> None
             | d # ds \<Rightarrow> if d = CHR ''+'' \<or> d = CHR ''-'' then some_digits ds else some_digits cs)
          else Some s)"

definition is_number :: "string \<Rightarrow> bool" where
  "is_number s =
     (let t = (case s of [] \<Rightarrow> [] | c # cs \<Rightarrow> if c = CHR ''-'' then cs else s)
      in Option.bind (Option.bind (int_part t) frac_part) exp_part = Some [])"

definition word_token :: "string \<Rightarrow> token option" where
  "word_token w =
     (if w = ''true'' then Some TTrue else if w = ''false'' then Some TFalse
      else if w = ''null'' then Some TNull else if is_number w then Some (TNum w) else None)"

text \<open>A punctuation mark or a space ends a bare word; any other byte there is an error.\<close>

fun lex :: "lexer \<Rightarrow> string \<Rightarrow> token list option" where
  "lex Between [] = Some []"
| "lex (InWord w) [] = map_option (\<lambda>t. [t]) (word_token (rev w))"
| "lex _ [] = None"
| "lex Between (c # cs) =
     (if is_space c then lex Between cs
      else if c = CHR 0x22 then lex (InStr []) cs
      else (case punctuation c of
              Some t \<Rightarrow> map_option ((#) t) (lex Between cs)
            | None \<Rightarrow> if word_char c then lex (InWord [c]) cs else None))"
| "lex (InWord w) (c # cs) =
     (if word_char c then lex (InWord (c # w)) cs
      else (case word_token (rev w) of
              None \<Rightarrow> None
            | Some t \<Rightarrow>
                if is_space c then map_option ((#) t) (lex Between cs)
                else (case punctuation c of
                        None \<Rightarrow> None
                      | Some p \<Rightarrow> map_option (\<lambda>ts. t # p # ts) (lex Between cs))))"
| "lex (InStr raw) (c # cs) =
     (if c = CHR 0x22 then map_option ((#) (TStr (unquote (rev raw)))) (lex Between cs)
      else if c = CHR 0x5C then lex (InEsc (c # raw)) cs
      else if of_char c < (32 :: nat) then None
      else lex (InStr (c # raw)) cs)"
| "lex (InEsc raw) (c # cs) =
     (if c = CHR ''u'' then lex (InHex 4 (c # raw)) cs
      else if simple_escape c \<noteq> None then lex (InStr (c # raw)) cs
      else None)"
| "lex (InHex n raw) (c # cs) =
     (if hex_digit c = None then None
      else if n \<le> 1 then lex (InStr (c # raw)) cs
      else lex (InHex (n - 1) (c # raw)) cs)"

subsection \<open>Trees\<close>

text \<open>
  The stack of the parser: the open arrays and objects, innermost first, with the elements
  read so far; an open object also has the key whose value is being read.
\<close>

datatype frame = FArr "json list" | FObj "(string \<times> json) list" string

datatype parser =
    WantValue "frame list"
  | WantValueOrEnd "frame list"
  | WantKey "(string \<times> json) list" "frame list"
  | WantKeyOrEnd "frame list"
  | WantColon "(string \<times> json) list" string "frame list"
  | WantSep frame "frame list"
  | Finished json

definition max_depth :: nat where "max_depth = 10000"

fun complete :: "json \<Rightarrow> frame list \<Rightarrow> parser" where
  "complete v [] = Finished v"
| "complete v (FArr vs # st) = WantSep (FArr (vs @ [v])) st"
| "complete v (FObj kvs k # st) = WantSep (FObj (kvs @ [(k, v)]) k) st"

fun start_value :: "token \<Rightarrow> frame list \<Rightarrow> parser option" where
  "start_value (TStr s) st = Some (complete (JStr s) st)"
| "start_value (TNum s) st = Some (complete (JNum s) st)"
| "start_value TTrue st = Some (complete (JBool True) st)"
| "start_value TFalse st = Some (complete (JBool False) st)"
| "start_value TNull st = Some (complete JNull st)"
| "start_value LBracket st = (if length st < max_depth then Some (WantValueOrEnd st) else None)"
| "start_value LBrace st = (if length st < max_depth then Some (WantKeyOrEnd st) else None)"
| "start_value _ st = None"

fun parser_step :: "parser \<Rightarrow> token \<Rightarrow> parser option" where
  "parser_step (WantValue st) t = start_value t st"
| "parser_step (WantValueOrEnd st) t =
     (if t = RBracket then Some (complete (JArr []) st) else start_value t (FArr [] # st))"
| "parser_step (WantKeyOrEnd st) t =
     (case t of
        RBrace \<Rightarrow> Some (complete (JObj []) st)
      | TStr k \<Rightarrow> Some (WantColon [] k st)
      | _ \<Rightarrow> None)"
| "parser_step (WantKey kvs st) t =
     (case t of TStr k \<Rightarrow> Some (WantColon kvs k st) | _ \<Rightarrow> None)"
| "parser_step (WantColon kvs k st) t =
     (if t = Colon then Some (WantValue (FObj kvs k # st)) else None)"
| "parser_step (WantSep (FArr vs) st) t =
     (if t = Comma then Some (WantValue (FArr vs # st))
      else if t = RBracket then Some (complete (JArr vs) st) else None)"
| "parser_step (WantSep (FObj kvs k) st) t =
     (if t = Comma then Some (WantKey kvs st)
      else if t = RBrace then Some (complete (JObj kvs) st) else None)"
| "parser_step (Finished v) t = None"

fun parse_tokens :: "parser \<Rightarrow> token list \<Rightarrow> json option" where
  "parse_tokens p [] = (case p of Finished v \<Rightarrow> Some v | _ \<Rightarrow> None)"
| "parse_tokens p (t # ts) =
     (case parser_step p t of None \<Rightarrow> None | Some p' \<Rightarrow> parse_tokens p' ts)"

definition json_parse :: "string \<Rightarrow> json option" where
  "json_parse s = Option.bind (lex Between s) (parse_tokens (WantValue []))"

end
