(* ===== verification/Policy_Json.thy ===== *)
theory Policy_Json
  imports Policy Go_Json
begin

text \<open>
  \<open>json.Unmarshal\<close> into a \<open>store.Policy\<close>: the field names are the struct tags of
  \<open>internal/store/policy.go\<close>, and the rules for keys, nulls, repeated keys and type mismatches
  are those of the Go library.  An error anywhere makes the result \<open>None\<close>: the library goes on
  after a mismatch, but the caller discards the value when it gets an error.

  A slice that is decoded twice (a repeated key) keeps its old elements as the starting values
  of the new ones, beyond its length too, so a slice is its memory and its length here.
\<close>

subsection \<open>Keys\<close>

text \<open>
  Case folding of a key: ASCII letters, and the two other code points that fold to one, the
  long s (bytes C5 BF) and the Kelvin sign (bytes E2 84 AA).
\<close>

fun fold_key :: "string \<Rightarrow> string" where
  "fold_key [] = []"
| "fold_key [a] = [upper_byte a]"
| "fold_key [a, b] =
     (if a = CHR 0xC5 \<and> b = CHR 0xBF then [CHR ''S''] else [upper_byte a, upper_byte b])"
| "fold_key (a # b # c # cs) =
     (if a = CHR 0xC5 \<and> b = CHR 0xBF then CHR ''S'' # fold_key (c # cs)
      else if a = CHR 0xE2 \<and> b = CHR 0x84 \<and> c = CHR 0xAA then CHR ''K'' # fold_key cs
      else upper_byte a # fold_key (b # c # cs))"

definition key_is :: "string \<Rightarrow> string \<Rightarrow> bool" where
  "key_is k name \<longleftrightarrow> fold_key k = fold_key name"

subsection \<open>Values\<close>

fun decode_string :: "string \<Rightarrow> json \<Rightarrow> string option" where
  "decode_string old JNull = Some old"
| "decode_string old (JStr s) = Some s"
| "decode_string old _ = None"

fun decode_fields :: "('s \<Rightarrow> string \<Rightarrow> json \<Rightarrow> 's option) \<Rightarrow> 's \<Rightarrow> (string \<times> json) list \<Rightarrow> 's option" where
  "decode_fields field s [] = Some s"
| "decode_fields field s ((k, v) # kvs) =
     (case field s k v of None \<Rightarrow> None | Some s' \<Rightarrow> decode_fields field s' kvs)"

definition decode_struct :: "('s \<Rightarrow> string \<Rightarrow> json \<Rightarrow> 's option) \<Rightarrow> 's \<Rightarrow> json \<Rightarrow> 's option" where
  "decode_struct field old j =
     (case j of JNull \<Rightarrow> Some old | JObj kvs \<Rightarrow> decode_fields field old kvs | _ \<Rightarrow> None)"

type_synonym 'a slice = "'a list \<times> nat"

definition slice_list :: "'a slice \<Rightarrow> 'a list" where
  "slice_list s = take (snd s) (fst s)"

text \<open>Decoding the elements of an array over the memory of the slice.\<close>

fun decode_elems :: "('a \<Rightarrow> json \<Rightarrow> 'a option) \<Rightarrow> 'a \<Rightarrow> 'a list \<Rightarrow> json list \<Rightarrow> 'a list option" where
  "decode_elems elem zero mem [] = Some mem"
| "decode_elems elem zero mem (j # js) =
     (case elem (case mem of [] \<Rightarrow> zero | x # _ \<Rightarrow> x) j of
        None \<Rightarrow> None
      | Some x' \<Rightarrow>
          (case decode_elems elem zero (case mem of [] \<Rightarrow> [] | _ # xs \<Rightarrow> xs) js of
             None \<Rightarrow> None
           | Some rest \<Rightarrow> Some (x' # rest)))"

definition decode_slice :: "('a \<Rightarrow> json \<Rightarrow> 'a option) \<Rightarrow> 'a \<Rightarrow> 'a slice \<Rightarrow> json \<Rightarrow> 'a slice option" where
  "decode_slice elem zero old j =
     (case j of
        JNull \<Rightarrow> Some ([], 0)
      | JArr js \<Rightarrow>
          if js = [] then Some ([], 0)
          else (case decode_elems elem zero (fst old) js of
                  None \<Rightarrow> None
                | Some mem \<Rightarrow> Some (mem, length js))
      | _ \<Rightarrow> None)"

subsection \<open>The structs of the policy document\<close>

record raw_condition =
  rc_Attribute :: string
  rc_Operator :: string
  rc_Value :: "string slice"

record raw_policy =
  rp_ID :: string
  rp_Description :: string
  rp_Access :: string
  rp_Target :: target
  rp_Conditions :: "raw_condition slice"

definition zero_target :: target where
  "zero_target = \<lparr>tg_ResourceType = [], tg_Action = []\<rparr>"

definition zero_condition :: raw_condition where
  "zero_condition = \<lparr>rc_Attribute = [], rc_Operator = [], rc_Value = ([], 0)\<rparr>"

definition zero_policy :: raw_policy where
  "zero_policy = \<lparr>rp_ID = [], rp_Description = [], rp_Access = [], rp_Target = zero_target,
     rp_Conditions = ([], 0)\<rparr>"

definition target_field :: "target \<Rightarrow> string \<Rightarrow> json \<Rightarrow> target option" where
  "target_field t k v =
     (if key_is k ''resource_type'' then
        map_option (\<lambda>s. t\<lparr>tg_ResourceType := s\<rparr>) (decode_string (tg_ResourceType t) v)
      else if key_is k ''action'' then
        map_option (\<lambda>s. t\<lparr>tg_Action := s\<rparr>) (decode_string (tg_Action t) v)
      else Some t)"

definition condition_field :: "raw_condition \<Rightarrow> string \<Rightarrow> json \<Rightarrow> raw_condition option" where
  "condition_field c k v =
     (if key_is k ''attribute'' then
        map_option (\<lambda>s. c\<lparr>rc_Attribute := s\<rparr>) (decode_string (rc_Attribute c) v)
      else if key_is k ''operator'' then
        map_option (\<lambda>s. c\<lparr>rc_Operator := s\<rparr>) (decode_string (rc_Operator c) v)
      else if key_is k ''value'' then
        map_option (\<lambda>vs. c\<lparr>rc_Value := vs\<rparr>) (decode_slice decode_string [] (rc_Value c) v)
      else Some c)"

definition policy_field :: "raw_policy \<Rightarrow> string \<Rightarrow> json \<Rightarrow> raw_policy option" where
  "policy_field p k v =
     (if key_is k ''id'' then
        map_option (\<lambda>s. p\<lparr>rp_ID := s\<rparr>) (decode_string (rp_ID p) v)
      else if key_is k ''description'' then
        map_option (\<lambda>s. p\<lparr>rp_Description := s\<rparr>) (decode_string (rp_Description p) v)
      else if key_is k ''access'' then
        map_option (\<lambda>s. p\<lparr>rp_Access := s\<rparr>) (decode_string (rp_Access p) v)
      else if key_is k ''target'' then
        map_option (\<lambda>t. p\<lparr>rp_Target := t\<rparr>) (decode_struct target_field (rp_Target p) v)
      else if key_is k ''conditions'' then
        map_option (\<lambda>cs. p\<lparr>rp_Conditions := cs\<rparr>)
          (decode_slice (decode_struct condition_field) zero_condition (rp_Conditions p) v)
      else Some p)"

definition condition_of_raw :: "raw_condition \<Rightarrow> 'r condition" where
  "condition_of_raw c =
     \<lparr>cond_Attribute = rc_Attribute c, cond_Operator = rc_Operator c,
      cond_Value = slice_list (rc_Value c), cond_CompiledRegex = None\<rparr>"

definition policy_of_raw :: "raw_policy \<Rightarrow> 'r policy" where
  "policy_of_raw p =
     \<lparr>pol_ID = rp_ID p, pol_Description = rp_Description p, pol_Access = rp_Access p,
      pol_Target = rp_Target p,
      pol_Conditions = map condition_of_raw (slice_list (rp_Conditions p))\<rparr>"

definition decode_policy :: "json \<Rightarrow> 'r policy option" where
  "decode_policy j = map_option policy_of_raw (decode_struct policy_field zero_policy j)"

definition Unmarshal_policy :: "string \<Rightarrow> 'r policy option" where
  "Unmarshal_policy s = Option.bind (json_parse s) decode_policy"

subsection \<open>Decoding what an encoder writes\<close>

text \<open>The tree of a policy document, with the keys in the order of the struct.\<close>

definition condition_tree :: "'r condition \<Rightarrow> json" where
  "condition_tree c =
     JObj [(''attribute'', JStr (cond_Attribute c)), (''operator'', JStr (cond_Operator c)),
           (''value'', JArr (map JStr (cond_Value c)))]"

definition policy_tree :: "'r policy \<Rightarrow> json" where
  "policy_tree p =
     JObj [(''id'', JStr (pol_ID p)), (''description'', JStr (pol_Description p)),
           (''access'', JStr (pol_Access p)),
           (''target'', JObj [(''resource_type'', JStr (tg_ResourceType (pol_Target p))),
                              (''action'', JStr (tg_Action (pol_Target p)))]),
           (''conditions'', JArr (map condition_tree (pol_Conditions p)))]"

lemma key_is_refl [simp]: "key_is k k"
  by (simp add: key_is_def)

lemma key_is_policy [simp]:
  "\<not> key_is ''description'' ''id''" "\<not> key_is ''access'' ''id''" "\<not> key_is ''target'' ''id''"
  "\<not> key_is ''conditions'' ''id''" "\<not> key_is ''access'' ''description''"
  "\<not> key_is ''target'' ''description''" "\<not> key_is ''conditions'' ''description''"
  "\<not> key_is ''target'' ''access''" "\<not> key_is ''conditions'' ''access''"
  "\<not> key_is ''conditions'' ''target''"
  by (simp_all add: key_is_def upper_byte_def)

lemma key_is_parts [simp]:
  "\<not> key_is ''action'' ''resource_type''" "\<not> key_is ''operator'' ''attribute''"
  "\<not> key_is ''value'' ''attribute''" "\<not> key_is ''value'' ''operator''"
  by (simp_all add: key_is_def upper_byte_def)

lemma decode_elems_fresh:
  "(\<And>x. x \<in> set xs \<Longrightarrow> elem zero (f x) = Some (g x)) \<Longrightarrow>
     decode_elems elem zero [] (map f xs) = Some (map g xs)"
  by (induction xs) auto

lemma decode_slice_fresh:
  assumes "\<And>x. x \<in> set xs \<Longrightarrow> elem zero (f x) = Some (g x)"
  shows "decode_slice elem zero ([], 0) (JArr (map f xs)) = Some (map g xs, length xs)"
  using decode_elems_fresh [of xs elem zero f g] assms by (simp add: decode_slice_def)

lemma decode_strings_fresh:
  "decode_slice decode_string [] ([], 0) (JArr (map JStr vs)) = Some (vs, length vs)"
  using decode_slice_fresh [of vs decode_string "[]" JStr "\<lambda>v. v"] by simp

definition raw_of_condition :: "'r condition \<Rightarrow> raw_condition" where
  "raw_of_condition c =
     \<lparr>rc_Attribute = cond_Attribute c, rc_Operator = cond_Operator c,
      rc_Value = (cond_Value c, length (cond_Value c))\<rparr>"

lemma decode_condition_tree:
  "decode_struct condition_field zero_condition (condition_tree c) = Some (raw_of_condition c)"
  by (simp add: decode_struct_def condition_tree_def condition_field_def zero_condition_def
      decode_strings_fresh raw_of_condition_def)

lemma condition_of_raw_of [simp]: "condition_of_raw (raw_of_condition c) = source_condition c"
  by (simp add: condition_of_raw_def raw_of_condition_def source_condition_def slice_list_def)

lemma decode_tree: "decode_policy (policy_tree p) = Some (source_policy p)"
proof -
  have "decode_slice (decode_struct condition_field) zero_condition ([], 0)
          (JArr (map condition_tree (pol_Conditions p)))
        = Some (map raw_of_condition (pol_Conditions p), length (pol_Conditions p))"
    by (rule decode_slice_fresh) (rule decode_condition_tree)
  then show ?thesis
    by (simp add: decode_policy_def decode_struct_def policy_tree_def policy_field_def
        target_field_def zero_policy_def zero_target_def policy_of_raw_def source_policy_def
        slice_list_def comp_def)
qed

end
