(* ===== verification/Json_Print.thy ===== *)
theory Json_Print
  imports Policy_Json
begin

text \<open>
  A printer of JSON documents and the proof that the reader inverts it, from the bytes up: a
  printed string is read back, a printed tree is read back, and the document of a policy
  decodes to the policy.  The publishers of the repository write such documents; the printer
  escapes what JSON requires to be escaped and nothing else.
\<close>

subsection \<open>Strings\<close>

definition hex_char :: "nat \<Rightarrow> char" where
  "hex_char d = char_of (if d < 10 then 48 + d else 87 + d)"

definition escape_char :: "char \<Rightarrow> string" where
  "escape_char c =
     (if c = CHR 0x22 \<or> c = CHR 0x5C then [CHR 0x5C, c]
      else if of_char c < (32 :: nat) then
        [CHR 0x5C, CHR ''u'', CHR ''0'', CHR ''0'', hex_char (of_char c div 16), hex_char (of_char c mod 16)]
      else [c])"

definition escape :: "string \<Rightarrow> string" where
  "escape s = concat (map escape_char s)"

definition quote_string :: "string \<Rightarrow> string" where
  "quote_string s = CHR 0x22 # escape s @ [CHR 0x22]"

lemma escape_simps [simp]:
  "escape [] = []" "escape (c # s) = escape_char c @ escape s" "escape (s @ t) = escape s @ escape t"
  by (simp_all add: escape_def)

lemma hex_digit_char [simp]: "d < 16 \<Longrightarrow> hex_digit (hex_char d) = Some d"
  by (auto simp: hex_digit_def hex_char_def of_char_of Let_def)

lemma hex_digit_0 [simp]: "hex_digit (CHR ''0'') = Some 0"
  by (simp add: hex_digit_def)

lemma hex4_escape:
  assumes "n < 256"
  shows "hex4 (CHR ''0'' # CHR ''0'' # hex_char (n div 16) # hex_char (n mod 16) # s) = n"
proof -
  have "n div 16 < 16" using assms by linarith
  then show ?thesis by (simp add: hex4_def)
qed

text \<open>Reading an escaped string up to its closing quote.\<close>

lemma lex_escape_char:
  "lex (InStr raw) (escape_char c @ rest) = lex (InStr (rev (escape_char c) @ raw)) rest"
proof -
  consider "c = CHR 0x22 \<or> c = CHR 0x5C"
    | "c \<noteq> CHR 0x22" "c \<noteq> CHR 0x5C" "of_char c < (32 :: nat)"
    | "c \<noteq> CHR 0x22" "c \<noteq> CHR 0x5C" "\<not> of_char c < (32 :: nat)" by blast
  then show ?thesis
  proof cases
    case 1
    then show ?thesis
      by (elim disjE) (simp_all add: escape_char_def simple_escape_def)
  next
    case 2
    then have "of_char c div 16 < (16 :: nat)" by linarith
    then show ?thesis using 2 by (simp add: escape_char_def simple_escape_def)
  next
    case 3
    then show ?thesis by (simp add: escape_char_def)
  qed
qed

lemma lex_escape: "lex (InStr raw) (escape s @ rest) = lex (InStr (rev (escape s) @ raw)) rest"
proof (induction s arbitrary: raw)
  case (Cons c s)
  then show ?case by (simp add: lex_escape_char)
qed simp

lemma lex_quote_string:
  "lex Between (quote_string s @ rest) = map_option ((#) (TStr (unquote (escape s)))) (lex Between rest)"
proof -
  have "lex Between (quote_string s @ rest) = lex (InStr []) (escape s @ CHR 0x22 # rest)"
    by (simp add: quote_string_def is_space_def)
  then show ?thesis by (simp add: lex_escape)
qed

text \<open>Well-formed UTF-8, sequence by sequence.\<close>

function valid_utf8 :: "string \<Rightarrow> bool" where
  "valid_utf8 s =
     (if s = [] then True else if utf8_len s = 0 then False
      else valid_utf8 (drop (utf8_len s) s))"
  by pat_completeness auto
termination
  by (relation "measure length") auto

declare valid_utf8.simps [simp del]

text \<open>The four shapes of a well-formed sequence at the front of a string.\<close>

lemma utf8_len_cases:
  assumes "utf8_len s = n" "0 < n"
  obtains (one) a s' where "s = a # s'" "n = 1" "of_char a < (128 :: nat)"
  | (two) a b s' where "s = a # b # s'" "n = 2" "194 \<le> (of_char a :: nat)" "(of_char a :: nat) \<le> 223"
      "cont_byte 128 191 b"
  | (three) a b c s' where "s = a # b # c # s'" "n = 3" "224 \<le> (of_char a :: nat)" "(of_char a :: nat) \<le> 239"
      "cont_byte (if (of_char a :: nat) = 224 then 160 else 128) (if (of_char a :: nat) = 237 then 159 else 191) b"
      "cont_byte 128 191 c"
  | (four) a b c d s' where "s = a # b # c # d # s'" "n = 4" "240 \<le> (of_char a :: nat)" "(of_char a :: nat) \<le> 244"
      "cont_byte (if (of_char a :: nat) = 240 then 144 else 128) (if (of_char a :: nat) = 244 then 143 else 191) b"
      "cont_byte 128 191 c" "cont_byte 128 191 d"
  using assms by (auto simp: utf8_len_def Let_def split: list.splits if_splits)

lemma cont_byte_high: "cont_byte lo hi c \<Longrightarrow> 128 \<le> lo \<Longrightarrow> 128 \<le> (of_char c :: nat)"
  by (simp add: cont_byte_def)

lemma utf8_len_append:
  assumes "0 < utf8_len s"
  shows "utf8_len (take (utf8_len s) s @ t) = utf8_len s"
  using refl assms
  by (cases rule: utf8_len_cases) (auto simp: utf8_len_def)

lemma utf8_len_multi:
  assumes "1 < utf8_len s" "c \<in> set (take (utf8_len s) s)"
  shows "128 \<le> (of_char c :: nat)"
proof -
  have "0 < utf8_len s" using assms(1) by simp
  with refl show ?thesis
    by (cases rule: utf8_len_cases)
       (use assms in \<open>auto dest: cont_byte_high split: if_splits\<close>)
qed

lemma escape_high: "(\<And>c. c \<in> set s \<Longrightarrow> 128 \<le> (of_char c :: nat)) \<Longrightarrow> escape s = s"
proof (induction s)
  case (Cons c s)
  have "128 \<le> (of_char c :: nat)" using Cons.prems by simp
  then have "c \<noteq> CHR 0x22" "c \<noteq> CHR 0x5C" "\<not> of_char c < (32 :: nat)" by auto
  then have "escape_char c = [c]" by (simp add: escape_char_def)
  with Cons show ?case by simp
qed simp

lemma unquote_Nil [simp]: "unquote [] = []"
  by (simp add: unquote.simps)

lemma unquote_sequence:
  assumes "0 < utf8_len s" "hd s \<noteq> CHR 0x5C"
  shows "unquote s = take (utf8_len s) s @ unquote (drop (utf8_len s) s)"
proof -
  obtain c cs where "s = c # cs" using assms(1) by (cases s) (auto simp: utf8_len_def)
  then show ?thesis using assms by (subst unquote.simps) (simp add: Let_def)
qed

lemma unquote_escape_char:
  assumes "of_char c < (128 :: nat)"
  shows "unquote (escape_char c @ rest) = c # unquote rest"
proof -
  consider "c = CHR 0x22 \<or> c = CHR 0x5C"
    | "c \<noteq> CHR 0x22" "c \<noteq> CHR 0x5C" "of_char c < (32 :: nat)"
    | "c \<noteq> CHR 0x22" "c \<noteq> CHR 0x5C" "\<not> of_char c < (32 :: nat)" by blast
  then show ?thesis
  proof cases
    case 1
    then show ?thesis
      by (elim disjE) (simp_all add: escape_char_def unquote.simps [of "CHR 0x5C # _"] simple_escape_def)
  next
    case 2
    let ?n = "of_char c :: nat"
    have "\<not> high_surrogate ?n" "\<not> low_surrogate ?n" "utf8_bytes ?n = [c]"
      using 2 by (simp_all add: high_surrogate_def low_surrogate_def utf8_bytes_def)
    then show ?thesis
      using 2 by (simp add: escape_char_def unquote.simps [of "CHR 0x5C # _"] hex4_escape Let_def)
  next
    case 3
    have "utf8_len (c # rest) = 1" using assms by (simp add: utf8_len_def)
    then show ?thesis using 3 unquote_sequence [of "c # rest"] by (simp add: escape_char_def)
  qed
qed

lemma unquote_escape: "valid_utf8 s \<Longrightarrow> unquote (escape s) = s"
proof (induction s rule: valid_utf8.induct)
  case (1 s)
  show ?case
  proof (cases "s = []")
    case False
    let ?n = "utf8_len s"
    have pos: "0 < ?n" using "1.prems" False by (subst (asm) valid_utf8.simps) (auto split: if_splits)
    have "valid_utf8 (drop ?n s)"
      using "1.prems" False by (subst (asm) valid_utf8.simps) (auto split: if_splits)
    then have ih: "unquote (escape (drop ?n s)) = drop ?n s" using "1.IH" False pos by simp
    show ?thesis
    proof (cases "?n = 1")
      case True
      have "\<exists>a s'. s = a # s' \<and> of_char a < (128 :: nat)"
        using refl pos by (cases rule: utf8_len_cases) (use True in auto)
      then obtain a s' where s: "s = a # s'" "of_char a < (128 :: nat)" by blast
      then show ?thesis using ih True by (simp add: unquote_escape_char)
    next
      case False
      then have n: "1 < ?n" using pos by simp
      have "escape (take ?n s) = take ?n s" by (rule escape_high) (rule utf8_len_multi [OF n])
      then have esc: "escape s = take ?n s @ escape (drop ?n s)"
        by (metis append_take_drop_id escape_simps(3))
      have len: "utf8_len (escape s) = ?n" unfolding esc by (rule utf8_len_append [OF pos])
      have "hd (escape s) \<in> set (take ?n s)"
        unfolding esc using pos \<open>s \<noteq> []\<close> by (cases s; cases ?n) auto
      then have "128 \<le> (of_char (hd (escape s)) :: nat)" by (rule utf8_len_multi [OF n])
      then have "hd (escape s) \<noteq> CHR 0x5C" by auto
      moreover have "?n \<le> length s" using refl pos by (cases rule: utf8_len_cases) auto
      ultimately show ?thesis
        using unquote_sequence [of "escape s"] pos ih by (simp add: len) (simp add: esc)
    qed
  qed simp
qed

subsection \<open>Trees\<close>

text \<open>The documents that the printer handles: objects, arrays and well-formed strings, to a depth.\<close>

fun printable :: "nat \<Rightarrow> json \<Rightarrow> bool" where
  "printable d (JStr s) = valid_utf8 s"
| "printable d (JArr js) = (0 < d \<and> (\<forall>j \<in> set js. printable (d - 1) j))"
| "printable d (JObj kvs) = (0 < d \<and> (\<forall>(k, v) \<in> set kvs. valid_utf8 k \<and> printable (d - 1) v))"
| "printable d _ = False"

fun json_print :: "json \<Rightarrow> string" where
  "json_print (JStr s) = quote_string s"
| "json_print (JArr js) = CHR ''['' # strings_Join (map json_print js) '','' @ '']''"
| "json_print (JObj kvs) =
     CHR 0x7B # strings_Join (map (\<lambda>(k, v). quote_string k @ CHR '':'' # json_print v) kvs) '','' @ [CHR 0x7D]"
| "json_print (JNum s) = s"
| "json_print (JBool b) = (if b then ''true'' else ''false'')"
| "json_print JNull = ''null''"

fun sep_tokens :: "token list list \<Rightarrow> token list" where
  "sep_tokens [] = []"
| "sep_tokens [ts] = ts"
| "sep_tokens (ts # us # tss) = ts @ Comma # sep_tokens (us # tss)"

fun json_tokens :: "json \<Rightarrow> token list" where
  "json_tokens (JStr s) = [TStr s]"
| "json_tokens (JArr js) = LBracket # sep_tokens (map json_tokens js) @ [RBracket]"
| "json_tokens (JObj kvs) =
     LBrace # sep_tokens (map (\<lambda>(k, v). TStr k # Colon # json_tokens v) kvs) @ [RBrace]"
| "json_tokens (JNum s) = [TNum s]"
| "json_tokens (JBool b) = [if b then TTrue else TFalse]"
| "json_tokens JNull = [TNull]"

text \<open>A text is read as a list of tokens, whatever follows it.\<close>

definition lexes_to :: "string \<Rightarrow> token list \<Rightarrow> bool" where
  "lexes_to s ts \<longleftrightarrow> (\<forall>rest. lex Between (s @ rest) = map_option ((@) ts) (lex Between rest))"

lemma lexes_to_Nil: "lexes_to [] []"
  by (simp add: lexes_to_def map_option_case split: option.split)

lemma lexes_to_append: "lexes_to s ts \<Longrightarrow> lexes_to s' ts' \<Longrightarrow> lexes_to (s @ s') (ts @ ts')"
  by (simp add: lexes_to_def map_option_case split: option.split)

lemma lexes_to_punctuation:
  assumes "punctuation c = Some t" "\<not> is_space c" "c \<noteq> CHR 0x22"
  shows "lexes_to [c] [t]"
  using assms by (simp add: lexes_to_def map_option_case split: option.split)

lemma lexes_to_marks:
  "lexes_to '','' [Comma]" "lexes_to '':'' [Colon]" "lexes_to ''['' [LBracket]" "lexes_to '']'' [RBracket]"
  "lexes_to [CHR 0x7B] [LBrace]" "lexes_to [CHR 0x7D] [RBrace]"
  by (rule lexes_to_punctuation; simp add: punctuation_def is_space_def)+

lemma lexes_to_quote: "valid_utf8 s \<Longrightarrow> lexes_to (quote_string s) [TStr s]"
  using lex_quote_string [of s] unquote_escape [of s]
  by (simp add: lexes_to_def map_option_case split: option.split)

lemma lexes_to_join:
  "(\<And>x. x \<in> set xs \<Longrightarrow> lexes_to (f x) (g x)) \<Longrightarrow> lexes_to (strings_Join (map f xs) '','') (sep_tokens (map g xs))"
proof (induction xs)
  case (Cons x xs)
  show ?case
  proof (cases xs)
    case Nil
    then show ?thesis using Cons.prems by simp
  next
    case (Cons y ys)
    have "lexes_to (f x @ '','' @ strings_Join (map f xs) '','') (g x @ [Comma] @ sep_tokens (map g xs))"
      using Cons.IH Cons.prems by (intro lexes_to_append lexes_to_marks) auto
    then show ?thesis by (simp add: Cons)
  qed
qed (simp add: lexes_to_Nil)

lemma lexes_to_print: "printable d j \<Longrightarrow> lexes_to (json_print j) (json_tokens j)"
proof (induction d j rule: printable.induct)
  case (1 d s)
  then show ?case by (simp add: lexes_to_quote)
next
  case (2 d js)
  have "lexes_to (''['' @ strings_Join (map json_print js) '','' @ '']'')
      ([LBracket] @ sep_tokens (map json_tokens js) @ [RBracket])"
    using 2 by (intro lexes_to_append lexes_to_marks lexes_to_join) auto
  then show ?case by simp
next
  case (3 d kvs)
  have kv: "lexes_to ((\<lambda>(k, v). quote_string k @ CHR '':'' # json_print v) e)
      ((\<lambda>(k, v). TStr k # Colon # json_tokens v) e)" if "e \<in> set kvs" for e
  proof -
    obtain k v where e: "e = (k, v)" by fastforce
    have "valid_utf8 k" "lexes_to (json_print v) (json_tokens v)" using 3 that e by auto
    then have "lexes_to (quote_string k @ '':'' @ json_print v) ([TStr k] @ [Colon] @ json_tokens v)"
      by (intro lexes_to_append lexes_to_marks lexes_to_quote)
    then show ?thesis by (simp add: e)
  qed
  have "lexes_to ([CHR 0x7B] @ strings_Join (map (\<lambda>(k, v). quote_string k @ CHR '':'' # json_print v) kvs) '','' @ [CHR 0x7D])
      ([LBrace] @ sep_tokens (map (\<lambda>(k, v). TStr k # Colon # json_tokens v) kvs) @ [RBrace])"
    by (intro lexes_to_append lexes_to_marks lexes_to_join kv)
  then show ?case by simp
qed simp_all

subsection \<open>Reading the tokens back\<close>

lemma sep_tokens_Cons:
  "sep_tokens (ts # tss) = ts @ concat (map (\<lambda>us. Comma # us) tss)"
  by (induction tss arbitrary: ts) auto

text \<open>A state that reads the tokens of a value and then has the value in place.\<close>

definition reads :: "json \<Rightarrow> frame list \<Rightarrow> bool" where
  "reads j st \<longleftrightarrow>
     (\<forall>ts. parse_tokens (WantValue st) (json_tokens j @ ts) = parse_tokens (complete j st) ts)"

lemma parse_array_rest:
  "(\<And>j ws. j \<in> set js \<Longrightarrow> reads j (FArr ws # st)) \<Longrightarrow>
     parse_tokens (WantSep (FArr vs) st)
       (concat (map (\<lambda>us. Comma # us) (map json_tokens js)) @ RBracket # ts)
     = parse_tokens (complete (JArr (vs @ js)) st) ts"
proof (induction js arbitrary: vs)
  case (Cons j js)
  have "reads j (FArr vs # st)" using Cons.prems by simp
  then show ?case using Cons.IH [of "vs @ [j]"] Cons.prems by (simp add: reads_def)
qed simp

lemma parse_object_rest:
  "(\<And>e ws k'. e \<in> set kvs \<Longrightarrow> reads (snd e) (FObj ws k' # st)) \<Longrightarrow>
     parse_tokens (WantSep (FObj ws k0) st)
       (concat (map (\<lambda>us. Comma # us) (map (\<lambda>(k, v). TStr k # Colon # json_tokens v) kvs)) @ RBrace # ts)
     = parse_tokens (complete (JObj (ws @ kvs)) st) ts"
proof (induction kvs arbitrary: ws k0)
  case (Cons e kvs)
  obtain k v where e: "e = (k, v)" by fastforce
  have "reads v (FObj ws k # st)" using Cons.prems [of e] by (simp add: e)
  then show ?case using Cons.IH [of "ws @ [(k, v)]" k] Cons.prems by (simp add: reads_def e)
qed simp

text \<open>A printed value starts with a token that starts a value.\<close>

lemma json_tokens_start:
  "json_tokens j = t # ts \<Longrightarrow> t \<noteq> RBracket"
  by (cases j) (auto split: if_splits)

lemma json_tokens_nonempty: "json_tokens j \<noteq> []"
  by (cases j) auto

lemma parse_first_element:
  "parse_tokens (WantValueOrEnd st) (json_tokens j @ ts) = parse_tokens (WantValue (FArr [] # st)) (json_tokens j @ ts)"
proof -
  obtain t us where "json_tokens j = t # us" using json_tokens_nonempty by (cases "json_tokens j") auto
  then show ?thesis using json_tokens_start by auto
qed

lemma reads_array:
  assumes "length st < max_depth" "\<And>j ws. j \<in> set js \<Longrightarrow> reads j (FArr ws # st)"
  shows "reads (JArr js) st"
proof (cases js)
  case Nil
  then show ?thesis using assms(1) by (simp add: reads_def)
next
  case (Cons j js')
  have "parse_tokens (WantValue st) (json_tokens (JArr js) @ ts) = parse_tokens (complete (JArr js) st) ts" for ts
  proof -
    have "reads j (FArr [] # st)" using assms(2) Cons by simp
    then show ?thesis
      using assms(1) parse_array_rest [of js' st "[j]" ts] assms(2) Cons
      by (simp add: sep_tokens_Cons parse_first_element reads_def)
  qed
  then show ?thesis by (simp add: reads_def)
qed

lemma reads_object:
  assumes "length st < max_depth" "\<And>e ws k'. e \<in> set kvs \<Longrightarrow> reads (snd e) (FObj ws k' # st)"
  shows "reads (JObj kvs) st"
proof (cases kvs)
  case Nil
  then show ?thesis using assms(1) by (simp add: reads_def)
next
  case (Cons e kvs')
  obtain k v where e: "e = (k, v)" by fastforce
  have "parse_tokens (WantValue st) (json_tokens (JObj kvs) @ ts) = parse_tokens (complete (JObj kvs) st) ts" for ts
  proof -
    have "reads v (FObj [] k # st)" using assms(2) [of e] by (simp add: Cons e)
    then show ?thesis
      using assms(1) parse_object_rest [of kvs' st "[(k, v)]" k ts] assms(2) Cons
      by (simp add: sep_tokens_Cons reads_def e)
  qed
  then show ?thesis by (simp add: reads_def)
qed

lemma reads_printable: "printable d j \<Longrightarrow> d + length st \<le> max_depth \<Longrightarrow> reads j st"
proof (induction d j arbitrary: st rule: printable.induct)
  case (2 d js)
  show ?case
  proof (rule reads_array)
    show "length st < max_depth" using "2.prems" by simp
    show "reads j (FArr ws # st)" if "j \<in> set js" for j ws
      using "2.IH" [OF that, of "FArr ws # st"] "2.prems" that by simp
  qed
next
  case (3 d kvs)
  show ?case
  proof (rule reads_object)
    show "length st < max_depth" using "3.prems" by simp
    show "reads (snd e) (FObj ws k' # st)" if "e \<in> set kvs" for e ws k'
    proof -
      obtain k v where e: "e = (k, v)" by fastforce
      show ?thesis using "3.IH" [OF that e [symmetric], of "FObj ws k' # st"] "3.prems" that e by auto
    qed
  qed
qed (simp_all add: reads_def)

text \<open>The reader inverts the printer.\<close>

lemma json_parse_print:
  assumes "printable d j" "d \<le> max_depth"
  shows "json_parse (json_print j) = Some j"
proof -
  have "lex Between (json_print j) = Some (json_tokens j)"
    using lexes_to_print [OF assms(1)] unfolding lexes_to_def by (metis append_Nil2 lex.simps(1) option.simps(9))
  moreover have "reads j []" using reads_printable [OF assms(1), of "[]"] assms(2) by simp
  then have "parse_tokens (WantValue []) (json_tokens j @ []) = parse_tokens (complete j []) []"
    unfolding reads_def by blast
  ultimately show ?thesis by (simp add: json_parse_def)
qed

subsection \<open>Policy documents\<close>

definition valid_condition :: "'r condition \<Rightarrow> bool" where
  "valid_condition c \<longleftrightarrow> valid_utf8 (cond_Attribute c) \<and> valid_utf8 (cond_Operator c)
     \<and> (\<forall>v \<in> set (cond_Value c). valid_utf8 v)"

text \<open>A policy whose strings are well-formed UTF-8.\<close>

definition valid_policy :: "'r policy \<Rightarrow> bool" where
  "valid_policy p \<longleftrightarrow> valid_utf8 (pol_ID p) \<and> valid_utf8 (pol_Description p) \<and> valid_utf8 (pol_Access p)
     \<and> valid_utf8 (tg_ResourceType (pol_Target p)) \<and> valid_utf8 (tg_Action (pol_Target p))
     \<and> (\<forall>c \<in> set (pol_Conditions p). valid_condition c)"

definition policy_document :: "'r policy \<Rightarrow> string" where
  "policy_document p = json_print (policy_tree p)"

lemma valid_ascii: "\<forall>c \<in> set s. of_char c < (128 :: nat) \<Longrightarrow> valid_utf8 s"
proof (induction s)
  case (Cons c s)
  have "utf8_len (c # s) = 1" using Cons.prems by (simp add: utf8_len_def)
  then show ?case using Cons by (subst valid_utf8.simps) simp
qed (simp add: valid_utf8.simps)

lemma valid_keys:
  "valid_utf8 ''id''" "valid_utf8 ''description''" "valid_utf8 ''access''" "valid_utf8 ''target''"
  "valid_utf8 ''conditions''" "valid_utf8 ''resource_type''" "valid_utf8 ''action''"
  "valid_utf8 ''attribute''" "valid_utf8 ''operator''" "valid_utf8 ''value''"
  by (rule valid_ascii, simp)+

lemma printable_condition: "valid_condition c \<Longrightarrow> printable 2 (condition_tree c)"
  by (auto simp: condition_tree_def valid_condition_def valid_keys)

lemma printable_policy: "valid_policy p \<Longrightarrow> printable 4 (policy_tree p)"
  by (auto simp: policy_tree_def valid_policy_def valid_keys printable_condition)

lemma Unmarshal_document:
  "valid_policy p \<Longrightarrow> Unmarshal_policy (policy_document p) = Some (source_policy p)"
  using json_parse_print [OF printable_policy, of p]
  by (simp add: Unmarshal_policy_def policy_document_def max_depth_def decode_tree)

text \<open>
  C35: publishing loses nothing.  For every policy whose strings are well-formed UTF-8, reading
  the bytes of its document gives the policy back, with every field of the target and of every
  condition; only the compiled expressions, which are not part of a document, start out empty.
\<close>

theorem document_roundtrip:
  assumes "valid_policy p"
  shows "Unmarshal_policy (policy_document p) = Some (source_policy p)"
  by (rule Unmarshal_document [OF assms])

definition quoted_policy :: "string policy" where
  "quoted_policy =
     mk_policy ''p-1'' AccessAllow ''dashboard'' ''READ''
       [mk_condition ''principal.name'' ''EQUALS'' [[CHR 0xC3, CHR 0xA9, CHR 0x22, CHR 0x0A, CHR 0x5C]]]"

theorem document_roundtrip_witness:
  "Unmarshal_policy (policy_document quoted_policy) = Some quoted_policy"
proof -
  have "valid_policy quoted_policy" by code_simp
  moreover have "source_policy quoted_policy = quoted_policy" by code_simp
  ultimately show ?thesis using document_roundtrip by metis
qed

end
