(* ===== verification/Subscriber.thy ===== *)
theory Subscriber
  imports Json_Print Policy_Store
begin

text \<open>
  The Redis stream subscriber, \<open>internal/subscriber\<close>: what is published for an update
  (\<open>publish.go\<close>), how one stream entry is applied to the store and how the reading loop moves
  along the stream (\<open>redis.go\<close>).

  The Redis client is a parameter: the reply of a read is a value of \<open>xread_reply\<close>, computed
  from the stream key and the last identifier that the loop passes.  Log lines are not
  modelled, except that every way out of \<open>processMessageEntry\<close> has its own outcome.
\<close>

subsection \<open>Stream entries\<close>

text \<open>A value of Go's \<open>any\<close> is a string or something else.\<close>

datatype any = AnyString string | AnyOther

type_synonym entry_values = "(string, any) gomap"

definition StreamKey :: string where "StreamKey = ''authpolicy:events''"
definition ActionUpsert :: string where "ActionUpsert = ''UPSERT''"
definition ActionDelete :: string where "ActionDelete = ''DELETE''"
definition DefaultAddr :: string where "DefaultAddr = ''localhost:6379''"

definition AddrFromEnv :: "(string \<Rightarrow> string) \<Rightarrow> string" where
  "AddrFromEnv getenv = (let v = getenv ''REDIS_ADDR'' in if v \<noteq> [] then v else DefaultAddr)"

text \<open>The field map of the entry that \<open>Publish\<close> appends to the stream.\<close>

definition Publish_values :: "string \<Rightarrow> string \<Rightarrow> string \<Rightarrow> entry_values" where
  "Publish_values action policyID policyJSON =
     (let vs = [(''action'', AnyString action), (''policy_id'', AnyString policyID)]
      in if policyJSON \<noteq> [] then gomap_put ''policy_json'' (AnyString policyJSON) vs else vs)"

definition getString :: "entry_values \<Rightarrow> string \<Rightarrow> string option" where
  "getString vs key =
     (case gomap_get vs key of
        None \<Rightarrow> None
      | Some (AnyString s) \<Rightarrow> Some s
      | Some AnyOther \<Rightarrow> None)"

subsection \<open>processMessageEntry\<close>

datatype 'r outcome =
    NoAction
  | NoPolicyID
  | MissingPayload string
  | ParseFailed string
  | UnsupportedAccess string Access
  | CompileFailed string compile_error
  | Upserted "'r policy"
  | Deleted string
  | UnsupportedAction string string

definition processMessageEntry ::
  "'r regexp_lib \<Rightarrow> entry_values \<Rightarrow> 'r PolicyStore \<Rightarrow> 'r PolicyStore \<times> 'r outcome" where
  "processMessageEntry rx vs st =
     (case getString vs ''action'' of
        None \<Rightarrow> (st, NoAction)
      | Some action \<Rightarrow>
          (case getString vs ''policy_id'' of
             None \<Rightarrow> (st, NoPolicyID)
           | Some policyID \<Rightarrow>
               if action = ActionUpsert then
                 (case getString vs ''policy_json'' of
                    None \<Rightarrow> (st, MissingPayload policyID)
                  | Some policyJsonStr \<Rightarrow>
                      (case Unmarshal_policy policyJsonStr of
                         None \<Rightarrow> (st, ParseFailed policyID)
                       | Some p \<Rightarrow>
                           if pol_Access p \<noteq> AccessAllow \<and> pol_Access p \<noteq> AccessDeny then
                             (st, UnsupportedAccess policyID (pol_Access p))
                           else
                             (case Compile rx p of
                                (p', Some err) \<Rightarrow> (st, CompileFailed policyID err)
                              | (p', None) \<Rightarrow> (UpsertPolicy p' st, Upserted p'))))
               else if action = ActionDelete then (DeletePolicy policyID st, Deleted policyID)
               else (st, UnsupportedAction policyID action)))"

subsection \<open>The reading loop\<close>

type_synonym stream_entry = "string \<times> entry_values"

datatype xread_reply =
    XNil
  | XErr string
  | XStreams "(string \<times> stream_entry list) list"

text \<open>
  What the environment does in one round of the loop: the state of the context at its head,
  the reply of the blocking read, the state of the context after a failed read, and whether
  the context ends during the pause of one second.
\<close>

record loop_round =
  rd_cancelled :: bool
  rd_xread :: "string \<Rightarrow> string \<Rightarrow> xread_reply"
  rd_cancelled_after :: bool
  rd_cancelled_pause :: bool

record 'r subscriber =
  sub_streamKey :: string
  sub_store :: "'r PolicyStore"
  sub_lastID :: string
  sub_stopped :: bool

definition NewPolicyUpdateSubscriber :: "string \<Rightarrow> 'r PolicyStore \<Rightarrow> 'r subscriber" where
  "NewPolicyUpdateSubscriber streamKey st =
     \<lparr>sub_streamKey = streamKey, sub_store = st, sub_lastID = ''0'', sub_stopped = False\<rparr>"

text \<open>The inner loops over the streams of a reply and the entries of a stream.\<close>

fun process_entries :: "'r regexp_lib \<Rightarrow> stream_entry list \<Rightarrow> 'r subscriber \<Rightarrow> 'r subscriber" where
  "process_entries rx [] sub = sub"
| "process_entries rx ((entryID, vs) # rest) sub =
     process_entries rx rest
       (sub\<lparr>sub_store := fst (processMessageEntry rx vs (sub_store sub)), sub_lastID := entryID\<rparr>)"

fun process_streams ::
  "'r regexp_lib \<Rightarrow> (string \<times> stream_entry list) list \<Rightarrow> 'r subscriber \<Rightarrow> 'r subscriber" where
  "process_streams rx [] sub = sub"
| "process_streams rx ((key, entries) # rest) sub =
     process_streams rx rest (process_entries rx entries sub)"

definition loop_step :: "'r regexp_lib \<Rightarrow> loop_round \<Rightarrow> 'r subscriber \<Rightarrow> 'r subscriber" where
  "loop_step rx r sub =
     (if rd_cancelled r then sub\<lparr>sub_stopped := True\<rparr>
      else
        (case rd_xread r (sub_streamKey sub) (sub_lastID sub) of
           XNil \<Rightarrow> sub
         | XErr e \<Rightarrow>
             if rd_cancelled_after r then sub\<lparr>sub_stopped := True\<rparr>
             else if rd_cancelled_pause r then sub\<lparr>sub_stopped := True\<rparr>
             else sub
         | XStreams streams \<Rightarrow> process_streams rx streams sub))"

text \<open>
  \<open>Start\<close> over the rounds that the environment plays; the loop itself never ends unless the
  context does.
\<close>

fun Start_loop :: "'r regexp_lib \<Rightarrow> loop_round list \<Rightarrow> 'r subscriber \<Rightarrow> 'r subscriber" where
  "Start_loop rx [] sub = sub"
| "Start_loop rx (r # rs) sub =
     (let sub' = loop_step rx r sub
      in if sub_stopped sub' then sub' else Start_loop rx rs sub')"

definition Start :: "'r regexp_lib \<Rightarrow> loop_round list \<Rightarrow> 'r subscriber \<Rightarrow> 'r subscriber" where
  "Start rx rs sub = Start_loop rx rs (sub\<lparr>sub_lastID := ''0''\<rparr>)"

subsection \<open>One entry is one update, or none\<close>

definition entry_update :: "'r regexp_lib \<Rightarrow> entry_values \<Rightarrow> 'r update option" where
  "entry_update rx vs =
     (case snd (processMessageEntry rx vs NewPolicyStore) of
        Upserted p \<Rightarrow> Some (Upsert p)
      | Deleted k \<Rightarrow> Some (Delete k)
      | _ \<Rightarrow> None)"

definition entry_updates :: "'r regexp_lib \<Rightarrow> entry_values \<Rightarrow> 'r update list" where
  "entry_updates rx vs = (case entry_update rx vs of None \<Rightarrow> [] | Some u \<Rightarrow> [u])"

lemma outcome_store_independent:
  "snd (processMessageEntry rx vs st) = snd (processMessageEntry rx vs st')"
  by (auto simp: processMessageEntry_def split: option.splits prod.splits)

lemma processMessageEntry_store:
  "fst (processMessageEntry rx vs st) = run_updates UpsertPolicy DeletePolicy (entry_updates rx vs) st"
  by (auto simp: processMessageEntry_def entry_updates_def entry_update_def
      split: option.splits prod.splits)

lemma entry_update_Upsert:
  "entry_update rx vs = Some (Upsert p) \<Longrightarrow>
     policy_ready rx p \<and> (pol_Access p = AccessAllow \<or> pol_Access p = AccessDeny)"
  by (auto simp: entry_update_def processMessageEntry_def Compile_ready
      split: option.splits prod.splits if_splits dest: Compile_ID Compile_ready)

text \<open>
  C25: a stream entry is applied whole or not at all, and only checked policies get in.  The
  store after an entry is the store before it, or the result of one deletion, or the result of
  one upsert; an upserted policy has mode ALLOW or DENY and carries its compiled expressions.
  Every malformed entry (missing or non-string field, unparsable document, other access mode,
  invalid expression, unknown action) leaves the store as it is.
\<close>

theorem processMessageEntry_effect:
  "case entry_update rx vs of
     None \<Rightarrow> fst (processMessageEntry rx vs st) = st
   | Some (Delete k) \<Rightarrow> fst (processMessageEntry rx vs st) = DeletePolicy k st
       \<and> getString vs ''action'' = Some ActionDelete \<and> getString vs ''policy_id'' = Some k
   | Some (Upsert p) \<Rightarrow> fst (processMessageEntry rx vs st) = UpsertPolicy p st
       \<and> getString vs ''action'' = Some ActionUpsert
       \<and> policy_ready rx p \<and> (pol_Access p = AccessAllow \<or> pol_Access p = AccessDeny)"
proof -
  have del: "getString vs ''action'' = Some ActionDelete \<and> getString vs ''policy_id'' = Some k"
    if "entry_update rx vs = Some (Delete k)" for k
    using that by (auto simp: entry_update_def processMessageEntry_def
        split: option.splits prod.splits if_splits)
  have ups: "getString vs ''action'' = Some ActionUpsert"
    if "entry_update rx vs = Some (Upsert p)" for p
    using that by (auto simp: entry_update_def processMessageEntry_def
        split: option.splits prod.splits if_splits)
  show ?thesis
    using del ups entry_update_Upsert [of rx vs]
    by (auto simp: processMessageEntry_store entry_updates_def split: option.splits update.splits)
qed

lemma Action_distinct [simp]: "ActionUpsert \<noteq> ActionDelete" "ActionDelete \<noteq> ActionUpsert"
  by (simp_all add: ActionUpsert_def ActionDelete_def)

lemma getString_Publish [simp]:
  "getString (Publish_values action pid doc) ''action'' = Some action"
  "getString (Publish_values action pid doc) ''policy_id'' = Some pid"
  "getString (Publish_values action pid doc) ''policy_json'' = (if doc = [] then None else Some doc)"
  by (simp_all add: getString_def Publish_values_def Let_def)

lemma Unmarshal_nonempty: "Unmarshal_policy doc = Some p \<Longrightarrow> doc \<noteq> []"
  by (auto simp: Unmarshal_policy_def json_parse_def)

lemma publish_document:
  assumes "Unmarshal_policy doc = Some p" "Compile rx p = (p', None)"
    and "pol_Access p = AccessAllow \<or> pol_Access p = AccessDeny"
  shows "processMessageEntry rx (Publish_values ActionUpsert policyID doc) st
           = (UpsertPolicy p' st, Upserted p') \<and> pol_ID p' = pol_ID p"
  using assms Unmarshal_nonempty [OF assms(1)] Compile_ID [OF assms(2)]
  by (auto simp: processMessageEntry_def)


text \<open>
  Publishing a deletion removes exactly the named identifier from the table that the store
  stands for, whichever of the two maps held it, and keeps every other policy.
\<close>

theorem publish_delete:
  assumes "store_inv st"
  shows "stored (fst (processMessageEntry rx (Publish_values ActionDelete policyID doc) st))
           = (stored st)(policyID := None)"
  using assms by (simp add: processMessageEntry_def stored_Delete)

subsection \<open>The loop along the stream\<close>

text \<open>The identifier to read after: the one of the last entry, \<open>0\<close> before the first.\<close>

definition last_id :: "stream_entry list \<Rightarrow> string" where
  "last_id es = (if es = [] then ''0'' else fst (last es))"

definition stream_updates :: "'r regexp_lib \<Rightarrow> stream_entry list \<Rightarrow> 'r update list" where
  "stream_updates rx es = concat (map (entry_updates rx \<circ> snd) es)"

lemma run_updates_append:
  "run_updates ups del (us @ vs) st = run_updates ups del vs (run_updates ups del us st)"
  by (simp add: run_updates_def)

lemma stream_updates_append: "stream_updates rx (es @ fs) = stream_updates rx es @ stream_updates rx fs"
  by (simp add: stream_updates_def)

lemma process_entries_result:
  "process_entries rx es sub =
     sub\<lparr>sub_store := run_updates UpsertPolicy DeletePolicy (stream_updates rx es) (sub_store sub),
         sub_lastID := if es = [] then sub_lastID sub else last_id es\<rparr>"
proof (induction es arbitrary: sub)
  case Nil
  then show ?case by (simp add: stream_updates_def)
next
  case (Cons e es)
  obtain i vs where e: "e = (i, vs)" by fastforce
  show ?case
    by (simp add: e Cons.IH processMessageEntry_store stream_updates_def run_updates_append last_id_def)
qed

text \<open>
  A reply that follows the documented behaviour of a stream with the entries \<open>es\<close>: nothing, an
  error, or some of the entries that come after the given identifier, in order.
\<close>

definition serves :: "string \<Rightarrow> stream_entry list \<Rightarrow> loop_round \<Rightarrow> bool" where
  "serves key es r \<longleftrightarrow>
     (\<forall>n\<le>length es. \<forall>streams. rd_xread r key (last_id (take n es)) = XStreams streams \<longrightarrow>
        (\<exists>m. streams = [(key, take m (drop n es))]))"

text \<open>A round in which the stream delivers at least one entry while there are any left.\<close>

definition delivers :: "string \<Rightarrow> stream_entry list \<Rightarrow> loop_round \<Rightarrow> bool" where
  "delivers key es r \<longleftrightarrow> \<not> rd_cancelled r
     \<and> (\<forall>n<length es. \<exists>m>0. rd_xread r key (last_id (take n es)) = XStreams [(key, take m (drop n es))])
     \<and> rd_xread r key (last_id es) = XNil"

definition at_position ::
  "'r regexp_lib \<Rightarrow> string \<Rightarrow> stream_entry list \<Rightarrow> 'r PolicyStore \<Rightarrow> nat \<Rightarrow> 'r subscriber \<Rightarrow> bool" where
  "at_position rx key es st n sub \<longleftrightarrow> n \<le> length es \<and> sub_streamKey sub = key
     \<and> sub_lastID sub = last_id (take n es)
     \<and> sub_store sub = run_updates UpsertPolicy DeletePolicy (stream_updates rx (take n es)) st"

lemma at_position_batch:
  assumes "at_position rx key es st n sub"
  shows "at_position rx key es st (min (n + m) (length es)) (process_entries rx (take m (drop n es)) sub)"
proof -
  have tk: "take (min (n + m) (length es)) es = take n es @ take m (drop n es)"
    by (simp add: min_def take_add)
  have "last_id (take n es @ take m (drop n es)) =
      (if take m (drop n es) = [] then last_id (take n es) else last_id (take m (drop n es)))"
    by (simp add: last_id_def)
  then show ?thesis
    using assms unfolding at_position_def tk
    by (simp add: process_entries_result stream_updates_append run_updates_append)
qed

lemma loop_step_position:
  assumes "serves key es r" "at_position rx key es st n sub"
  shows "\<exists>n'\<ge>n. at_position rx key es st n' (loop_step rx r sub)"
proof -
  have stop: "at_position rx key es st n (sub\<lparr>sub_stopped := True\<rparr>)"
    using assms(2) by (simp add: at_position_def)
  show ?thesis
  proof (cases "rd_xread r key (last_id (take n es))")
    case (XStreams streams)
    then obtain m where "streams = [(key, take m (drop n es))]"
      using assms by (auto simp: serves_def at_position_def)
    then have "loop_step rx r sub = (if rd_cancelled r then sub\<lparr>sub_stopped := True\<rparr>
        else process_entries rx (take m (drop n es)) sub)"
      using assms(2) XStreams by (simp add: loop_step_def at_position_def)
    moreover have "n \<le> min (n + m) (length es)" using assms(2) by (simp add: at_position_def)
    ultimately show ?thesis
      using stop at_position_batch [OF assms(2), of m]
      by (cases "rd_cancelled r") (simp_all only: if_True if_False, blast+)
  qed (use assms(2) stop in \<open>auto simp: loop_step_def at_position_def\<close>)
qed

lemma Start_loop_position:
  "\<forall>r \<in> set rs. serves key es r \<Longrightarrow> at_position rx key es st n sub \<Longrightarrow>
     \<exists>n'\<ge>n. at_position rx key es st n' (Start_loop rx rs sub)"
proof (induction rs arbitrary: n sub)
  case Nil
  then show ?case by auto
next
  case (Cons r rs)
  obtain n1 where n1: "n1 \<ge> n" "at_position rx key es st n1 (loop_step rx r sub)"
    using loop_step_position [of key es r rx st n sub] Cons.prems by auto
  show ?case
  proof (cases "sub_stopped (loop_step rx r sub)")
    case True
    then show ?thesis using n1 by (auto simp: Let_def)
  next
    case False
    obtain n2 where "n2 \<ge> n1" "at_position rx key es st n2 (Start_loop rx rs (loop_step rx r sub))"
      using Cons.IH [OF _ n1(2)] Cons.prems(1) by auto
    then show ?thesis using False n1(1) by (auto simp: Let_def intro: order_trans)
  qed
qed

text \<open>
  The subscriber applies the stream in order, without skipping or repeating an entry.  For
  any number of rounds, empty reads, read errors and batch sizes, the store is the one that a
  prefix of the stream gives when its entries are applied once each from the start, and the
  identifier to read after is the one of the last entry of that prefix.
\<close>

theorem Start_applies_prefix:
  assumes "\<forall>r \<in> set rs. serves key es r"
  shows "\<exists>n\<le>length es.
     sub_lastID (Start rx rs (NewPolicyUpdateSubscriber key st)) = last_id (take n es)
     \<and> sub_store (Start rx rs (NewPolicyUpdateSubscriber key st))
         = run_updates UpsertPolicy DeletePolicy (stream_updates rx (take n es)) st"
proof -
  have "at_position rx key es st 0 (NewPolicyUpdateSubscriber key st)"
    by (simp add: at_position_def NewPolicyUpdateSubscriber_def last_id_def stream_updates_def)
  from Start_loop_position [OF assms this] show ?thesis
    by (auto simp: at_position_def Start_def NewPolicyUpdateSubscriber_def)
qed

lemma delivers_serves: "delivers key es r \<Longrightarrow> serves key es r"
  unfolding delivers_def serves_def by (metis le_neq_implies_less take_all_iff xread_reply.distinct(3) xread_reply.inject(2) order_refl)

lemma process_streams_running [simp]:
  "sub_stopped (process_entries rx es sub) = sub_stopped sub"
  by (simp add: process_entries_result)

lemma loop_step_delivers:
  assumes "delivers key es r" "at_position rx key es st n sub" "\<not> sub_stopped sub"
  shows "\<not> sub_stopped (loop_step rx r sub)
    \<and> (\<exists>n'. min (Suc n) (length es) \<le> n' \<and> at_position rx key es st n' (loop_step rx r sub))"
proof (cases "n < length es")
  case True
  then obtain m where m: "m > 0"
      "rd_xread r key (last_id (take n es)) = XStreams [(key, take m (drop n es))]"
    using assms(1) by (auto simp: delivers_def)
  then have "loop_step rx r sub = process_entries rx (take m (drop n es)) sub"
    using assms(1,2) by (simp add: loop_step_def at_position_def delivers_def)
  moreover have "min (Suc n) (length es) \<le> min (n + m) (length es)" using m(1) by simp
  ultimately show ?thesis
    using at_position_batch [OF assms(2), of m] assms(3)
    by (simp only: process_streams_running simp_thms) (rule exI conjI | assumption)+
next
  case False
  then have "loop_step rx r sub = sub"
    using assms(1,2) by (simp add: loop_step_def at_position_def delivers_def)
  moreover have "min (Suc n) (length es) \<le> n" using False by simp
  ultimately show ?thesis using assms(2,3) by (simp only: simp_thms) blast
qed

lemma Start_loop_delivers:
  "\<forall>r \<in> set rs. delivers key es r \<Longrightarrow> at_position rx key es st n sub \<Longrightarrow> \<not> sub_stopped sub \<Longrightarrow>
     \<exists>n'. min (n + length rs) (length es) \<le> n' \<and> at_position rx key es st n' (Start_loop rx rs sub)"
proof (induction rs arbitrary: n sub)
  case Nil
  then show ?case by (auto intro: exI [of _ n])
next
  case (Cons r rs)
  obtain n1 where n1: "min (Suc n) (length es) \<le> n1" "at_position rx key es st n1 (loop_step rx r sub)"
      "\<not> sub_stopped (loop_step rx r sub)"
    using loop_step_delivers [of key es r rx st n sub] Cons.prems by auto
  obtain n2 where n2: "min (n1 + length rs) (length es) \<le> n2"
      "at_position rx key es st n2 (Start_loop rx rs (loop_step rx r sub))"
    using Cons.IH [OF _ n1(2,3)] Cons.prems(1) by auto
  have "min (n + length (r # rs)) (length es) \<le> n2" using n1(1) n2(1) by simp
  then show ?case using n2(2) n1(3) by auto
qed

lemma Start_delivered:
  assumes "\<forall>r \<in> set rs. delivers key es r" "length es \<le> length rs"
    and "range_order oa" "range_order od"
  shows "\<exists>resp. CheckAccess rx (ListActivePolicies oa od)
       (sub_store (Start rx rs (NewPolicyUpdateSubscriber key NewPolicyStore))) req t = Inr resp
     \<and> (resp_Allowed resp
          \<longleftrightarrow> authorized rx (foldl table_update (\<lambda>_. None) (stream_updates rx es)) req)"
proof -
  have "at_position rx key es NewPolicyStore 0 (NewPolicyUpdateSubscriber key NewPolicyStore)"
    by (simp add: at_position_def NewPolicyUpdateSubscriber_def last_id_def stream_updates_def)
  from Start_loop_delivers [OF assms(1) this] assms(2)
  obtain n' where "length es \<le> n'" "at_position rx key es NewPolicyStore n'
      (Start_loop rx rs (NewPolicyUpdateSubscriber key NewPolicyStore))"
    by (auto simp: NewPolicyUpdateSubscriber_def)
  then have "sub_store (Start rx rs (NewPolicyUpdateSubscriber key NewPolicyStore))
      = run_updates UpsertPolicy DeletePolicy (stream_updates rx es) NewPolicyStore"
    by (simp add: at_position_def Start_def NewPolicyUpdateSubscriber_def)
  then show ?thesis using store.run_decision [OF assms(3,4)] by simp
qed

text \<open>
  C7: the subscriber catches up.  If the context is not cancelled and every read delivers at
  least one entry while there are any left, as many rounds as the stream has entries are enough
  to have applied all of it, and the engine then decides every request by the policies that
  the whole history of the stream leaves, in any iteration order of the maps.
\<close>

theorem Start_catches_up:
  assumes "\<forall>r \<in> set rs. delivers key es r" "length es \<le> length rs"
    and "range_order oa" "range_order od"
  shows "\<exists>resp. CheckAccess rx (ListActivePolicies oa od)
       (sub_store (Start rx rs (NewPolicyUpdateSubscriber key NewPolicyStore))) req t = Inr resp
     \<and> (resp_Allowed resp
          \<longleftrightarrow> authorized rx (foldl table_update (\<lambda>_. None) (stream_updates rx es)) req)"
  by (rule Start_delivered [OF assms])

subsection \<open>What the subscriber lets into the store\<close>

definition admitted :: "'r regexp_lib \<Rightarrow> 'r PolicyStore \<Rightarrow> bool" where
  "admitted rx st \<longleftrightarrow> store_inv st
     \<and> (\<forall>k p. stored st k = Some p \<longrightarrow>
          policy_ready rx p \<and> (pol_Access p = AccessAllow \<or> pol_Access p = AccessDeny))"

lemma admitted_entry: "admitted rx st \<Longrightarrow> admitted rx (fst (processMessageEntry rx vs st))"
  using entry_update_Upsert [of rx vs]
  by (auto simp: admitted_def processMessageEntry_store entry_updates_def store_inv_Upsert
      store_inv_Delete stored_Upsert stored_Delete split: option.splits update.splits if_splits)

lemma admitted_entries: "admitted rx (sub_store sub) \<Longrightarrow> admitted rx (sub_store (process_entries rx es sub))"
  by (induction es arbitrary: sub) (auto simp: admitted_entry)

lemma admitted_streams: "admitted rx (sub_store sub) \<Longrightarrow> admitted rx (sub_store (process_streams rx ss sub))"
  by (induction ss arbitrary: sub) (auto simp: admitted_entries)

lemma admitted_step: "admitted rx (sub_store sub) \<Longrightarrow> admitted rx (sub_store (loop_step rx r sub))"
  by (auto simp: loop_step_def admitted_streams split: xread_reply.splits)

lemma admitted_loop: "admitted rx (sub_store sub) \<Longrightarrow> admitted rx (sub_store (Start_loop rx rs sub))"
  by (induction rs arbitrary: sub) (auto simp: Let_def admitted_step)

text \<open>
  C12: whatever the stream delivers, well formed or not, in whatever rounds, every policy in the
  store has mode ALLOW or DENY, sits under its own identifier in exactly one table, and has
  each of its REGEX conditions compiled from its own first value.
\<close>

theorem subscriber_admits_checked_policies:
  "admitted rx (sub_store (Start rx rs (NewPolicyUpdateSubscriber key NewPolicyStore)))"
proof -
  have "admitted rx NewPolicyStore"
    by (simp add: admitted_def stored_def NewPolicyStore_def [symmetric])
       (simp add: NewPolicyStore_def)
  then show ?thesis
    by (simp add: Start_def NewPolicyUpdateSubscriber_def admitted_loop)
qed

subsection \<open>Examples for the witnesses\<close>

definition sample_document :: string where
  \<open>sample_document = ''{"id":"a","access":"ALLOW","target":{"resource_type":"dashboard","action":"READ"}}''\<close>

definition document_policy :: "string policy" where
  "document_policy = mk_policy ''a'' AccessAllow ''dashboard'' ''READ'' []"

lemma sample_document_decodes: "Unmarshal_policy sample_document = Some document_policy"
  by code_simp

lemma document_policy_fields [simp]:
  "pol_ID document_policy = ''a''" "pol_Access document_policy = AccessAllow"
  "Compile rx document_policy = (document_policy, None)"
  by (simp_all add: document_policy_def mk_policy_def Compile_def)

lemma document_policy_applies [simp]: "applies rx document_policy (sample_request role)"
  by (simp add: document_policy_def mk_policy_def applies_def sample_request_def)

definition sample_stream :: "stream_entry list" where
  "sample_stream =
     [(''1-0'', Publish_values ActionUpsert ''a'' sample_document),
      (''2-0'', Publish_values ActionDelete ''b'' [])]"

text \<open>A round that delivers every entry after the given identifier.\<close>

definition full_round :: "string \<Rightarrow> stream_entry list \<Rightarrow> loop_round" where
  "full_round key es =
     \<lparr>rd_cancelled = False,
      rd_xread = (\<lambda>k i.
        let rest = (if i = ''0'' then es else tl (dropWhile (\<lambda>e. fst e \<noteq> i) es))
        in if rest = [] then XNil else XStreams [(key, rest)]),
      rd_cancelled_after = False, rd_cancelled_pause = False\<rparr>"

lemma full_round_delivers: "delivers key sample_stream (full_round key sample_stream)"
proof -
  have "\<exists>m>0. rd_xread (full_round key sample_stream) key (last_id (take n sample_stream))
          = XStreams [(key, take m (drop n sample_stream))]" if "n < length sample_stream" for n
    using that
    by (intro exI [of _ "2 :: nat"])
       (auto simp: sample_stream_def full_round_def last_id_def less_Suc_eq numeral_2_eq_2)
  then show ?thesis by (simp add: delivers_def) (simp add: full_round_def sample_stream_def last_id_def)
qed

lemma sample_stream_length: "length sample_stream = 2"
  by (simp add: sample_stream_def)

lemma sample_stream_updates:
  "stream_updates literal_regexp sample_stream = [Upsert document_policy, Delete ''b'']"
  using Unmarshal_nonempty [OF sample_document_decodes]
  by (simp add: stream_updates_def sample_stream_def entry_updates_def entry_update_def
      processMessageEntry_def sample_document_decodes)


theorem publish_delete_witness:
  "stored (fst (processMessageEntry literal_regexp (Publish_values ActionDelete ''a'' [])
      (UpsertPolicy (role_policy ''a'' AccessAllow ''admin'') NewPolicyStore))) ''a'' = None"
  using publish_delete [of "UpsertPolicy (role_policy ''a'' AccessAllow ''admin'') NewPolicyStore"
      literal_regexp "''a''" "[]"]
  by (simp add: store_inv_Upsert)

theorem Start_applies_prefix_witness:
  "\<exists>n\<le>2.
     sub_lastID (Start literal_regexp [full_round ''k'' sample_stream]
       (NewPolicyUpdateSubscriber ''k'' NewPolicyStore)) = last_id (take n sample_stream)"
  using Start_applies_prefix [of "[full_round ''k'' sample_stream]" "''k''" sample_stream
      literal_regexp NewPolicyStore] delivers_serves [OF full_round_delivers]
  by (simp add: sample_stream_length) blast

theorem Start_catches_up_witness:
  "\<exists>resp. CheckAccess literal_regexp (ListActivePolicies rev (\<lambda>m. m))
       (sub_store (Start literal_regexp ([full_round ''k'' sample_stream, full_round ''k'' sample_stream])
          (NewPolicyUpdateSubscriber ''k'' NewPolicyStore))) (sample_request ''admin'') 5 = Inr resp
     \<and> resp_Allowed resp"
proof -
  have "authorized literal_regexp [''a'' \<mapsto> document_policy] (sample_request ''admin'')"
    by (auto simp: authorized_def granted_def allow_part_def deny_part_def ran_def split: if_splits)
  then have "authorized literal_regexp
      (foldl table_update (\<lambda>_. None) (stream_updates literal_regexp sample_stream)) (sample_request ''admin'')"
    by (simp add: sample_stream_updates)
  moreover have "length sample_stream \<le> length ([full_round ''k'' sample_stream, full_round ''k'' sample_stream])"
    by (simp add: sample_stream_length)
  ultimately show ?thesis
    using Start_catches_up [of "[full_round ''k'' sample_stream, full_round ''k'' sample_stream]" "''k''" sample_stream rev
        "\<lambda>m. m" literal_regexp "sample_request ''admin''" 5] full_round_delivers
    by auto
qed

end
