(* ===== verification/Bouncer_System.thy ===== *)
theory Bouncer_System
  imports Server Subscriber
begin

text \<open>
  The process of \<open>cmd/bouncer-engine/main.go\<close>: the store, the metrics, the engine, the audit
  logger and the subscriber wired together, as a transition system.

  One step is one RPC served, one RPC that fails, one stream entry applied or one step of an
  audit worker.  This granularity is that of calls and entries that do not overlap: in it a
  served RPC and an applied entry are one step each.  The process in which they overlap, with
  every atomic access to the store a step of its own, is in \<open>Process_Concurrent\<close>, and what holds
  of all of its runs in \<open>Process_Moments\<close>.  The wiring never calls \<open>Stop\<close> while it serves.
\<close>

type_synonym ('r, 'c, 'f) bouncer =
  "('r PolicyStore, 'c, 'f) metrics \<times> 'r PolicyStore AuthzServer"

text \<open>The set-up of \<open>main\<close> up to the listening server; a panic is \<open>None\<close>.\<close>

definition main_setup :: "('c, 'f) prom_lib \<Rightarrow> ('r, 'c, 'f) bouncer option" where
  "main_setup lib =
     (let policyStore = NewPolicyStore
      in case Register lib Count initial_metrics of
           None \<Rightarrow> None
         | Some m \<Rightarrow>
             (case NewAuditLogger 10000 of
                None \<Rightarrow> None
              | Some auditLogger \<Rightarrow>
                  Some (m, NewAuthzServer policyStore (Start_workers 5 auditLogger))))"

definition grpc_call ::
  "'r regexp_lib \<Rightarrow> ('c, 'f) prom_lib \<Rightarrow> 'r map_order \<Rightarrow> 'r map_order \<Rightarrow> int \<Rightarrow> nat
     \<Rightarrow> string + CheckAccessRequest \<Rightarrow> ('r, 'c, 'f) bouncer unary_handler" where
  "grpc_call rx lib oa od elapsed recv decoded =
     CheckAccess_Handler
       (\<lambda>req. lift_handler (AuthzServer_CheckAccess rx (ListActivePolicies oa od) elapsed recv req))
       decoded (Some (UnaryInterceptor lib))"

definition apply_entry ::
  "'r regexp_lib \<Rightarrow> entry_values \<Rightarrow> ('r, 'c, 'f) bouncer \<Rightarrow> ('r, 'c, 'f) bouncer" where
  "apply_entry rx vs b =
     (fst b, (snd b)\<lparr>as_engine := fst (processMessageEntry rx vs (as_engine (snd b)))\<rparr>)"

datatype bouncer_event =
    Served CheckAccessRequest CheckAccessResponse
  | Failed string
  | Applied entry_values
  | AuditWorked nat

inductive bouncer_step ::
  "'r regexp_lib \<Rightarrow> ('c, 'f) prom_lib \<Rightarrow> ('r, 'c, 'f) bouncer \<Rightarrow> bouncer_event \<Rightarrow> ('r, 'c, 'f) bouncer \<Rightarrow> bool"
  for rx lib where
  Serve:
    "range_order oa \<Longrightarrow> range_order od \<Longrightarrow> receiver_ok (as_audit (snd b)) recv \<Longrightarrow>
     grpc_call rx lib oa od t recv (Inr req) b = Some (b', ResponseMessage (Some resp), None) \<Longrightarrow>
     bouncer_step rx lib b (Served req resp) b'"
| Fail:
    "grpc_call rx lib oa od t recv decoded b = Some (b', msg, Some err) \<Longrightarrow>
     bouncer_step rx lib b (Failed err) b'"
| Apply: "bouncer_step rx lib b (Applied vs) (apply_entry rx vs b)"
| AuditWork:
    "worker_step i (as_audit (snd b)) = Some a \<Longrightarrow>
     bouncer_step rx lib b (AuditWorked i) (fst b, (snd b)\<lparr>as_audit := a\<rparr>)"

inductive_cases bouncer_stepE: "bouncer_step rx lib b e b'"

inductive bouncer_run ::
  "'r regexp_lib \<Rightarrow> ('c, 'f) prom_lib \<Rightarrow> bouncer_event list \<Rightarrow> ('r, 'c, 'f) bouncer \<Rightarrow> bool"
  for rx lib where
  Boot: "main_setup lib = Some b \<Longrightarrow> bouncer_run rx lib [] b"
| Step: "bouncer_run rx lib es b \<Longrightarrow> bouncer_step rx lib b e b' \<Longrightarrow> bouncer_run rx lib (es @ [e]) b'"

text \<open>What the events of a run say: updates applied, responses given, records to audit.\<close>

definition event_updates :: "'r regexp_lib \<Rightarrow> bouncer_event list \<Rightarrow> 'r update list" where
  "event_updates rx es =
     concat (map (\<lambda>e. case e of Applied vs \<Rightarrow> entry_updates rx vs | _ \<Rightarrow> []) es)"

definition responses :: "bouncer_event list \<Rightarrow> CheckAccessResponse list" where
  "responses es = concat (map (\<lambda>e. case e of Served _ resp \<Rightarrow> [resp] | _ \<Rightarrow> []) es)"

definition response_record :: "CheckAccessRequest \<Rightarrow> CheckAccessResponse \<Rightarrow> AuditLog" where
  "response_record req resp =
     \<lparr>al_PrincipalID = crq_PrincipalId req, al_Action = crq_Action req,
      al_ResourceID = crq_ResourceId req, al_Allowed = crs_Allowed resp,
      al_Reason = crs_Reason resp, al_PolicyId = crs_MatchedPolicyId resp,
      al_LatencyNs = crs_EvaluationTimeNs resp\<rparr>"

definition served_records :: "bouncer_event list \<Rightarrow> AuditLog list" where
  "served_records es =
     concat (map (\<lambda>e. case e of Served req resp \<Rightarrow> [response_record req resp] | _ \<Rightarrow> []) es)"

lemma event_lists_simps [simp]:
  "event_updates rx [] = []" "responses [] = []" "served_records [] = []"
  "event_updates rx (es @ fs) = event_updates rx es @ event_updates rx fs"
  "responses (es @ fs) = responses es @ responses fs"
  "served_records (es @ fs) = served_records es @ served_records fs"
  "event_updates rx [Served req resp] = []" "event_updates rx [Failed err] = []"
  "event_updates rx [Applied vs] = entry_updates rx vs" "event_updates rx [AuditWorked i] = []"
  "responses [Served req resp] = [resp]" "responses [Failed err] = []" "responses [Applied vs] = []"
  "responses [AuditWorked i] = []"
  "served_records [Served req resp] = [response_record req resp]" "served_records [Failed err] = []"
  "served_records [Applied vs] = []" "served_records [AuditWorked i] = []"
  by (simp_all add: event_updates_def responses_def served_records_def)

subsection \<open>One call\<close>

lemma response_record_proto: "response_record req (proto_response r) = audit_record req r"
  by (simp add: response_record_def proto_response_def audit_record_def)

lemma ListActivePolicies_total: "\<exists>snap. ListActivePolicies oa od st = Inr snap"
  by (simp add: ListActivePolicies_def)

lemma CheckAccess_store_total: "\<exists>r. CheckAccess rx (ListActivePolicies oa od) st req t = Inr r"
  using ListActivePolicies_total CheckAccess_decision by metis

lemma grpc_call_decided:
  assumes "metrics_ready lib Count (fst b)" "\<not> ch_closed (as_audit (snd b))"
  shows "\<exists>r a ok. CheckAccess rx (ListActivePolicies oa od) (as_engine (snd b)) (eval_request req) t = Inr r
     \<and> LogDecision recv (response_record req (proto_response r)) (as_audit (snd b)) = Some (a, ok)
     \<and> grpc_call rx lib oa od t recv (Inr req) b
         = Some (((fst b)\<lparr>mt_calls := mt_calls (fst b) @ decision_calls lib (proto_response r)\<rparr>,
                  (snd b)\<lparr>as_audit := a\<rparr>), ResponseMessage (Some (proto_response r)), None)"
proof -
  obtain m s where b: "b = (m, s)" by fastforce
  obtain r where r: "CheckAccess rx (ListActivePolicies oa od) (as_engine s) (eval_request req) t = Inr r"
    using CheckAccess_store_total by blast
  obtain a ok where log: "LogDecision recv (audit_record req r) (as_audit s) = Some (a, ok)"
    using assms(2) LogDecision_open by (force simp: b)
  have "AuthzServer_CheckAccess rx (ListActivePolicies oa od) t recv req s
      = Some (s\<lparr>as_audit := a\<rparr>, ResponseMessage (Some (proto_response r)), None)"
    by (simp add: AuthzServer_CheckAccess_def r log)
  moreover have "metrics_ready lib Count m" using assms(1) by (simp add: b)
  ultimately show ?thesis
    using r log
    by (simp add: b grpc_call_def CheckAccess_Handler_def UnaryInterceptor_eq client_answer_def
        response_record_proto)
qed

text \<open>A call that fails in decoding changes nothing; no other call fails.\<close>

lemma grpc_call_failed:
  assumes "metrics_ready lib Count (fst b)" "\<not> ch_closed (as_audit (snd b))"
    and "grpc_call rx lib oa od t recv decoded b = Some (b', msg, Some err)"
  shows "b' = b \<and> decoded = Inl err"
proof (cases decoded)
  case (Inl e)
  then show ?thesis using assms(3) by (simp add: grpc_call_def CheckAccess_Handler_def)
next
  case (Inr req)
  then show ?thesis
    using assms(3) grpc_call_decided [OF assms(1,2), of rx oa od req t recv] by auto
qed

subsection \<open>What every run establishes\<close>

text \<open>The records that the request path offered to the logger, in order.\<close>

definition offered :: "audit_event list \<Rightarrow> AuditLog list" where
  "offered es = concat (map (\<lambda>e. case e of Accepted r \<Rightarrow> [r] | Dropped r \<Rightarrow> [r] | _ \<Rightarrow> []) es)"

lemma offered_simps [simp]:
  "offered [] = []" "offered (es @ fs) = offered es @ offered fs"
  "offered [Accepted r] = [r]" "offered [Dropped r] = [r]" "offered [Worked i] = []"
  by (simp_all add: offered_def)

lemma mset_offered: "mset (offered es) = mset (accepted es) + mset (dropped es)"
  by (induction es) (auto simp: offered_def accepted_def dropped_def split: audit_event.splits)

definition system_inv ::
  "'r regexp_lib \<Rightarrow> ('c, 'f) prom_lib \<Rightarrow> bouncer_event list \<Rightarrow> ('r, 'c, 'f) bouncer \<Rightarrow> bool" where
  "system_inv rx lib es b \<longleftrightarrow> metrics_ready lib Count (fst b)
     \<and> \<not> ch_closed (as_audit (snd b))
     \<and> as_engine (snd b) = run_updates UpsertPolicy DeletePolicy (event_updates rx es) NewPolicyStore
     \<and> mt_calls (fst b) = concat (map (decision_calls lib) (responses es))
     \<and> (\<exists>aes. audit_run (started 10000 5) aes (as_audit (snd b)) \<and> offered aes = served_records es)"

lemma system_invD:
  assumes "system_inv rx lib es b"
  shows "metrics_ready lib Count (fst b)" "\<not> ch_closed (as_audit (snd b))"
    "as_engine (snd b) = run_updates UpsertPolicy DeletePolicy (event_updates rx es) NewPolicyStore"
    "mt_calls (fst b) = concat (map (decision_calls lib) (responses es))"
    "\<exists>aes. audit_run (started 10000 5) aes (as_audit (snd b)) \<and> offered aes = served_records es"
  using assms by (auto simp: system_inv_def)

lemma system_inv_boot: "main_setup lib = Some b \<Longrightarrow> system_inv rx lib [] b"
proof -
  assume boot: "main_setup lib = Some b"
  then obtain m where m: "Register lib Count initial_metrics = Some m"
      "b = (m, NewAuthzServer NewPolicyStore (started 10000 5))"
    by (auto simp: main_setup_def started_def NewAuditLogger_def Let_def split: option.splits)
  have "audit_run (started 10000 5) [] (started 10000 5)" by (rule run_Nil)
  moreover have "offered [] = served_records []" by simp
  ultimately have "\<exists>aes. audit_run (started 10000 5) aes (started 10000 5) \<and> offered aes = served_records []"
    by blast
  then show ?thesis
    using Register_ready [OF m(1)]
    by (simp add: system_inv_def m(2) NewAuthzServer_def) (simp add: initial_metrics_def)
qed

lemma system_inv_serve:
  assumes inv: "system_inv rx lib es b" and rcv: "receiver_ok (as_audit (snd b)) recv"
    and call: "grpc_call rx lib oa od t recv (Inr req) b = Some (b', ResponseMessage (Some resp), None)"
  shows "system_inv rx lib (es @ [Served req resp]) b'"
proof -
  obtain r a ok where r: "LogDecision recv (response_record req resp) (as_audit (snd b)) = Some (a, ok)"
      "b' = ((fst b)\<lparr>mt_calls := mt_calls (fst b) @ decision_calls lib resp\<rparr>, (snd b)\<lparr>as_audit := a\<rparr>)"
    using grpc_call_decided [OF system_invD(1,2) [OF inv], of rx oa od req t recv] call by auto
  obtain aes where aes: "audit_run (started 10000 5) aes (as_audit (snd b))" "offered aes = served_records es"
    using system_invD(5) [OF inv] by blast
  have "\<exists>e. audit_step (as_audit (snd b)) e a \<and> offered [e] = [response_record req resp]"
    using Log_accepted [OF rcv] Log_dropped [OF rcv] r(1) offered_simps(3,4) by (cases ok) metis+
  then obtain e where "audit_run (started 10000 5) (aes @ [e]) a" "offered [e] = [response_record req resp]"
    using run_snoc [OF aes(1)] by blast
  then have "\<exists>aes. audit_run (started 10000 5) aes a
      \<and> offered aes = served_records es @ [response_record req resp]"
    using aes(2) offered_simps(2) by metis
  then show ?thesis
    using system_invD(1-4) [OF inv] LogDecision_closed [OF r(1)]
    by (simp add: system_inv_def r(2))
qed

lemma system_inv_work:
  assumes inv: "system_inv rx lib es b" and step: "worker_step i (as_audit (snd b)) = Some a"
  shows "system_inv rx lib (es @ [AuditWorked i]) (fst b, (snd b)\<lparr>as_audit := a\<rparr>)"
proof -
  obtain aes where aes: "audit_run (started 10000 5) aes (as_audit (snd b))" "offered aes = served_records es"
    using system_invD(5) [OF inv] by blast
  have "audit_run (started 10000 5) (aes @ [Worked i]) a" by (rule run_snoc [OF aes(1) Work [OF step]])
  moreover have "offered (aes @ [Worked i]) = served_records es" using aes(2) by simp
  ultimately have "\<exists>aes. audit_run (started 10000 5) aes a \<and> offered aes = served_records es" by blast
  moreover have "ch_closed a = ch_closed (as_audit (snd b))" using content_worker [OF step] by blast
  ultimately show ?thesis using system_invD(1-4) [OF inv] by (simp add: system_inv_def)
qed

lemma system_inv_apply:
  assumes "system_inv rx lib es b"
  shows "system_inv rx lib (es @ [Applied vs]) (apply_entry rx vs b)"
  using assms
  by (simp add: system_inv_def apply_entry_def processMessageEntry_store run_updates_append)

lemma bouncer_run_inv: "bouncer_run rx lib es b \<Longrightarrow> system_inv rx lib es b"
proof (induction rule: bouncer_run.induct)
  case (Boot b)
  then show ?case by (rule system_inv_boot)
next
  case (Step es b e b')
  note inv = Step.IH
  from Step.hyps(2) show ?case
  proof (cases rule: bouncer_step.cases)
    case (Fail oa od t recv decoded msg err)
    have "b' = b" by (rule conjunct1 [OF grpc_call_failed [OF system_invD(1,2) [OF inv] Fail(2)]])
    then show ?thesis using inv by (simp add: Fail(1) system_inv_def)
  qed (use inv in \<open>auto intro: system_inv_serve system_inv_apply system_inv_work\<close>)
qed

text \<open>The table of policies that the entries applied in a run leave.\<close>

definition run_table :: "'r regexp_lib \<Rightarrow> bouncer_event list \<Rightarrow> string \<Rightarrow> 'r policy option" where
  "run_table rx es = foldl table_update (\<lambda>_. None) (event_updates rx es)"

lemma system_engine:
  assumes "system_inv rx lib es b"
  shows "store_inv (as_engine (snd b))" "stored (as_engine (snd b)) = run_table rx es"
  using store.run [of "event_updates rx es"]
  by (simp_all add: system_invD(3) [OF assms] run_table_def)

text \<open>
  The process as a decision service: behind the interceptor and the generated handler the
  contract of the server still holds.
\<close>

definition system_usable ::
  "('c, 'f) prom_lib \<Rightarrow> 'r map_order \<Rightarrow> 'r map_order \<Rightarrow> ('r, 'c, 'f) bouncer \<Rightarrow> bool" where
  "system_usable lib oa od b \<longleftrightarrow> metrics_ready lib Count (fst b)
     \<and> store_inv (as_engine (snd b)) \<and> range_order oa \<and> range_order od"

definition system_decides :: "'r regexp_lib \<Rightarrow> ('r, 'c, 'f) bouncer \<Rightarrow> CheckAccessRequest \<Rightarrow> bool" where
  "system_decides rx b req = server_decides rx (snd b) req"

lemma grpc_call_contract:
  assumes "system_usable lib oa od b"
    and call: "grpc_call rx lib oa od t recv (Inr req) b = Some (b', msg, err)"
    and "client_answer (msg, err) = Inr r"
  shows "crs_Allowed r = system_decides rx b req"
proof -
  have step: "UnaryInterceptor lib (lift_handler (AuthzServer_CheckAccess rx (ListActivePolicies oa od) t recv req))
      (fst b, snd b) = Some (b', msg, err)"
    using call by (simp add: grpc_call_def CheckAccess_Handler_def)
  have "metrics_ready lib Count (fst b)"
    and "store_inv (as_engine (snd b)) \<and> range_order oa \<and> range_order od"
    using assms(1) by (auto simp: system_usable_def)
  from server.intercepted [OF this step assms(3)] show ?thesis by (simp add: system_decides_def)
qed

interpretation process: decision_service
  "\<lambda>req. grpc_call rx lib oa od t recv (Inr req)" "system_decides rx" "system_usable lib oa od"
  for rx lib oa od t recv
  by unfold_locales (rule grpc_call_contract)

lemma system_inv_usable:
  "system_inv rx lib es b \<Longrightarrow> range_order oa \<Longrightarrow> range_order od \<Longrightarrow> system_usable lib oa od b"
  by (simp add: system_usable_def system_invD(1) system_engine(1))

lemma system_decides_table:
  "system_inv rx lib es b \<Longrightarrow>
     system_decides rx b req \<longleftrightarrow> authorized rx (run_table rx es) (eval_request req)"
  by (simp add: system_decides_def server_decides_def system_engine(2))

lemma grpc_call_decides:
  assumes "system_inv rx lib es b" "range_order oa" "range_order od"
    and "grpc_call rx lib oa od t recv (Inr req) b = Some (b', msg, err)"
    and "client_answer (msg, err) = Inr r"
  shows "crs_Allowed r \<longleftrightarrow> authorized rx (run_table rx es) (eval_request req)"
  using process.answer_decides [OF system_inv_usable [OF assms(1-3)] assms(4,5)]
  by (simp add: system_decides_table [OF assms(1)])

lemma served_prefix:
  "bouncer_run rx lib es b \<Longrightarrow> es = xs @ Served req resp # ys \<Longrightarrow>
     crs_Allowed resp \<longleftrightarrow> authorized rx (run_table rx xs) (eval_request req)"
proof (induction arbitrary: ys rule: bouncer_run.induct)
  case (Step es b e b')
  show ?case
  proof (cases ys rule: rev_cases)
    case Nil
    then have eq: "es = xs" "e = Served req resp" using Step.prems by auto
    from Step.hyps(2) show ?thesis
    proof (cases rule: bouncer_step.cases)
      case (Serve oa od recv t req' resp')
      have "client_answer (ResponseMessage (Some resp), None) = Inr resp"
        by (simp add: client_answer_def)
      moreover have "grpc_call rx lib oa od t recv (Inr req) b = Some (b', ResponseMessage (Some resp), None)"
        using Serve eq by simp
      ultimately show ?thesis
        using grpc_call_decides [OF bouncer_run_inv [OF Step.hyps(1)] Serve(2,3)] eq(1) by blast
    qed (use eq in auto)
  next
    case (snoc ys' e')
    then show ?thesis using Step.IH [of ys'] Step.prems by simp
  qed
qed simp

subsection \<open>Properties of the process\<close>

text \<open>
  The decisions of the process call by call.  In the transition system of this theory, where a
  call is one step that no update overlaps, every response allows exactly when the policies that
  the stream entries applied before it leave in force authorize the request.  What holds of
  calls that updates overlap is the subject of \<open>Process_Concurrent\<close> and \<open>Process_Moments\<close>.
\<close>

theorem system_decisions:
  assumes "bouncer_run rx lib (xs @ Served req resp # ys) b"
  shows "crs_Allowed resp \<longleftrightarrow> authorized rx (run_table rx xs) (eval_request req)"
  by (rule served_prefix [OF assms refl])

text \<open>
  The process always answers.  In every reachable state a decoded request gets a response,
  never an error and never a panic, whatever the state of the audit log.
\<close>

theorem system_always_answers:
  assumes "bouncer_run rx lib es b"
  shows "\<exists>b' resp. grpc_call rx lib oa od t recv (Inr req) b = Some (b', ResponseMessage (Some resp), None)"
  using grpc_call_decided [OF system_invD(1,2) [OF bouncer_run_inv [OF assms]], of rx oa od req t recv] by auto

text \<open>
  The audit trail is complete up to counted drops.  In every run the records of the
  responses given, one each, are the written ones, the ones a worker holds, the ones in the
  buffer and the dropped ones, and there is one warning for each dropped record.
\<close>

theorem system_audit_complete:
  assumes "bouncer_run rx lib es b"
  shows "\<exists>lost. mset (served_records es)
      = mset (slog_records (as_audit (snd b))) + in_flight (lg_workers (as_audit (snd b)))
        + mset (ch_buf (as_audit (snd b))) + mset lost
    \<and> length lost = slog_warnings (as_audit (snd b))"
proof -
  obtain aes where aes: "audit_run (started 10000 5) aes (as_audit (snd b))" "offered aes = served_records es"
    using system_invD(5) [OF bouncer_run_inv [OF assms]] by blast
  from audit_conserved [OF aes(1)] mset_offered [of aes] aes(2) show ?thesis
    by (intro exI [of _ "dropped aes"]) simp
qed

text \<open>
  The metrics agree with the traffic.  In every run the calls on the Prometheus client are,
  in order, one increment of the counter of the decision and one observation of the engine's
  time for every response given and nothing else, and the policy gauge is the number of
  identifiers in force.
\<close>

theorem system_metrics:
  assumes "bouncer_run rx lib es b"
  shows "mt_calls (fst b) = concat (map (decision_calls lib) (responses es))
    \<and> policyCount (fst b) (as_engine (snd b)) = card (dom (run_table rx es))"
proof -
  note inv = bouncer_run_inv [OF assms]
  show ?thesis
    using system_invD(4) [OF inv] counter.gauge [OF system_engine(1) [OF inv] system_invD(1) [OF inv]]
    by (simp add: system_engine(2) [OF inv])
qed

subsection \<open>Examples for the witnesses\<close>

definition fresh_process :: "('r, string, int \<times> int) bouncer" where
  "fresh_process = (sample_metrics Count, NewAuthzServer NewPolicyStore (started 10000 5))"

abbreviation sample_boot :: "(string, string, int \<times> int) bouncer" where
  "sample_boot \<equiv> fresh_process"

lemma sample_main_setup: "main_setup sample_prom = Some fresh_process"
  by (simp add: main_setup_def sample_Register fresh_process_def started_def NewAuditLogger_def)

text \<open>One request before and one after the policy arrives.\<close>

definition sample_entry :: entry_values where
  "sample_entry = Publish_values ActionUpsert ''a'' sample_document"

lemma sample_entry_updates: "entry_updates literal_regexp sample_entry = [Upsert document_policy]"
  using Unmarshal_nonempty [OF sample_document_decodes]
  by (simp add: sample_entry_def entry_updates_def entry_update_def processMessageEntry_def
      sample_document_decodes)

lemma sample_authorized:
  "authorized literal_regexp (run_table literal_regexp [Applied sample_entry]) (sample_request ''admin'')"
  by (auto simp: run_table_def event_updates_def sample_entry_updates authorized_def granted_def
      allow_part_def deny_part_def ran_def split: if_splits)

lemma sample_bouncer_run:
  "\<exists>resp b. bouncer_run literal_regexp sample_prom [Applied sample_entry, Served (sample_call ''admin'') resp] b"
proof -
  have run: "bouncer_run literal_regexp sample_prom ([] @ [Applied sample_entry])
      (apply_entry literal_regexp sample_entry sample_boot)"
    by (rule Step [OF Boot [OF sample_main_setup] Apply])
  let ?b = "apply_entry literal_regexp sample_entry sample_boot"
  have rcv: "receiver_ok (as_audit (snd ?b)) 0"
    by (simp add: receiver_ok_def apply_entry_def fresh_process_def NewAuthzServer_def)
  obtain b' resp where "grpc_call literal_regexp sample_prom rev rev 5 0 (Inr (sample_call ''admin'')) ?b
      = Some (b', ResponseMessage (Some resp), None)"
    using grpc_call_decided [OF system_invD(1,2) [OF bouncer_run_inv [OF run]]] by blast
  from Step [OF run Serve [OF range_order_rev range_order_rev rcv this]] show ?thesis
    by (simp only: append.simps) blast
qed

theorem system_decisions_witness:
  "\<exists>resp b. bouncer_run literal_regexp sample_prom [Applied sample_entry, Served (sample_call ''admin'') resp] b
     \<and> crs_Allowed resp"
proof -
  obtain resp b where run: "bouncer_run literal_regexp sample_prom
      [Applied sample_entry, Served (sample_call ''admin'') resp] b"
    using sample_bouncer_run by blast
  then have "bouncer_run literal_regexp sample_prom
      ([Applied sample_entry] @ Served (sample_call ''admin'') resp # []) b" by simp
  from system_decisions [OF this] have "crs_Allowed resp"
    using sample_authorized by (simp add: eval_sample_call)
  with run show ?thesis by blast
qed

theorem system_always_answers_witness:
  "\<exists>b' resp. grpc_call literal_regexp sample_prom rev rev 5 0 (Inr (sample_call ''admin'')) sample_boot
     = Some (b', ResponseMessage (Some resp), None)"
  using system_always_answers [OF Boot [OF sample_main_setup]] by blast

theorem system_audit_complete_witness:
  "\<exists>resp b lost. {#response_record (sample_call ''admin'') resp#}
      = mset (slog_records (as_audit (snd (b :: (string, string, int \<times> int) bouncer))))
        + in_flight (lg_workers (as_audit (snd b))) + mset (ch_buf (as_audit (snd b))) + mset lost"
proof -
  obtain resp b where run: "bouncer_run literal_regexp sample_prom
      [Applied sample_entry, Served (sample_call ''admin'') resp] b"
    using sample_bouncer_run by blast
  have "served_records [Applied sample_entry, Served (sample_call ''admin'') resp]
      = [response_record (sample_call ''admin'') resp]"
    by (simp add: served_records_def)
  with system_audit_complete [OF run] show ?thesis by (metis mset_single_iff_right)
qed

theorem system_metrics_witness:
  "policyCount (fst sample_boot) (as_engine (snd sample_boot)) = 0"
  using system_metrics [OF Boot [OF sample_main_setup], of literal_regexp]
  by (simp add: run_table_def)

end
