(* ===== verification/Process_Concurrent.thy ===== *)
theory Process_Concurrent
  imports Bouncer_System Store_Concurrent
begin

text \<open>
  The running process with calls that overlap each other and the subscriber.  In
  \<open>Bouncer_System\<close> a served call is one step; here it is its atomic operations: the load of the
  allow pointer and the load of the deny pointer in \<open>ListActivePolicies\<close>, the evaluation with the
  send of the audit record, and the interceptor with the response.  The subscriber works on
  an entry one atomic operation of the store at a time.  A scrape of the metrics endpoint
  recomputes the gauge with the same two loads, in \<open>Count\<close>; the endpoint runs beside the gRPC
  server, and when its listener fails it stops for good without touching anything else.

  Any number of calls and scrapes is in progress, each in a slot; the goroutine of slot \<open>i\<close> has
  the number \<open>i + 1\<close> in the system of \<open>Store_Concurrent\<close>, and the subscriber has the number 0.
\<close>

subsection \<open>The model\<close>

datatype rpc =
    Idle
  | Evaluating CheckAccessRequest
  | Decided CheckAccessRequest CheckAccessResponse
  | Scraping

record ('r, 'c, 'f) conc =
  cc_system :: "'r system"
  cc_entry :: "entry_values option"
  cc_rpcs :: "nat \<Rightarrow> rpc"
  cc_metrics :: "('r PolicyStore, 'c, 'f) metrics"
  cc_audit :: AuditLogger
  cc_endpoint :: bool

definition no_goroutine :: "'r goroutine" where
  "no_goroutine = Writer [] AtLoad"

definition conc_boot :: "('r, 'c, 'f) bouncer \<Rightarrow> ('r, 'c, 'f) conc" where
  "conc_boot b =
     \<lparr>cc_system = start_system (as_engine (snd b)) (\<lambda>_. no_goroutine), cc_entry = None,
      cc_rpcs = (\<lambda>_. Idle), cc_metrics = fst b, cc_audit = as_audit (snd b),
      cc_endpoint = True\<rparr>"

definition set_proc :: "nat \<Rightarrow> 'r goroutine \<Rightarrow> ('r, 'c, 'f) conc \<Rightarrow> ('r, 'c, 'f) conc" where
  "set_proc k g s = s\<lparr>cc_system := (cc_system s)\<lparr>procs := (procs (cc_system s))(k := g)\<rparr>\<rparr>"

definition set_rpc :: "nat \<Rightarrow> rpc \<Rightarrow> ('r, 'c, 'f) conc \<Rightarrow> ('r, 'c, 'f) conc" where
  "set_rpc i c s = s\<lparr>cc_rpcs := (cc_rpcs s)(i := c)\<rparr>"

text \<open>The server's evaluation of a call that has loaded the tables \<open>A\<close> and \<open>D\<close>.\<close>

definition evaluate ::
  "'r regexp_lib \<Rightarrow> 'r map_order \<Rightarrow> 'r map_order \<Rightarrow> int \<Rightarrow> nat \<Rightarrow> CheckAccessRequest
     \<Rightarrow> 'r PolicyMap \<Rightarrow> 'r PolicyMap \<Rightarrow> AuditLogger \<Rightarrow> 'r PolicyStore AuthzServer unary_result" where
  "evaluate rx oa od elapsed recv req A D audit =
     AuthzServer_CheckAccess rx (ListActivePolicies oa od) elapsed recv req
       (NewAuthzServer \<lparr>ps_allow = A, ps_deny = D\<rparr> audit)"

text \<open>The goroutine of the metrics endpoint, when its serving call returns with an error.\<close>

definition metrics_server_returned :: "('r, 'c, 'f) conc \<Rightarrow> ('r, 'c, 'f) conc" where
  "metrics_server_returned s = s\<lparr>cc_endpoint := False\<rparr>"

text \<open>The value of the gauge in a scrape that has loaded the tables \<open>A\<close> and \<open>D\<close>.\<close>

definition scraped_gauge ::
  "('r PolicyStore, 'c, 'f) metrics \<Rightarrow> 'r PolicyMap \<Rightarrow> 'r PolicyMap \<Rightarrow> nat" where
  "scraped_gauge m A D = policyCount m \<lparr>ps_allow = A, ps_deny = D\<rparr>"

datatype conc_event =
    Received nat CheckAccessRequest
  | Loaded nat
  | Evaluated nat CheckAccessRequest CheckAccessResponse
  | Answered nat CheckAccessRequest CheckAccessResponse
  | EntryRead entry_values
  | SubscriberMoved
  | EntryApplied entry_values
  | WorkerMoved nat
  | ScrapeBegun nat
  | Scraped nat nat
  | EndpointStopped

text \<open>Who loads pointers: a call that is evaluated, and a scrape.\<close>

fun loading :: "rpc \<Rightarrow> bool" where
  "loading (Evaluating req) = True"
| "loading Scraping = True"
| "loading _ = False"

inductive conc_step ::
  "'r regexp_lib \<Rightarrow> ('c, 'f) prom_lib \<Rightarrow> ('r, 'c, 'f) conc \<Rightarrow> conc_event \<Rightarrow> ('r, 'c, 'f) conc \<Rightarrow> bool"
  for rx lib where
  Receive:
    "cc_rpcs s i = Idle \<Longrightarrow>
     conc_step rx lib s (Received i req) (set_proc (Suc i) Reader (set_rpc i (Evaluating req) s))"
| Load:
    "loading (cc_rpcs s i) \<Longrightarrow> system_step (Suc i) (cc_system s) = Some sys \<Longrightarrow>
     conc_step rx lib s (Loaded i) (s\<lparr>cc_system := sys\<rparr>)"
| Evaluate:
    "cc_rpcs s i = Evaluating req \<Longrightarrow> procs (cc_system s) (Suc i) = ReaderDone A D \<Longrightarrow>
     range_order oa \<Longrightarrow> range_order od \<Longrightarrow> receiver_ok (cc_audit s) recv \<Longrightarrow>
     evaluate rx oa od t recv req A D (cc_audit s) = Some (srv, ResponseMessage (Some resp), None) \<Longrightarrow>
     conc_step rx lib s (Evaluated i req resp)
       (set_proc (Suc i) no_goroutine (set_rpc i (Decided req resp) (s\<lparr>cc_audit := as_audit srv\<rparr>)))"
| Answer:
    "cc_rpcs s i = Decided req resp \<Longrightarrow>
     UnaryInterceptor lib (\<lambda>ms. Some (ms, ResponseMessage (Some resp), None)) (cc_metrics s, ())
       = Some ((m, ()), ResponseMessage (Some resp), None) \<Longrightarrow>
     conc_step rx lib s (Answered i req resp) (set_rpc i Idle (s\<lparr>cc_metrics := m\<rparr>))"
| ReadEntry:
    "cc_entry s = None \<Longrightarrow>
     conc_step rx lib s (EntryRead vs)
       (set_proc 0 (Writer (update_list_calls (entry_updates rx vs)) AtLoad) (s\<lparr>cc_entry := Some vs\<rparr>))"
| MoveSubscriber:
    "system_step 0 (cc_system s) = Some sys \<Longrightarrow>
     conc_step rx lib s SubscriberMoved (s\<lparr>cc_system := sys\<rparr>)"
| FinishEntry:
    "cc_entry s = Some vs \<Longrightarrow> procs (cc_system s) 0 = Writer [] AtLoad \<Longrightarrow>
     conc_step rx lib s (EntryApplied vs) (s\<lparr>cc_entry := None\<rparr>)"
| MoveWorker:
    "worker_step i (cc_audit s) = Some a \<Longrightarrow>
     conc_step rx lib s (WorkerMoved i) (s\<lparr>cc_audit := a\<rparr>)"
| BeginScrape:
    "cc_rpcs s i = Idle \<Longrightarrow> cc_endpoint s \<Longrightarrow>
     conc_step rx lib s (ScrapeBegun i) (set_proc (Suc i) Reader (set_rpc i Scraping s))"
| EndScrape:
    "cc_rpcs s i = Scraping \<Longrightarrow> procs (cc_system s) (Suc i) = ReaderDone A D \<Longrightarrow>
     conc_step rx lib s (Scraped i (scraped_gauge (cc_metrics s) A D))
       (set_proc (Suc i) no_goroutine (set_rpc i Idle s))"
| StopEndpoint:
    "cc_endpoint s \<Longrightarrow> conc_step rx lib s EndpointStopped (metrics_server_returned s)"

inductive_cases conc_stepE: "conc_step rx lib s e s'"

inductive conc_run ::
  "'r regexp_lib \<Rightarrow> ('c, 'f) prom_lib \<Rightarrow> conc_event list \<Rightarrow> ('r, 'c, 'f) conc \<Rightarrow> bool"
  for rx lib where
  Boot_conc: "main_setup lib = Some b \<Longrightarrow> conc_run rx lib [] (conc_boot b)"
| Step_conc: "conc_run rx lib es s \<Longrightarrow> conc_step rx lib s e s' \<Longrightarrow> conc_run rx lib (es @ [e]) s'"

text \<open>A path of steps from a given state.\<close>

inductive conc_steps ::
  "'r regexp_lib \<Rightarrow> ('c, 'f) prom_lib \<Rightarrow> ('r, 'c, 'f) conc \<Rightarrow> conc_event list \<Rightarrow> ('r, 'c, 'f) conc \<Rightarrow> bool"
  for rx lib where
  No_step: "conc_steps rx lib s [] s"
| First_step: "conc_step rx lib s e s1 \<Longrightarrow> conc_steps rx lib s1 es s2 \<Longrightarrow> conc_steps rx lib s (e # es) s2"

lemma conc_run_steps: "conc_steps rx lib s fs s' \<Longrightarrow> conc_run rx lib es s \<Longrightarrow> conc_run rx lib (es @ fs) s'"
proof (induction arbitrary: es rule: conc_steps.induct)
  case (First_step s e s1 fs s2)
  from First_step.IH [OF Step_conc [OF First_step.prems First_step.hyps(1)]] show ?case by simp
qed simp

lemma conc_steps_snoc:
  "conc_steps rx lib s fs s1 \<Longrightarrow> conc_step rx lib s1 e s2 \<Longrightarrow> conc_steps rx lib s (fs @ [e]) s2"
  by (induction rule: conc_steps.induct) (auto intro: conc_steps.intros)

lemma set_simps [simp]:
  "cc_entry (set_proc k g s) = cc_entry s" "cc_rpcs (set_proc k g s) = cc_rpcs s"
  "cc_metrics (set_proc k g s) = cc_metrics s" "cc_audit (set_proc k g s) = cc_audit s"
  "shared (cc_system (set_proc k g s)) = shared (cc_system s)"
  "procs (cc_system (set_proc k g s)) = (procs (cc_system s))(k := g)"
  "cc_entry (set_rpc i c s) = cc_entry s" "cc_rpcs (set_rpc i c s) = (cc_rpcs s)(i := c)"
  "cc_metrics (set_rpc i c s) = cc_metrics s" "cc_audit (set_rpc i c s) = cc_audit s"
  "cc_system (set_rpc i c s) = cc_system s" "cc_endpoint (set_rpc i c s) = cc_endpoint s"
  "cc_endpoint (set_proc k g s) = cc_endpoint s"
  by (simp_all add: set_proc_def set_rpc_def)

lemma endpoint_simps [simp]:
  "cc_entry (metrics_server_returned s) = cc_entry s" "cc_rpcs (metrics_server_returned s) = cc_rpcs s"
  "cc_metrics (metrics_server_returned s) = cc_metrics s" "cc_audit (metrics_server_returned s) = cc_audit s"
  "cc_system (metrics_server_returned s) = cc_system s"
  by (simp_all add: metrics_server_returned_def)

subsection \<open>What the events of a run say\<close>

text \<open>Updates begun and updates finished by the subscriber.\<close>

definition begun :: "'r regexp_lib \<Rightarrow> conc_event list \<Rightarrow> 'r update list" where
  "begun rx es = concat (map (\<lambda>e. case e of EntryRead vs \<Rightarrow> entry_updates rx vs | _ \<Rightarrow> []) es)"

definition finished :: "'r regexp_lib \<Rightarrow> conc_event list \<Rightarrow> 'r update list" where
  "finished rx es = concat (map (\<lambda>e. case e of EntryApplied vs \<Rightarrow> entry_updates rx vs | _ \<Rightarrow> []) es)"

lemma begun_snoc:
  "begun rx (es @ [e]) = begun rx es @ (case e of EntryRead vs \<Rightarrow> entry_updates rx vs | _ \<Rightarrow> [])"
  by (simp add: begun_def)

lemma finished_snoc:
  "finished rx (es @ [e]) = finished rx es @ (case e of EntryApplied vs \<Rightarrow> entry_updates rx vs | _ \<Rightarrow> [])"
  by (simp add: finished_def)

lemma begun_finished_Nil [simp]: "begun rx [] = []" "finished rx [] = []"
  by (simp_all add: begun_def finished_def)

text \<open>The events before the call or the scrape that occupies a slot came in.\<close>

fun received_in :: "nat \<Rightarrow> conc_event \<Rightarrow> bool" where
  "received_in i (Received j req) = (i = j)"
| "received_in i (ScrapeBegun j) = (i = j)"
| "received_in i _ = False"

definition before_call :: "nat \<Rightarrow> conc_event list \<Rightarrow> conc_event list" where
  "before_call i es = rev (drop 1 (dropWhile (\<lambda>e. \<not> received_in i e) (rev es)))"

lemma before_call_snoc [simp]:
  "before_call i (es @ [e]) = (if received_in i e then es else before_call i es)"
  by (simp add: before_call_def)

lemma before_call_received:
  "\<forall>e \<in> set ys. \<not> received_in i e \<Longrightarrow> before_call i (xs @ Received i req # ys) = xs"
proof (induction ys rule: rev_induct)
  case Nil
  then show ?case using before_call_snoc [of i xs "Received i req"] by simp
next
  case (snoc y ys)
  then show ?case using before_call_snoc [of i "xs @ Received i req # ys" y] by simp
qed


subsection \<open>The store under the running process\<close>

lemma length_update_calls [simp]: "length (update_calls u) = 2"
  by (cases u) simp_all

lemma update_list_calls_append [simp]:
  "update_list_calls (us @ vs) = update_list_calls us @ update_list_calls vs"
  by (simp add: update_list_calls_def)

lemma length_update_list_calls [simp]: "length (update_list_calls us) = 2 * length us"
  by (induction us) (simp_all add: update_list_calls_def)

lemma hist_append: "m \<le> length cs \<Longrightarrow> hist (cs @ ds) st m = hist cs st m"
  by (simp add: hist_def)

text \<open>The stores that the calls of the begun updates pass through, from the empty store on.\<close>

definition store_at :: "'r regexp_lib \<Rightarrow> conc_event list \<Rightarrow> nat \<Rightarrow> 'r PolicyStore" where
  "store_at rx es = hist (update_list_calls (begun rx es)) NewPolicyStore"

lemma store_at_mono:
  "m \<le> 2 * length (begun rx es) \<Longrightarrow> store_at rx (es @ [e]) m = store_at rx es m"
  by (simp add: store_at_def begun_snoc hist_append)

text \<open>
  What a call has seen: the points \<open>m\<close> and \<open>l\<close> at which it loaded the two pointers, not before
  the point \<open>lo\<close> at which it came in and not after the present point \<open>n\<close>.
\<close>

definition decided_on ::
  "'r regexp_lib \<Rightarrow> (nat \<Rightarrow> 'r PolicyStore) \<Rightarrow> nat \<Rightarrow> nat \<Rightarrow> CheckAccessRequest \<Rightarrow> CheckAccessResponse \<Rightarrow> bool" where
  "decided_on rx h lo n req resp \<longleftrightarrow>
     (\<exists>m l. lo \<le> m \<and> m \<le> l \<and> l \<le> n
        \<and> (crs_Allowed resp \<longleftrightarrow> tables_granted rx (ps_allow (h m)) (ps_deny (h l)) (eval_request req)))"

fun load_view :: "(nat \<Rightarrow> 'r PolicyStore) \<Rightarrow> nat \<Rightarrow> nat \<Rightarrow> 'r goroutine \<Rightarrow> bool" where
  "load_view h lo n Reader = (lo \<le> n)"
| "load_view h lo n (ReaderAllow A) = (\<exists>m. lo \<le> m \<and> m \<le> n \<and> A = ps_allow (h m))"
| "load_view h lo n (ReaderDone A D) =
     (\<exists>m l. lo \<le> m \<and> m \<le> l \<and> l \<le> n \<and> A = ps_allow (h m) \<and> D = ps_deny (h l))"
| "load_view h lo n (Writer cs pc) = False"

fun call_view ::
  "'r regexp_lib \<Rightarrow> (nat \<Rightarrow> 'r PolicyStore) \<Rightarrow> nat \<Rightarrow> nat \<Rightarrow> rpc \<Rightarrow> 'r goroutine \<Rightarrow> bool" where
  "call_view rx h lo n Idle g = (g = no_goroutine)"
| "call_view rx h lo n (Evaluating req) g = load_view h lo n g"
| "call_view rx h lo n Scraping g = load_view h lo n g"
| "call_view rx h lo n (Decided req resp) g = (g = no_goroutine \<and> decided_on rx h lo n req resp)"

lemma call_view_loading: "loading c \<Longrightarrow> call_view rx h lo n c g = load_view h lo n g"
  by (cases c) simp_all

lemma load_view_mono:
  assumes "load_view h lo n g" "n \<le> n'" "\<And>m. m \<le> n \<Longrightarrow> h' m = h m"
  shows "load_view h' lo n' g"
proof (cases g)
  case (ReaderDone A D)
  then obtain m l where "lo \<le> m" "m \<le> l" "l \<le> n" "A = ps_allow (h m)" "D = ps_deny (h l)"
    using assms(1) by auto
  then have "lo \<le> m \<and> m \<le> l \<and> l \<le> n' \<and> A = ps_allow (h' m) \<and> D = ps_deny (h' l)"
    using assms(2,3) by simp
  then show ?thesis using ReaderDone by auto
qed (use assms in \<open>auto intro: order_trans\<close>)

lemma decided_on_mono:
  assumes "decided_on rx h lo n req resp" "n \<le> n'" "\<And>m. m \<le> n \<Longrightarrow> h' m = h m"
  shows "decided_on rx h' lo n' req resp"
proof -
  obtain m l where "lo \<le> m" "m \<le> l" "l \<le> n"
      "crs_Allowed resp \<longleftrightarrow> tables_granted rx (ps_allow (h m)) (ps_deny (h l)) (eval_request req)"
    using assms(1) by (auto simp: decided_on_def)
  then have "lo \<le> m \<and> m \<le> l \<and> l \<le> n' \<and>
      (crs_Allowed resp \<longleftrightarrow> tables_granted rx (ps_allow (h' m)) (ps_deny (h' l)) (eval_request req))"
    using assms(2,3) by simp
  then show ?thesis unfolding decided_on_def by blast
qed

lemma call_view_mono:
  assumes "call_view rx h lo n c g" "n \<le> n'" "\<And>m. m \<le> n \<Longrightarrow> h' m = h m"
  shows "call_view rx h' lo n' c g"
  using assms load_view_mono [of h lo n g n' h'] decided_on_mono [of rx h lo n _ _ n' h'] by (cases c) auto

text \<open>
  The invariant at the point \<open>n\<close> of the calls of the begun updates: the subscriber has the
  calls after \<open>n\<close> ahead of it, the tables are those of point \<open>n\<close>, and every call has seen
  tables between the updates finished when it came in and \<open>n\<close>.
\<close>

definition calls_ok ::
  "'r regexp_lib \<Rightarrow> conc_event list \<Rightarrow> nat \<Rightarrow> ('r, 'c, 'f) conc \<Rightarrow> bool" where
  "calls_ok rx es n s \<longleftrightarrow>
     (\<forall>i. call_view rx (store_at rx es) (2 * length (finished rx (before_call i es))) n
            (cc_rpcs s i) (procs (cc_system s) (Suc i)))"

definition subscriber_ok ::
  "'r regexp_lib \<Rightarrow> conc_event list \<Rightarrow> nat \<Rightarrow> ('r, 'c, 'f) conc \<Rightarrow> bool" where
  "subscriber_ok rx es n s \<longleftrightarrow>
     conc_inv (cc_system s) \<and> n \<le> 2 * length (begun rx es)
     \<and> (\<exists>pc. procs (cc_system s) 0 = Writer (drop n (update_list_calls (begun rx es))) pc)
     \<and> abs_store (cc_system s) = store_at rx es n
     \<and> (case cc_entry s of
          None \<Rightarrow> begun rx es = finished rx es \<and> n = 2 * length (begun rx es)
        | Some vs \<Rightarrow> begun rx es = finished rx es @ entry_updates rx vs \<and> 2 * length (finished rx es) \<le> n)"

definition window_inv :: "'r regexp_lib \<Rightarrow> conc_event list \<Rightarrow> ('r, 'c, 'f) conc \<Rightarrow> bool" where
  "window_inv rx es s \<longleftrightarrow> (\<exists>n. subscriber_ok rx es n s \<and> calls_ok rx es n s)"

lemma finished_bound: "subscriber_ok rx es n s \<Longrightarrow> 2 * length (finished rx es) \<le> n"
  by (auto simp: subscriber_ok_def split: option.splits)

text \<open>Events that neither begin nor finish an entry leave the bookkeeping alone.\<close>

fun entry_event :: "conc_event \<Rightarrow> bool" where
  "entry_event (EntryRead vs) = True"
| "entry_event (EntryApplied vs) = True"
| "entry_event _ = False"

lemma plain_event:
  assumes "\<not> entry_event e"
  shows "begun rx (es @ [e]) = begun rx es" "finished rx (es @ [e]) = finished rx es"
    "store_at rx (es @ [e]) = store_at rx es"
proof -
  show "begun rx (es @ [e]) = begun rx es" "finished rx (es @ [e]) = finished rx es"
    using assms by (cases e; simp add: begun_snoc finished_snoc)+
  then show "store_at rx (es @ [e]) = store_at rx es" by (simp add: store_at_def)
qed

lemma system_procs_update: "\<lparr>shared = shared x, procs = p\<rparr> = x\<lparr>procs := p\<rparr>"
  by (rule system.equality) simp_all

lemma conc_inv_set_proc:
  assumes "conc_inv (cc_system s)" "\<And>sh. goroutine_ok sh g"
  shows "conc_inv (cc_system (set_proc k g s))"
  using assms by (simp add: conc_inv_def)

lemma subscriber_ok_proc:
  assumes "subscriber_ok rx es n s" "\<not> entry_event e" "\<And>sh. goroutine_ok sh g"
    and "cc_system s' = cc_system (set_proc (Suc k) g s)" "cc_entry s' = cc_entry s"
  shows "subscriber_ok rx (es @ [e]) n s'"
proof -
  have "procs (cc_system s') 0 = procs (cc_system s) 0" "abs_store (cc_system s') = abs_store (cc_system s)"
    using assms(4) by (simp_all add: abs_store_view)
  moreover have "conc_inv (cc_system s) \<Longrightarrow> conc_inv (cc_system s')"
    using conc_inv_set_proc assms(3,4) by metis
  ultimately show ?thesis
    using assms(1) unfolding subscriber_ok_def plain_event [OF assms(2)] assms(5) by simp
qed

lemma calls_ok_other:
  assumes "calls_ok rx es n s" "\<not> entry_event e" "\<And>j. j \<noteq> i \<Longrightarrow> \<not> received_in j e"
    and "\<And>j. j \<noteq> i \<Longrightarrow> cc_rpcs s' j = cc_rpcs s j \<and> procs (cc_system s') (Suc j) = procs (cc_system s) (Suc j)"
    and "call_view rx (store_at rx es) (2 * length (finished rx (before_call i (es @ [e])))) n
           (cc_rpcs s' i) (procs (cc_system s') (Suc i))"
  shows "calls_ok rx (es @ [e]) n s'"
  unfolding calls_ok_def
proof
  fix j
  show "call_view rx (store_at rx (es @ [e])) (2 * length (finished rx (before_call j (es @ [e])))) n
      (cc_rpcs s' j) (procs (cc_system s') (Suc j))"
  proof (cases "j = i")
    case True
    then show ?thesis using assms(5) by (simp only: plain_event(3) [OF assms(2)])
  next
    case False
    then show ?thesis
      using assms(1) assms(3,4) [OF False] by (simp add: calls_ok_def plain_event(3) [OF assms(2)])
  qed
qed


lemma goroutine_ok_none [simp]: "goroutine_ok sh no_goroutine"
  by (simp add: no_goroutine_def)

text \<open>The steps of a call.\<close>

lemma call_step:
  assumes sub: "subscriber_ok rx es n s" and calls: "calls_ok rx es n s"
    and e: "\<not> entry_event e" "\<And>j. j \<noteq> i \<Longrightarrow> \<not> received_in j e"
    and g: "\<And>sh. goroutine_ok sh g"
    and s': "cc_system s' = cc_system (set_proc (Suc i) g s)" "cc_entry s' = cc_entry s"
      "cc_rpcs s' = (cc_rpcs s)(i := c)"
    and view: "call_view rx (store_at rx es) (2 * length (finished rx (before_call i (es @ [e])))) n c g"
  shows "window_inv rx (es @ [e]) s'"
proof -
  have "subscriber_ok rx (es @ [e]) n s'" by (rule subscriber_ok_proc [OF sub e(1) g s'(1,2)])
  moreover have "calls_ok rx (es @ [e]) n s'"
  proof (rule calls_ok_other [OF calls e(1,2)])
    show "cc_rpcs s' j = cc_rpcs s j \<and> procs (cc_system s') (Suc j) = procs (cc_system s) (Suc j)"
      if "j \<noteq> i" for j
      using that by (simp add: s')
    have "cc_rpcs s' i = c" "procs (cc_system s') (Suc i) = g" by (simp_all add: s')
    then show "call_view rx (store_at rx es) (2 * length (finished rx (before_call i (es @ [e])))) n
        (cc_rpcs s' i) (procs (cc_system s') (Suc i))"
      using view by (simp only:)
  qed
  ultimately show ?thesis unfolding window_inv_def by blast
qed

lemma call_viewD:
  "calls_ok rx es n s \<Longrightarrow> call_view rx (store_at rx es) (2 * length (finished rx (before_call i es))) n
     (cc_rpcs s i) (procs (cc_system s) (Suc i))"
  by (simp add: calls_ok_def)

lemma window_inv_receive:
  assumes "subscriber_ok rx es n s" "calls_ok rx es n s"
  shows "window_inv rx (es @ [Received i req]) (set_proc (Suc i) Reader (set_rpc i (Evaluating req) s))"
proof (rule call_step [OF assms, where i = i and g = Reader and c = "Evaluating req"])
  show "call_view rx (store_at rx es)
      (2 * length (finished rx (before_call i (es @ [Received i req])))) n (Evaluating req) Reader"
    using finished_bound [OF assms(1)] by simp
qed (auto simp: set_proc_def set_rpc_def)

text \<open>The steps of a scrape have the shape of the steps of a call.\<close>

lemma window_inv_begin_scrape:
  assumes "subscriber_ok rx es n s" "calls_ok rx es n s"
  shows "window_inv rx (es @ [ScrapeBegun i]) (set_proc (Suc i) Reader (set_rpc i Scraping s))"
proof (rule call_step [OF assms, where i = i and g = Reader and c = Scraping])
  show "call_view rx (store_at rx es)
      (2 * length (finished rx (before_call i (es @ [ScrapeBegun i])))) n Scraping Reader"
    using finished_bound [OF assms(1)] by simp
qed (auto simp: set_proc_def set_rpc_def)

lemma window_inv_end_scrape:
  assumes "subscriber_ok rx es n s" "calls_ok rx es n s"
  shows "window_inv rx (es @ [Scraped i v]) (set_proc (Suc i) no_goroutine (set_rpc i Idle s))"
  by (rule call_step [OF assms, where i = i and g = no_goroutine and c = Idle])
     (auto simp: set_proc_def set_rpc_def)

lemma window_inv_load:
  assumes sub: "subscriber_ok rx es n s" and calls: "calls_ok rx es n s"
    and rpc: "loading (cc_rpcs s i)" and step: "system_step (Suc i) (cc_system s) = Some sys"
  shows "window_inv rx (es @ [Loaded i]) (s\<lparr>cc_system := sys\<rparr>)"
proof -
  let ?lo = "2 * length (finished rx (before_call i es))"
  let ?g = "procs (cc_system s) (Suc i)"
  note view = call_viewD [OF calls, of i, unfolded call_view_loading [OF rpc]]
  have "store_at rx es n = abs_store (cc_system s)" using sub by (simp add: subscriber_ok_def)
  then have tables: "snd (sh_allow (shared (cc_system s))) = ps_allow (store_at rx es n)"
    "snd (sh_deny (shared (cc_system s))) = ps_deny (store_at rx es n)"
    by (simp_all add: abs_store_def)
  obtain g' where g': "sys = cc_system (set_proc (Suc i) g' s)"
      "load_view (store_at rx es) ?lo n g'" "\<And>sh. goroutine_ok sh g'"
  proof (cases ?g)
    case Reader
    then have "sys = cc_system (set_proc (Suc i) (ReaderAllow (ps_allow (store_at rx es n))) s)"
      using step by (auto simp: system_step_def set_proc_def tables system_procs_update)
    moreover have "?lo \<le> n" using view Reader by simp
    ultimately show thesis by (intro that) auto
  next
    case (ReaderAllow A)
    have "sys = cc_system (set_proc (Suc i) (ReaderDone A (ps_deny (store_at rx es n))) s)"
      using ReaderAllow step by (auto simp: system_step_def set_proc_def tables system_procs_update)
    moreover have "load_view (store_at rx es) ?lo n (ReaderDone A (ps_deny (store_at rx es n)))"
      using view ReaderAllow order_refl [of n] unfolding load_view.simps by (simp only: load_view.simps) blast
    ultimately show thesis by (rule that) (rule goroutine_ok_AtLoad(4))
  next
    case (ReaderDone A D)
    then show thesis using step by (simp add: system_step_def)
  next
    case (Writer cs pc)
    then show thesis using view by simp
  qed
  show ?thesis
    by (rule call_step [OF sub calls, where i = i and g = g' and c = "cc_rpcs s i"])
       (use g' rpc in \<open>auto simp: call_view_loading\<close>)
qed

lemma evaluate_decided:
  assumes "evaluate rx oa od t recv req A D audit = Some (srv, ResponseMessage (Some resp), None)"
    and "range_order oa" "range_order od"
  shows "(crs_Allowed resp \<longleftrightarrow> tables_granted rx A D (eval_request req))
    \<and> (\<exists>ok. LogDecision recv (response_record req resp) audit = Some (as_audit srv, ok))"
proof -
  obtain r where r: "CheckAccess rx (ListActivePolicies oa od) \<lparr>ps_allow = A, ps_deny = D\<rparr> (eval_request req) t = Inr r"
      "resp_Allowed r \<longleftrightarrow> tables_granted rx A D (eval_request req)"
    using tables_granted_CheckAccess [OF assms(2,3)] by blast
  from assms(1) [unfolded evaluate_def] show ?thesis
  proof (cases rule: AuthzServer_CheckAccess_cases)
    case (failed e)
    then show ?thesis by simp
  next
    case (decided r' a ok)
    then have "r' = r" "resp = proto_response r" using r(1) by (simp_all add: NewAuthzServer_def)
    then show ?thesis
      using decided r(2) by (auto simp: NewAuthzServer_def response_record_proto) (simp_all add: proto_response_def)
  qed
qed

lemma window_inv_evaluate:
  assumes sub: "subscriber_ok rx es n s" and calls: "calls_ok rx es n s"
    and rpc: "cc_rpcs s i = Evaluating req" and ready: "procs (cc_system s) (Suc i) = ReaderDone A D"
    and allowed: "crs_Allowed resp \<longleftrightarrow> tables_granted rx A D (eval_request req)"
  shows "window_inv rx (es @ [Evaluated i req resp])
    (set_proc (Suc i) no_goroutine (set_rpc i (Decided req resp) (s\<lparr>cc_audit := a\<rparr>)))"
proof (rule call_step [OF sub calls, where i = i and g = no_goroutine and c = "Decided req resp"])
  show "call_view rx (store_at rx es) (2 * length (finished rx (before_call i (es @ [Evaluated i req resp])))) n
      (Decided req resp) no_goroutine"
    using call_viewD [OF calls, of i] allowed by (auto simp: rpc ready decided_on_def)
qed (auto simp: set_proc_def set_rpc_def)

lemma window_inv_answer:
  assumes sub: "subscriber_ok rx es n s" and calls: "calls_ok rx es n s"
    and rpc: "cc_rpcs s i = Decided req resp"
  shows "window_inv rx (es @ [Answered i req resp]) (set_rpc i Idle (s\<lparr>cc_metrics := m\<rparr>))"
proof (rule call_step [OF sub calls, where i = i and g = no_goroutine and c = Idle])
  have "procs (cc_system s) (Suc i) = no_goroutine"
    using call_viewD [OF calls, of i] by (simp add: rpc)
  then show "cc_system (set_rpc i Idle (s\<lparr>cc_metrics := m\<rparr>)) = cc_system (set_proc (Suc i) no_goroutine s)"
    by (simp add: set_proc_def set_rpc_def) (metis fun_upd_triv system.surjective system.update_convs(2))
qed (auto simp: set_rpc_def)


text \<open>The steps of the subscriber.\<close>

lemma calls_ok_advance:
  assumes "calls_ok rx es n s" "n \<le> n'" "n \<le> 2 * length (begun rx es)" "\<And>i. \<not> received_in i e"
    and "cc_rpcs s' = cc_rpcs s" "\<And>i. procs (cc_system s') (Suc i) = procs (cc_system s) (Suc i)"
  shows "calls_ok rx (es @ [e]) n' s'"
  unfolding calls_ok_def
proof
  fix i
  have "store_at rx (es @ [e]) m = store_at rx es m" if "m \<le> n" for m
    using that assms(3) by (intro store_at_mono) simp
  from call_view_mono [OF call_viewD [OF assms(1)] assms(2) this]
  have "call_view rx (store_at rx (es @ [e])) (2 * length (finished rx (before_call i es))) n'
      (cc_rpcs s i) (procs (cc_system s) (Suc i))" .
  then show "call_view rx (store_at rx (es @ [e])) (2 * length (finished rx (before_call i (es @ [e])))) n'
      (cc_rpcs s' i) (procs (cc_system s') (Suc i))"
    using assms(4) by (simp add: assms(5,6))
qed

lemma window_inv_read_entry:
  assumes sub: "subscriber_ok rx es n s" and calls: "calls_ok rx es n s" and idle: "cc_entry s = None"
  shows "window_inv rx (es @ [EntryRead vs])
    (set_proc 0 (Writer (update_list_calls (entry_updates rx vs)) AtLoad) (s\<lparr>cc_entry := Some vs\<rparr>))"
    (is "window_inv rx ?es ?s")
proof -
  have n: "n = 2 * length (begun rx es)" "begun rx es = finished rx es"
    using sub idle by (simp_all add: subscriber_ok_def)
  have ev: "begun rx ?es = begun rx es @ entry_updates rx vs" "finished rx ?es = finished rx es"
    by (simp_all add: begun_snoc finished_snoc)
  have "conc_inv (cc_system (set_proc 0 (Writer (update_list_calls (entry_updates rx vs)) AtLoad) s))"
    using sub by (intro conc_inv_set_proc) (simp_all add: subscriber_ok_def)
  then have "conc_inv (cc_system ?s)" by (simp add: set_proc_def)
  moreover have "abs_store (cc_system ?s) = store_at rx ?es n"
    using sub n store_at_mono [of n rx es "EntryRead vs"] by (simp add: subscriber_ok_def abs_store_view)
  moreover have "drop n (update_list_calls (begun rx ?es)) = update_list_calls (entry_updates rx vs)"
    by (simp add: ev n)
  ultimately have "subscriber_ok rx ?es n ?s" using n by (simp add: subscriber_ok_def ev)
  moreover have "calls_ok rx ?es n ?s"
    by (rule calls_ok_advance [OF calls]) (use n in simp_all)
  ultimately show ?thesis unfolding window_inv_def by blast
qed

lemma goroutine_step_writer:
  "goroutine_step sh (Writer cs pc) = Some (sh', g') \<Longrightarrow> \<exists>ds pc'. g' = Writer ds pc'"
  by (cases "(sh, Writer cs pc)" rule: goroutine_step.cases) (auto split: option.splits if_splits)

lemma window_inv_move:
  assumes sub: "subscriber_ok rx es n s" and calls: "calls_ok rx es n s"
    and step: "system_step 0 (cc_system s) = Some sys"
  shows "window_inv rx (es @ [SubscriberMoved]) (s\<lparr>cc_system := sys\<rparr>)" (is "window_inv rx ?es ?s")
proof -
  let ?cs = "update_list_calls (begun rx es)"
  have ci: "conc_inv (cc_system s)" and n: "n \<le> 2 * length (begun rx es)"
    and ab: "abs_store (cc_system s) = store_at rx es n" using sub by (simp_all add: subscriber_ok_def)
  obtain pc where pc: "procs (cc_system s) 0 = Writer (drop n ?cs) pc"
    using sub by (auto simp: subscriber_ok_def)
  obtain sh' g' where gs: "goroutine_step (shared (cc_system s)) (Writer (drop n ?cs) pc) = Some (sh', g')"
    and sys: "sys = \<lparr>shared = sh', procs = (procs (cc_system s))(0 := g')\<rparr>"
    using step pc by (metis system_step_cases)
  obtain ds pc' where g': "g' = Writer ds pc'" using goroutine_step_writer [OF gs] by blast
  have ev: "begun rx ?es = begun rx es" "finished rx ?es = finished rx es" "store_at rx ?es = store_at rx es"
    by (simp_all add: plain_event)
  have at: "subscriber_ok rx ?es n' ?s"
    if "ds = drop n' ?cs" "abs_store sys = store_at rx es n'" "n \<le> n'" "n' \<le> 2 * length (begun rx es)" for n'
    using sub that conc_inv_step [OF ci step]
    by (auto simp: subscriber_ok_def ev sys g' split: option.splits)
  have others: "calls_ok rx ?es n' ?s" if "n \<le> n'" for n'
    by (rule calls_ok_advance [OF calls that n]) (simp_all add: sys)
  from system_step_linear [OF ci step] show ?thesis
  proof (elim disjE exE conjE)
    assume "abs_store sys = abs_store (cc_system s)" "\<forall>j. remaining (procs sys j) = remaining (procs (cc_system s) j)"
    then have "ds = drop n ?cs" "abs_store sys = store_at rx es n"
      using ab pc spec [of "\<lambda>j. remaining (procs sys j) = remaining (procs (cc_system s) j)" 0]
      by (simp_all add: sys g')
    from at [OF this order_refl n] others [OF order_refl] show ?thesis unfolding window_inv_def by blast
  next
    fix c rest
    assume "remaining (procs (cc_system s) 0) = c # rest" "remaining (procs sys 0) = rest"
      "abs_store sys = apply_call c (abs_store (cc_system s))"
    then have dr: "drop n ?cs = c # rest" "ds = rest" "abs_store sys = apply_call c (store_at rx es n)"
      using pc ab by (simp_all add: sys g')
    have "n < length ?cs" using dr(1) by (metis drop_all list.distinct(1) not_less)
    moreover have "ds = drop (Suc n) ?cs" using dr by (metis drop_Suc list.sel(3) tl_drop)
    moreover have "abs_store sys = store_at rx es (Suc n)"
      using hist_Suc [OF dr(1)] dr(3) by (simp add: store_at_def)
    ultimately have "subscriber_ok rx ?es (Suc n) ?s" by (intro at) simp_all
    with others [of "Suc n"] show ?thesis unfolding window_inv_def by auto
  qed
qed

lemma window_inv_finish:
  assumes sub: "subscriber_ok rx es n s" and calls: "calls_ok rx es n s"
    and busy: "cc_entry s = Some vs" and idle: "procs (cc_system s) 0 = Writer [] AtLoad"
  shows "window_inv rx (es @ [EntryApplied vs]) (s\<lparr>cc_entry := None\<rparr>)" (is "window_inv rx ?es ?s")
proof -
  have n: "n \<le> 2 * length (begun rx es)" "begun rx es = finished rx es @ entry_updates rx vs"
    using sub busy unfolding subscriber_ok_def by (blast, simp)
  have "drop n (update_list_calls (begun rx es)) = []" using sub idle by (auto simp: subscriber_ok_def)
  then have n': "n = 2 * length (begun rx es)" using n(1) by simp
  have ev: "begun rx ?es = begun rx es" "finished rx ?es = begun rx es"
    using n(2) by (simp_all add: begun_snoc finished_snoc)
  have "store_at rx ?es = store_at rx es" by (simp add: store_at_def ev)
  then have "subscriber_ok rx ?es n ?s"
    using sub idle n' by (simp add: subscriber_ok_def ev)
  moreover have "calls_ok rx ?es n ?s"
    by (rule calls_ok_advance [OF calls]) (use n in simp_all)
  ultimately show ?thesis unfolding window_inv_def by blast
qed

lemma window_inv_worker:
  assumes "subscriber_ok rx es n s" "calls_ok rx es n s"
  shows "window_inv rx (es @ [WorkerMoved i]) (s\<lparr>cc_audit := a\<rparr>)"
proof -
  have "subscriber_ok rx (es @ [WorkerMoved i]) n (s\<lparr>cc_audit := a\<rparr>)"
    using assms(1) unfolding subscriber_ok_def plain_event [of "WorkerMoved i", simplified] by simp
  moreover have "calls_ok rx (es @ [WorkerMoved i]) n (s\<lparr>cc_audit := a\<rparr>)"
    by (rule calls_ok_advance [OF assms(2)]) (use assms(1) in \<open>auto simp: subscriber_ok_def\<close>)
  ultimately show ?thesis unfolding window_inv_def by blast
qed

lemma window_inv_endpoint:
  assumes "subscriber_ok rx es n s" "calls_ok rx es n s"
  shows "window_inv rx (es @ [EndpointStopped]) (metrics_server_returned s)"
proof -
  have "subscriber_ok rx (es @ [EndpointStopped]) n (metrics_server_returned s)"
    using assms(1) unfolding subscriber_ok_def plain_event [of EndpointStopped, simplified] by simp
  moreover have "calls_ok rx (es @ [EndpointStopped]) n (metrics_server_returned s)"
    by (rule calls_ok_advance [OF assms(2)]) (use assms(1) in \<open>auto simp: subscriber_ok_def\<close>)
  ultimately show ?thesis unfolding window_inv_def by blast
qed

lemma window_inv_boot: "main_setup lib = Some b \<Longrightarrow> window_inv rx [] (conc_boot b)"
proof -
  assume "main_setup lib = Some b"
  then have store: "as_engine (snd b) = NewPolicyStore"
    by (auto simp: main_setup_def Let_def NewAuthzServer_def split: option.splits)
  have "conc_inv (start_system NewPolicyStore (\<lambda>_. no_goroutine :: 'a goroutine))"
    by (rule conc_inv_start) (simp add: fresh_goroutine_def no_goroutine_def)
  then have "subscriber_ok rx [] 0 (conc_boot b)"
    by (simp add: subscriber_ok_def conc_boot_def store no_goroutine_def update_list_calls_def store_at_def)
  moreover have "calls_ok rx [] 0 (conc_boot b)" by (simp add: calls_ok_def conc_boot_def)
  ultimately show ?thesis unfolding window_inv_def by blast
qed

lemma window_inv_step:
  assumes "window_inv rx es s" "conc_step rx lib s e s'"
  shows "window_inv rx (es @ [e]) s'"
proof -
  obtain n where sub: "subscriber_ok rx es n s" and calls: "calls_ok rx es n s"
    using assms(1) unfolding window_inv_def by blast
  from assms(2) show ?thesis
  proof (cases rule: conc_step.cases)
    case (Evaluate i req A D oa od recv t srv resp)
    then show ?thesis
      using window_inv_evaluate [OF sub calls] evaluate_decided by blast
  qed (use window_inv_receive [OF sub calls] window_inv_load [OF sub calls] window_inv_answer [OF sub calls]
      window_inv_read_entry [OF sub calls] window_inv_move [OF sub calls] window_inv_finish [OF sub calls]
      window_inv_worker [OF sub calls] window_inv_begin_scrape [OF sub calls]
      window_inv_end_scrape [OF sub calls] window_inv_endpoint [OF sub calls] in blast)+
qed

lemma conc_run_window: "conc_run rx lib es s \<Longrightarrow> window_inv rx es s"
  by (induction rule: conc_run.induct) (auto intro: window_inv_boot window_inv_step)


subsection \<open>Decisions of overlapping calls\<close>

lemma conc_run_split:
  "conc_run rx lib es s \<Longrightarrow> es = xs @ e # ys \<Longrightarrow> \<exists>s0 s1. conc_run rx lib xs s0 \<and> conc_step rx lib s0 e s1"
proof (induction arbitrary: ys rule: conc_run.induct)
  case (Step_conc es s e' s')
  show ?case
  proof (cases ys rule: rev_cases)
    case Nil
    then show ?thesis using Step_conc.hyps Step_conc.prems by auto
  next
    case (snoc zs z)
    then show ?thesis using Step_conc.IH [of zs] Step_conc.prems by simp
  qed
qed simp

lemma before_call_prefix: "\<exists>zs. es = before_call i es @ zs"
proof -
  let ?P = "\<lambda>e. \<not> received_in i e"
  have "rev es = takeWhile ?P (rev es) @ take 1 (dropWhile ?P (rev es)) @ drop 1 (dropWhile ?P (rev es))"
    by (simp only: append_take_drop_id takeWhile_dropWhile_id)
  then have "es = rev (drop 1 (dropWhile ?P (rev es))) @ rev (takeWhile ?P (rev es) @ take 1 (dropWhile ?P (rev es)))"
    by (metis append_assoc rev_append rev_rev_ident)
  then show ?thesis unfolding before_call_def by blast
qed

lemma conc_run_prefix: "conc_run rx lib (xs @ ys) s \<Longrightarrow> \<exists>s0. conc_run rx lib xs s0"
proof (induction ys arbitrary: s rule: rev_induct)
  case (snoc y ys)
  then have "conc_run rx lib ((xs @ ys) @ y # []) s" by simp
  from conc_run_split [OF this refl] snoc.IH show ?case by blast
qed auto

lemma answered_window:
  assumes "conc_run rx lib (xs @ Answered i req resp # ys) s"
  shows "decided_on rx (store_at rx xs) (2 * length (finished rx (before_call i xs)))
    (2 * length (begun rx xs)) req resp"
proof -
  obtain s0 s1 where run: "conc_run rx lib xs s0" and step: "conc_step rx lib s0 (Answered i req resp) s1"
    using conc_run_split [OF assms refl] by blast
  obtain n where n: "subscriber_ok rx xs n s0" "calls_ok rx xs n s0"
    using conc_run_window [OF run] unfolding window_inv_def by blast
  have "cc_rpcs s0 i = Decided req resp" using step by (cases rule: conc_step.cases) simp_all
  then have "decided_on rx (store_at rx xs) (2 * length (finished rx (before_call i xs))) n req resp"
    using call_viewD [OF n(2), of i] by simp
  moreover have "n \<le> 2 * length (begun rx xs)" using n(1) by (simp add: subscriber_ok_def)
  ultimately show ?thesis unfolding decided_on_def by (meson order_trans)
qed

lemma store_granted_authorized:
  "store_inv st \<Longrightarrow> store_granted rx st req \<longleftrightarrow> authorized rx (stored st) req"
  by (simp only: tables_granted_def authorized_def stored_parts gomap_values store_inv_gomap)

lemma hist_full: "hist (update_list_calls us) st (2 * length us) = run_updates UpsertPolicy DeletePolicy us st"
  by (simp add: hist_def apply_update_list_calls)

lemma hist_plus: "hist (cs @ ds) st (length cs + k) = hist ds (apply_calls cs st) k"
  by (simp add: hist_def)

text \<open>The table of policies that a list of updates leaves.\<close>

definition table_of :: "'r update list \<Rightarrow> string \<Rightarrow> 'r policy option" where
  "table_of us = foldl table_update (\<lambda>_. None) us"

lemma granted_table_of:
  "store_granted rx (run_updates UpsertPolicy DeletePolicy us NewPolicyStore) req
     \<longleftrightarrow> authorized rx (table_of us) req"
  using store.run [of us] by (simp add: store_granted_authorized table_of_def)

text \<open>
  What a decision may be that was taken between the updates \<open>past\<close> and the updates \<open>now\<close>: the
  decision of the policies when there is no update in between, and no more than the policies
  before or after grant when there is one.
\<close>

definition overlap_safe ::
  "'r regexp_lib \<Rightarrow> 'r update list \<Rightarrow> 'r update list \<Rightarrow> bool \<Rightarrow> EvaluationRequest \<Rightarrow> bool" where
  "overlap_safe rx past now allowed req \<longleftrightarrow>
     (now = past \<longrightarrow> (allowed \<longleftrightarrow> authorized rx (table_of now) req))
     \<and> (\<forall>u. now = past @ [u] \<longrightarrow> allowed \<longrightarrow>
          authorized rx (table_of past) req \<or> authorized rx (table_of now) req)"

lemma answered_overlap_safe:
  assumes "conc_run rx lib (xs @ Answered i req resp # ys) s"
  shows "overlap_safe rx (finished rx (before_call i xs)) (begun rx xs) (crs_Allowed resp) (eval_request req)"
proof -
  let ?past = "finished rx (before_call i xs)"
  let ?h = "store_at rx xs"
  obtain m l where ml: "2 * length ?past \<le> m" "m \<le> l" "l \<le> 2 * length (begun rx xs)"
      "crs_Allowed resp \<longleftrightarrow> tables_granted rx (ps_allow (?h m)) (ps_deny (?h l)) (eval_request req)"
    using answered_window [OF assms] unfolding decided_on_def by blast
  have "crs_Allowed resp \<longleftrightarrow> authorized rx (table_of (begun rx xs)) (eval_request req)"
    if "begun rx xs = ?past"
  proof -
    have "m = 2 * length (begun rx xs)" "l = 2 * length (begun rx xs)" using ml(1-3) that by simp_all
    then show ?thesis using ml(4) granted_table_of by (simp add: store_at_def hist_full)
  qed
  moreover have "authorized rx (table_of ?past) (eval_request req)
      \<or> authorized rx (table_of (begun rx xs)) (eval_request req)"
    if u: "begun rx xs = ?past @ [u]" and allowed: "crs_Allowed resp" for u
  proof -
    let ?st = "run_updates UpsertPolicy DeletePolicy ?past NewPolicyStore"
    have h: "?h (2 * length ?past + k) = hist (update_calls u) ?st k" for k
      using hist_plus [of "update_list_calls ?past" "update_calls u" NewPolicyStore k]
      by (simp add: store_at_def u apply_update_list_calls) (simp add: update_list_calls_def)
    define m' l' where "m' = m - 2 * length ?past" and "l' = l - 2 * length ?past"
    then have "m = 2 * length ?past + m'" "l = 2 * length ?past + l'" "m' \<le> l'" "l' \<le> 2"
      using ml(1-3) u by simp_all
    then have "store_granted rx ?st (eval_request req)
        \<or> store_granted rx (run_updates UpsertPolicy DeletePolicy [u] ?st) (eval_request req)"
      using update_snapshot_safe [OF conjunct1 [OF store.run]] ml(4) allowed by (simp add: h)
    moreover have "run_updates UpsertPolicy DeletePolicy [u] ?st
        = run_updates UpsertPolicy DeletePolicy (begun rx xs) NewPolicyStore"
      by (simp add: u run_updates_append)
    ultimately show ?thesis by (simp only: granted_table_of)
  qed
  ultimately show ?thesis unfolding overlap_safe_def by blast
qed

text \<open>
  C10: calls that overlap updates are decided safely.  Take any run, with any number of calls
  in progress beside the subscriber, all interleaved at their atomic operations, and a
  response to a call.  If every update that the subscriber had begun by the response was
  finished before the call came in, the response allows exactly when the policies in force
  authorize the request.  If exactly one update was not, an allow response is one that the
  policies before that update or the policies after it authorize.
\<close>

theorem overlapping_decisions:
  assumes "conc_run rx lib (xs @ Answered i req resp # ys) s"
  shows "(begun rx xs = finished rx (before_call i xs) \<longrightarrow>
       (crs_Allowed resp \<longleftrightarrow> authorized rx (table_of (begun rx xs)) (eval_request req)))
    \<and> (\<forall>u. begun rx xs = finished rx (before_call i xs) @ [u] \<longrightarrow> crs_Allowed resp \<longrightarrow>
         authorized rx (table_of (finished rx (before_call i xs))) (eval_request req)
         \<or> authorized rx (table_of (begun rx xs)) (eval_request req))"
  using answered_overlap_safe [OF assms] unfolding overlap_safe_def .


subsection \<open>Accounting\<close>

text \<open>The responses given, and the decisions of every slot as evaluated and as answered.\<close>

definition answers :: "conc_event list \<Rightarrow> CheckAccessResponse list" where
  "answers es = concat (map (\<lambda>e. case e of Answered i req resp \<Rightarrow> [resp] | _ \<Rightarrow> []) es)"

definition evaluated_records :: "conc_event list \<Rightarrow> AuditLog list" where
  "evaluated_records es =
     concat (map (\<lambda>e. case e of Evaluated i req resp \<Rightarrow> [response_record req resp] | _ \<Rightarrow> []) es)"

definition evaluated_in :: "nat \<Rightarrow> conc_event list \<Rightarrow> (CheckAccessRequest \<times> CheckAccessResponse) list" where
  "evaluated_in i es =
     concat (map (\<lambda>e. case e of Evaluated j req resp \<Rightarrow> if i = j then [(req, resp)] else [] | _ \<Rightarrow> []) es)"

definition answered_in :: "nat \<Rightarrow> conc_event list \<Rightarrow> (CheckAccessRequest \<times> CheckAccessResponse) list" where
  "answered_in i es =
     concat (map (\<lambda>e. case e of Answered j req resp \<Rightarrow> if i = j then [(req, resp)] else [] | _ \<Rightarrow> []) es)"

fun pending :: "rpc \<Rightarrow> (CheckAccessRequest \<times> CheckAccessResponse) list" where
  "pending (Decided req resp) = [(req, resp)]"
| "pending _ = []"

definition accounts_ok ::
  "('c, 'f) prom_lib \<Rightarrow> conc_event list \<Rightarrow> ('r, 'c, 'f) conc \<Rightarrow> bool" where
  "accounts_ok lib es s \<longleftrightarrow> metrics_ready lib Count (cc_metrics s) \<and> \<not> ch_closed (cc_audit s)
     \<and> mt_calls (cc_metrics s) = concat (map (decision_calls lib) (answers es))
     \<and> (\<exists>aes. audit_run (started 10000 5) aes (cc_audit s) \<and> offered aes = evaluated_records es)
     \<and> (\<forall>i. evaluated_in i es = answered_in i es @ pending (cc_rpcs s i))"

lemma event_record_snoc:
  "answers (es @ [e]) = answers es @ (case e of Answered i req resp \<Rightarrow> [resp] | _ \<Rightarrow> [])"
  "evaluated_records (es @ [e]) = evaluated_records es
     @ (case e of Evaluated i req resp \<Rightarrow> [response_record req resp] | _ \<Rightarrow> [])"
  "evaluated_in i (es @ [e]) = evaluated_in i es
     @ (case e of Evaluated j req resp \<Rightarrow> if i = j then [(req, resp)] else [] | _ \<Rightarrow> [])"
  "answered_in i (es @ [e]) = answered_in i es
     @ (case e of Answered j req resp \<Rightarrow> if i = j then [(req, resp)] else [] | _ \<Rightarrow> [])"
  by (simp_all add: answers_def evaluated_records_def evaluated_in_def answered_in_def)

lemma accounts_boot: "main_setup lib = Some b \<Longrightarrow> accounts_ok lib [] (conc_boot b)"
proof -
  assume boot: "main_setup lib = Some b"
  have inv: "system_inv (\<lparr>rx_Compile = \<lambda>_. Inl [], rx_MatchString = \<lambda>_ _. False\<rparr> :: 'a regexp_lib) lib [] b"
    by (rule system_inv_boot [OF boot])
  from system_invD [OF inv] show ?thesis
    by (simp add: accounts_ok_def conc_boot_def answers_def evaluated_records_def evaluated_in_def
        answered_in_def)
qed

lemma interceptor_answer:
  assumes "metrics_ready lib cnt m"
  shows "UnaryInterceptor lib (\<lambda>ms. Some (ms, ResponseMessage (Some resp), None)) (m, s)
    = Some ((m\<lparr>mt_calls := mt_calls m @ decision_calls lib resp\<rparr>, s), ResponseMessage (Some resp), None)"
  using ready_counters [OF assms, of "crs_Allowed resp"]
  by (simp add: UnaryInterceptor_def decision_calls_def)

lemma accounts_step:
  assumes inv: "accounts_ok lib es s" and step: "conc_step rx lib s e s'"
  shows "accounts_ok lib (es @ [e]) s'"
  using step
proof (cases rule: conc_step.cases)
  case (Evaluate i req A D oa od recv t srv resp)
  obtain aes where aes: "audit_run (started 10000 5) aes (cc_audit s)" "offered aes = evaluated_records es"
    using inv by (auto simp: accounts_ok_def)
  obtain ok where log: "LogDecision recv (response_record req resp) (cc_audit s) = Some (as_audit srv, ok)"
    using evaluate_decided [OF Evaluate(8,5,6)] by blast
  have "\<exists>a. audit_step (cc_audit s) a (as_audit srv) \<and> offered [a] = [response_record req resp]"
    using Log_accepted [OF Evaluate(7)] Log_dropped [OF Evaluate(7)] log offered_simps(3,4)
    by (cases ok) metis+
  then obtain a where "audit_run (started 10000 5) (aes @ [a]) (as_audit srv)"
      "offered [a] = [response_record req resp]"
    using run_snoc [OF aes(1)] by blast
  then have "\<exists>aes. audit_run (started 10000 5) aes (as_audit srv)
      \<and> offered aes = evaluated_records es @ [response_record req resp]"
    using aes(2) offered_simps(2) by metis
  then show ?thesis
    using inv Evaluate(3) LogDecision_closed [OF log]
    by (auto simp: accounts_ok_def Evaluate(1,2) event_record_snoc)
next
  case (Answer i req resp m)
  have "m = (cc_metrics s)\<lparr>mt_calls := mt_calls (cc_metrics s) @ decision_calls lib resp\<rparr>"
    using Answer(4) inv interceptor_answer [of lib Count "cc_metrics s" resp "()"]
    by (simp add: accounts_ok_def)
  then show ?thesis
    using inv Answer(3) by (auto simp: accounts_ok_def Answer(1,2) event_record_snoc)
next
  case (MoveWorker i a)
  obtain aes where aes: "audit_run (started 10000 5) aes (cc_audit s)" "offered aes = evaluated_records es"
    using inv by (auto simp: accounts_ok_def)
  have "audit_run (started 10000 5) (aes @ [Worked i]) a"
    by (rule run_snoc [OF aes(1) Work [OF MoveWorker(3)]])
  moreover have "offered (aes @ [Worked i]) = evaluated_records es" using aes(2) by simp
  ultimately have "\<exists>aes. audit_run (started 10000 5) aes a \<and> offered aes = evaluated_records es" by blast
  moreover have "ch_closed a = ch_closed (cc_audit s)" using content_worker [OF MoveWorker(3)] by blast
  ultimately show ?thesis
    using inv by (simp add: accounts_ok_def MoveWorker(1,2) event_record_snoc)
qed (use inv in \<open>auto simp: accounts_ok_def event_record_snoc\<close>)

lemma conc_run_accounts: "conc_run rx lib es s \<Longrightarrow> accounts_ok lib es s"
  by (induction rule: conc_run.induct) (auto intro: accounts_boot accounts_step)

text \<open>
  C21: overlapping calls are counted and audited one by one.  In every interleaving the
  Prometheus calls are one increment of the right counter and one observation for each
  response given, in the order of the responses; the records of the decisions taken are the
  written, held, buffered and dropped ones, with a warning for each dropped one; and in every
  slot the responses are the decisions, in order, with at most the last one outstanding.
\<close>

theorem overlapping_accounts:
  assumes "conc_run rx lib es s"
  shows "mt_calls (cc_metrics s) = concat (map (decision_calls lib) (answers es))
    \<and> (\<exists>lost. mset (evaluated_records es)
          = mset (slog_records (cc_audit s)) + in_flight (lg_workers (cc_audit s))
            + mset (ch_buf (cc_audit s)) + mset lost
        \<and> length lost = slog_warnings (cc_audit s))
    \<and> evaluated_in i es = answered_in i es @ pending (cc_rpcs s i)"
proof -
  note inv = conc_run_accounts [OF assms]
  obtain aes where aes: "audit_run (started 10000 5) aes (cc_audit s)" "offered aes = evaluated_records es"
    using inv by (auto simp: accounts_ok_def)
  from audit_conserved [OF aes(1)] mset_offered [of aes] aes(2)
  have "mset (evaluated_records es)
          = mset (slog_records (cc_audit s)) + in_flight (lg_workers (cc_audit s))
            + mset (ch_buf (cc_audit s)) + mset (dropped aes)
        \<and> length (dropped aes) = slog_warnings (cc_audit s)" by simp
  with inv show ?thesis unfolding accounts_ok_def by blast
qed

end
