(* ===== verification/Process_Progress.thy ===== *)
theory Process_Progress
  imports Process_Concurrent
begin

text \<open>
  What every reachable state of the running process looks like, and that a call always gets its
  answer: the state is well typed, so no step of a call can find a table, a counter or a channel
  that it cannot use, and a call needs four steps of its own, whatever the other calls, the
  subscriber and the audit workers do in between.
\<close>

subsection \<open>Well-typed states\<close>

text \<open>The goroutine of a slot is where the call in the slot says, with tables of the right kind.\<close>

fun loads_ok :: "'r goroutine \<Rightarrow> bool" where
  "loads_ok Reader = True"
| "loads_ok (ReaderAllow A) = allow_ok A"
| "loads_ok (ReaderDone A D) = (allow_ok A \<and> deny_ok D)"
| "loads_ok (Writer cs pc) = False"

fun slot_ok :: "rpc \<Rightarrow> 'r goroutine \<Rightarrow> bool" where
  "slot_ok Idle g = (g = no_goroutine)"
| "slot_ok (Evaluating req) g = loads_ok g"
| "slot_ok Scraping g = loads_ok g"
| "slot_ok (Decided req resp) g = (g = no_goroutine)"

text \<open>The audit logger runs with the buffer and the pool that main gives it.\<close>

definition audit_running :: "AuditLogger \<Rightarrow> bool" where
  "audit_running l \<longleftrightarrow> \<not> ch_closed l \<and> ch_cap l = 10000 \<and> length (ch_buf l) \<le> 10000
     \<and> length (lg_workers l) = 5 \<and> audit_inv l"

definition conc_typed :: "('c, 'f) prom_lib \<Rightarrow> ('r, 'c, 'f) conc \<Rightarrow> bool" where
  "conc_typed lib s \<longleftrightarrow> metrics_ready lib Count (cc_metrics s) \<and> audit_running (cc_audit s)
     \<and> modes_ok (abs_store (cc_system s))
     \<and> (\<exists>cs pc. procs (cc_system s) 0 = Writer cs pc \<and> (cc_entry s = None \<longrightarrow> cs = []))
     \<and> (\<forall>i. slot_ok (cc_rpcs s i) (procs (cc_system s) (Suc i)))"

lemma modes_ok_calls: "modes_ok st \<Longrightarrow> \<forall>c \<in> set cs. call_ok c \<Longrightarrow> modes_ok (apply_calls cs st)"
  by (induction cs arbitrary: st) (simp_all add: modes_ok_call)

lemma modes_ok_store_at: "modes_ok (store_at rx es n)"
proof -
  have "modes_ok (NewPolicyStore :: 'a PolicyStore)"
    using store.run [of "[] :: 'a update list"] by (simp add: modes_ok_def store_inv_def run_updates_def)
  then show ?thesis
    unfolding store_at_def hist_def
    by (intro modes_ok_calls) (auto dest: in_set_takeD intro: update_calls_ok)
qed

lemma call_view_slot: "call_view rx (store_at rx es) lo n c g \<Longrightarrow> slot_ok c g"
  using modes_ok_store_at by (cases c; cases g) (auto simp: modes_ok_def)

lemma audit_run_running:
  assumes "audit_run (started 10000 5) aes l" "\<not> ch_closed l"
  shows "audit_running l"
  using content_run [OF assms(1)] audit_inv_run [OF assms(1) audit_inv_started] assms(2)
  by (auto simp: audit_running_def dest: audit_invD(1))

lemma conc_run_typed: "conc_run rx lib es s \<Longrightarrow> conc_typed lib s"
proof -
  assume run: "conc_run rx lib es s"
  obtain n where n: "subscriber_ok rx es n s" "calls_ok rx es n s"
    using conc_run_window [OF run] unfolding window_inv_def by blast
  have "slot_ok (cc_rpcs s i) (procs (cc_system s) (Suc i))" for i
    by (rule call_view_slot [OF call_viewD [OF n(2)]])
  moreover have "modes_ok (abs_store (cc_system s))"
    using n(1) modes_ok_store_at by (simp add: subscriber_ok_def)
  moreover have "\<exists>cs pc. procs (cc_system s) 0 = Writer cs pc \<and> (cc_entry s = None \<longrightarrow> cs = [])"
    using n(1) by (auto simp: subscriber_ok_def)
  ultimately show ?thesis
    using conc_run_accounts [OF run] by (auto simp: conc_typed_def accounts_ok_def audit_run_running)
qed

subsection \<open>The steps of a call\<close>

text \<open>The steps that the call or the scrape in a slot still has to take.\<close>

fun loads_left :: "'r goroutine \<Rightarrow> nat" where
  "loads_left Reader = 2"
| "loads_left (ReaderAllow A) = 1"
| "loads_left _ = 0"

fun rpc_left :: "rpc \<Rightarrow> 'r goroutine \<Rightarrow> nat" where
  "rpc_left (Evaluating req) g = Suc (Suc (loads_left g))"
| "rpc_left Scraping g = Suc (loads_left g)"
| "rpc_left (Decided req resp) g = 1"
| "rpc_left Idle g = 0"

definition steps_left :: "nat \<Rightarrow> ('r, 'c, 'f) conc \<Rightarrow> nat" where
  "steps_left i s = rpc_left (cc_rpcs s i) (procs (cc_system s) (Suc i))"

fun step_of_call :: "nat \<Rightarrow> conc_event \<Rightarrow> bool" where
  "step_of_call i (Loaded j) = (i = j)"
| "step_of_call i (Evaluated j req resp) = (i = j)"
| "step_of_call i (Answered j req resp) = (i = j)"
| "step_of_call i (Scraped j v) = (i = j)"
| "step_of_call i _ = False"

lemma slot_busy: "rpc_left c g = 0 \<longleftrightarrow> c = Idle"
  by (cases c) simp_all

lemma LogDecision_running:
  "\<not> ch_closed l \<Longrightarrow> \<exists>recv l' ok. receiver_ok l recv \<and> LogDecision recv r l = Some (l', ok)"
proof -
  assume "\<not> ch_closed l"
  moreover have "\<exists>recv. receiver_ok l recv"
    by (auto simp: receiver_ok_def parked_def in_set_conv_nth)
  ultimately show ?thesis using LogDecision_open by (metis surj_pair)
qed

lemma evaluate_answers:
  assumes "\<not> ch_closed audit"
  shows "\<exists>recv srv resp. receiver_ok audit recv
    \<and> evaluate rx rev rev t recv req A D audit = Some (srv, ResponseMessage (Some resp), None)"
proof -
  obtain r where "CheckAccess rx (ListActivePolicies rev rev) \<lparr>ps_allow = A, ps_deny = D\<rparr> (eval_request req) t = Inr r"
    using CheckAccess_store_total by blast
  moreover obtain recv l ok where "receiver_ok audit recv" "LogDecision recv (audit_record req r) audit = Some (l, ok)"
    using LogDecision_running [OF assms] by blast
  ultimately show ?thesis
    by (auto simp: evaluate_def AuthzServer_CheckAccess_def NewAuthzServer_def)
qed

lemma load_enabled:
  assumes "loads_ok (procs sys k)"
  obtains A D where "procs sys k = ReaderDone A D" | sys' where "system_step k sys = Some sys'"
  using assms by (cases "procs sys k") (auto simp: system_step_def)

lemma call_enabled:
  assumes typed: "conc_typed lib s" and busy: "cc_rpcs s i \<noteq> Idle"
  shows "\<exists>e s'. conc_step rx lib s e s' \<and> step_of_call i e"
proof (cases "cc_rpcs s i")
  case (Decided req resp)
  have "metrics_ready lib Count (cc_metrics s)" using typed by (simp add: conc_typed_def)
  from Answer [OF Decided interceptor_answer [OF this]] show ?thesis by force
next
  case (Evaluating req)
  then have "loads_ok (procs (cc_system s) (Suc i))" using typed by (simp add: conc_typed_def) (metis slot_ok.simps(2))
  then consider A D where "procs (cc_system s) (Suc i) = ReaderDone A D"
    | sys where "system_step (Suc i) (cc_system s) = Some sys"
    by (rule load_enabled)
  then show ?thesis
  proof cases
    case 1
    have "\<not> ch_closed (cc_audit s)" using typed by (simp add: conc_typed_def audit_running_def)
    then obtain recv srv resp where "receiver_ok (cc_audit s) recv"
        "evaluate rx rev rev 0 recv req A D (cc_audit s) = Some (srv, ResponseMessage (Some resp), None)"
      using evaluate_answers by blast
    from Evaluate [OF Evaluating 1 range_order_rev range_order_rev this] show ?thesis by force
  next
    case 2
    then show ?thesis using Load Evaluating step_of_call.simps(1) loading.simps(1) by metis
  qed
next
  case Scraping
  then have "loads_ok (procs (cc_system s) (Suc i))" using typed by (simp add: conc_typed_def) (metis slot_ok.simps(3))
  then consider A D where "procs (cc_system s) (Suc i) = ReaderDone A D"
    | sys where "system_step (Suc i) (cc_system s) = Some sys"
    by (rule load_enabled)
  then show ?thesis
  proof cases
    case 1
    from EndScrape [OF Scraping 1] show ?thesis by force
  next
    case 2
    then show ?thesis using Load Scraping step_of_call.simps(1) loading.simps(2) by metis
  qed
qed (use busy in simp)

lemma step_other_slot:
  assumes "system_step k sys = Some sys'" "j \<noteq> k"
  shows "procs sys' j = procs sys j"
  using assms by (auto elim!: system_step_cases)

lemma steps_left_step:
  assumes typed: "conc_typed lib s" and step: "conc_step rx lib s e s'" and busy: "cc_rpcs s i \<noteq> Idle"
  shows "steps_left i s = steps_left i s' + (if step_of_call i e then 1 else 0)"
  using step
proof (cases rule: conc_step.cases)
  case (Receive j req)
  then show ?thesis using busy by (auto simp: steps_left_def)
next
  case (Load j sys)
  show ?thesis
  proof (cases "j = i")
    case True
    have "slot_ok (cc_rpcs s i) (procs (cc_system s) (Suc i))" using typed by (simp add: conc_typed_def)
    then show ?thesis
      using Load True
      by (cases "cc_rpcs s i"; cases "procs (cc_system s) (Suc i)") (auto simp: steps_left_def system_step_def)
  next
    case False
    then show ?thesis
      using Load step_other_slot [OF Load(4), of "Suc i"] by (simp add: steps_left_def)
  qed
next
  case (MoveSubscriber sys)
  then show ?thesis using step_other_slot [OF MoveSubscriber(3), of "Suc i"] by (simp add: steps_left_def)
next
  case (BeginScrape j)
  then show ?thesis using busy by (auto simp: steps_left_def)
qed (auto simp: steps_left_def)

text \<open>The call in a slot, alone from any reachable state.\<close>

lemma call_finishes:
  assumes "conc_run rx lib es s"
  shows "\<exists>fs s'. conc_steps rx lib s fs s' \<and> (\<forall>e \<in> set fs. step_of_call i e)
    \<and> length fs = steps_left i s \<and> cc_rpcs s' i = Idle"
  using assms
proof (induction "steps_left i s" arbitrary: es s)
  case 0
  have "cc_rpcs s i = Idle" using 0(1) by (simp add: steps_left_def slot_busy)
  then have "conc_steps rx lib s [] s \<and> (\<forall>e \<in> set []. step_of_call i e)
      \<and> length [] = steps_left i s \<and> cc_rpcs s i = Idle"
    using 0 by (simp add: No_step)
  then show ?case by blast
next
  case (Suc k)
  note typed = conc_run_typed [OF Suc.prems]
  have busy: "cc_rpcs s i \<noteq> Idle" using Suc.hyps(2) by (auto simp: steps_left_def)
  obtain e s1 where e: "conc_step rx lib s e s1" "step_of_call i e"
    using call_enabled [OF typed busy] by blast
  have "k = steps_left i s1"
    using steps_left_step [OF typed e(1) busy] Suc.hyps(2) e(2) by simp
  then obtain fs s' where "conc_steps rx lib s1 fs s'" "\<forall>e \<in> set fs. step_of_call i e"
      "length fs = k" "cc_rpcs s' i = Idle"
    using Suc.hyps(1) [OF _ Step_conc [OF Suc.prems e(1)]] by auto
  then have "conc_steps rx lib s (e # fs) s' \<and> (\<forall>x \<in> set (e # fs). step_of_call i x)
      \<and> length (e # fs) = steps_left i s \<and> cc_rpcs s' i = Idle"
    using e Suc.hyps(2) by (simp add: First_step)
  then show ?case by blast
qed

subsection \<open>The subscriber\<close>

text \<open>A writer with nothing left to do is not inside a retry loop.\<close>

lemma goroutine_step_done:
  "goroutine_step sh g = Some (sh', Writer [] pc) \<Longrightarrow> pc = AtLoad"
  by (cases "(sh, g)" rule: goroutine_step.cases) (auto split: option.splits if_splits)

lemma conc_run_done: "conc_run rx lib es s \<Longrightarrow> procs (cc_system s) j = Writer [] pc \<Longrightarrow> pc = AtLoad"
proof (induction arbitrary: j pc rule: conc_run.induct)
  case (Boot_conc b)
  then show ?case by (simp add: conc_boot_def start_system_def no_goroutine_def)
next
  case (Step_conc es s e s')
  have moved: "pc = AtLoad" if "system_step k (cc_system s) = Some sys" "procs sys j = Writer [] pc" for k sys
    using that(1)
  proof (rule system_step_cases)
    fix sh' g'
    assume "goroutine_step (shared (cc_system s)) (procs (cc_system s) k) = Some (sh', g')"
      "sys = \<lparr>shared = sh', procs = (procs (cc_system s))(k := g')\<rparr>"
    then show ?thesis
      using that(2) goroutine_step_done Step_conc.IH [of j pc] by (cases "j = k") auto
  qed
  show ?case
    using Step_conc.hyps(2) Step_conc.prems
    by (cases rule: conc_step.cases)
       (auto simp: no_goroutine_def split: if_splits intro: Step_conc.IH moved)
qed

lemma subscriber_steps:
  "\<exists>k \<le> n. conc_steps rx lib s (replicate k SubscriberMoved) (s\<lparr>cc_system := alone n 0 (cc_system s)\<rparr>)"
proof (induction n arbitrary: s)
  case 0
  then show ?case by (simp add: alone_def No_step)
next
  case (Suc n)
  show ?case
  proof (cases "system_step 0 (cc_system s)")
    case None
    then show ?thesis by (auto simp: alone_def run_idle No_step intro!: exI [of _ 0])
  next
    case (Some sys)
    obtain k where "k \<le> n" "conc_steps rx lib (s\<lparr>cc_system := sys\<rparr>) (replicate k SubscriberMoved)
        (s\<lparr>cc_system := alone n 0 sys\<rparr>)"
      using Suc.IH [of "s\<lparr>cc_system := sys\<rparr>"] by auto
    with First_step [OF MoveSubscriber [OF Some]] show ?thesis
      by (intro exI [of _ "Suc k"]) (simp add: alone_Suc Some)
  qed
qed

lemma subscriber_moves:
  "conc_run rx lib es s \<Longrightarrow>
     \<exists>k \<le> n. conc_run rx lib (es @ replicate k SubscriberMoved) (s\<lparr>cc_system := alone n 0 (cc_system s)\<rparr>)"
  using subscriber_steps [of n rx lib s] conc_run_steps [of rx lib s _ _ es] by blast

lemma entry_updates_length: "length (entry_updates rx vs) \<le> 1"
  by (simp add: entry_updates_def split: option.split)

lemma subscriber_finishes_path:
  assumes run: "conc_run rx lib es s" and busy: "cc_entry s = Some vs"
  shows "\<exists>k \<le> 5. \<exists>s'. conc_steps rx lib s (replicate k SubscriberMoved @ [EntryApplied vs]) s'
    \<and> cc_rpcs s' = cc_rpcs s \<and> cc_entry s' = None \<and> cc_endpoint s' = cc_endpoint s"
proof -
  obtain n where n: "subscriber_ok rx es n s" using conc_run_window [OF run] unfolding window_inv_def by blast
  then obtain pc where pc: "procs (cc_system s) 0 = Writer (drop n (update_list_calls (begun rx es))) pc"
    by (auto simp: subscriber_ok_def)
  let ?cs = "drop n (update_list_calls (begun rx es))"
  have ci: "conc_inv (cc_system s)" using n by (simp add: subscriber_ok_def)
  have "begun rx es = finished rx es @ entry_updates rx vs" "2 * length (finished rx es) \<le> n"
    using n busy by (simp_all add: subscriber_ok_def)
  then have short: "2 * length ?cs + 1 \<le> 5" using entry_updates_length [of rx vs] by simp
  let ?n = "2 * length ?cs + 1"
  let ?s = "s\<lparr>cc_system := alone ?n 0 (cc_system s)\<rparr>"
  obtain k where k: "k \<le> ?n" "conc_steps rx lib s (replicate k SubscriberMoved) ?s"
    using subscriber_steps by blast
  note run' = conc_run_steps [OF k(2) run]
  obtain ds pc' where "procs (cc_system ?s) 0 = Writer ds pc'"
    using conc_run_typed [OF run'] by (auto simp: conc_typed_def)
  moreover have "remaining (procs (cc_system ?s) 0) = []" using alone_any [OF ci pc] by simp
  ultimately have "procs (cc_system ?s) 0 = Writer [] AtLoad" using conc_run_done [OF run'] by simp
  from conc_steps_snoc [OF k(2) FinishEntry [OF _ this]] busy
  have "conc_steps rx lib s (replicate k SubscriberMoved @ [EntryApplied vs]) (?s\<lparr>cc_entry := None\<rparr>)" by simp
  then show ?thesis using k(1) short by (intro exI [of _ k] conjI exI [of _ "?s\<lparr>cc_entry := None\<rparr>"]) auto
qed

lemma subscriber_finishes:
  assumes run: "conc_run rx lib es s" and busy: "cc_entry s = Some vs"
  shows "\<exists>k \<le> 5. \<exists>s'. conc_run rx lib (es @ replicate k SubscriberMoved @ [EntryApplied vs]) s'
    \<and> cc_rpcs s' = cc_rpcs s \<and> cc_entry s' = None \<and> cc_endpoint s' = cc_endpoint s"
  using subscriber_finishes_path [OF assms] conc_run_steps [OF _ run] by blast

subsection \<open>The properties\<close>

text \<open>
  C22: every reachable state of the process is well typed.  The collectors are registered, the
  audit channel is open, within its capacity of 10000, and served by five workers; every policy
  in the allow table has mode ALLOW and none in the deny table, each under its own identifier;
  the goroutine of every call is where the call is, and the tables that it has loaded are an
  allow table and a deny table, never one for the other; and the subscriber has calls on the
  store ahead of it only while it works on an entry.
\<close>

theorem process_well_typed:
  assumes "conc_run rx lib es s"
  shows "conc_typed lib s"
  by (rule conc_run_typed [OF assms])

text \<open>
  C23: calls are wait-free.  From every reachable state the call or the scrape in any slot can be
  brought to its end by its own steps alone, at most four, without the subscriber, the audit workers
  or another call making a step; and in every step of the process from there on, its own steps
  bring it nearer by one while the steps of all others neither delay nor advance it.
\<close>

theorem calls_are_wait_free:
  assumes "conc_run rx lib es s"
  shows "(\<exists>fs s'. conc_steps rx lib s fs s' \<and> (\<forall>e \<in> set fs. step_of_call i e)
        \<and> length fs = steps_left i s \<and> length fs \<le> 4 \<and> cc_rpcs s' i = Idle)
    \<and> (\<forall>e s'. cc_rpcs s i \<noteq> Idle \<longrightarrow> conc_step rx lib s e s' \<longrightarrow>
          steps_left i s = steps_left i s' + (if step_of_call i e then 1 else 0))"
proof -
  have "steps_left i s \<le> 4"
    unfolding steps_left_def
    by (cases "cc_rpcs s i"; cases "procs (cc_system s) (Suc i)") simp_all
  then show ?thesis
    using call_finishes [OF assms] steps_left_step [OF conc_run_typed [OF assms]] by metis
qed

subsection \<open>Examples for the witnesses\<close>

text \<open>A call that runs alone.\<close>

lemma call_alone_path:
  assumes run: "conc_run rx lib es s" and idle: "cc_rpcs s i = Idle"
  shows "\<exists>resp s'. conc_steps rx lib s
      [Received i req, Loaded i, Loaded i, Evaluated i req resp, Answered i req resp] s'"
proof -
  let ?s1 = "set_proc (Suc i) Reader (set_rpc i (Evaluating req) s)"
  have t1: "conc_step rx lib s (Received i req) ?s1" by (rule Receive [OF idle])
  obtain sys2 A where p2: "system_step (Suc i) (cc_system ?s1) = Some sys2" "procs sys2 (Suc i) = ReaderAllow A"
    by (simp add: system_step_def)
  let ?s2 = "?s1\<lparr>cc_system := sys2\<rparr>"
  have t2: "conc_step rx lib ?s1 (Loaded i) ?s2" by (rule Load) (simp_all add: p2)
  obtain sys3 D where p3: "system_step (Suc i) (cc_system ?s2) = Some sys3" "procs sys3 (Suc i) = ReaderDone A D"
    using p2(2) by (simp add: system_step_def)
  let ?s3 = "?s2\<lparr>cc_system := sys3\<rparr>"
  have t3: "conc_step rx lib ?s2 (Loaded i) ?s3" by (rule Load) (use p3 in simp_all)
  note r3 = Step_conc [OF Step_conc [OF Step_conc [OF run t1] t2] t3]
  note typed = conc_run_typed [OF r3, unfolded conc_typed_def audit_running_def]
  obtain recv srv resp where ev: "receiver_ok (cc_audit ?s3) recv"
      "evaluate rx rev rev 0 recv req A D (cc_audit ?s3) = Some (srv, ResponseMessage (Some resp), None)"
    using evaluate_answers typed by blast
  have "\<exists>s4. conc_step rx lib ?s3 (Evaluated i req resp) s4 \<and> cc_rpcs s4 i = Decided req resp"
    by (intro exI conjI, rule Evaluate [OF _ _ range_order_rev range_order_rev ev]) (use p3 in simp_all)
  then obtain s4 where t4: "conc_step rx lib ?s3 (Evaluated i req resp) s4" "cc_rpcs s4 i = Decided req resp" by blast
  have "metrics_ready lib Count (cc_metrics s4)"
    using conc_run_typed [OF Step_conc [OF r3 t4(1)]] by (simp add: conc_typed_def)
  from Answer [OF t4(2) interceptor_answer [OF this]] show ?thesis
    using t1 t2 t3 t4(1) First_step No_step by metis
qed

lemma call_alone:
  assumes run: "conc_run rx lib es s" and idle: "cc_rpcs s i = Idle"
  shows "\<exists>resp s'. conc_run rx lib
      (es @ [Received i req, Loaded i, Loaded i, Evaluated i req resp, Answered i req resp]) s'"
  using call_alone_path [OF assms] conc_run_steps [OF _ run] by blast

lemma sample_conc_boot: "conc_run rx sample_prom [] (conc_boot sample_boot)"
  by (rule Boot_conc [OF sample_main_setup])

text \<open>One entry is applied, and then a call runs.\<close>

definition entry_then_call ::
  "nat \<Rightarrow> entry_values \<Rightarrow> CheckAccessRequest \<Rightarrow> CheckAccessResponse \<Rightarrow> conc_event list" where
  "entry_then_call k vs req resp =
     ([EntryRead vs] @ replicate k SubscriberMoved @ [EntryApplied vs])
     @ Received 0 req # [Loaded 0, Loaded 0, Evaluated 0 req resp]"

lemma entry_call_run:
  "\<exists>k resp s. conc_run literal_regexp sample_prom (entry_then_call k vs req resp @ Answered 0 req resp # []) s"
proof -
  have "conc_run literal_regexp sample_prom ([] @ [EntryRead vs])
      (set_proc 0 (Writer (update_list_calls (entry_updates literal_regexp vs)) AtLoad)
        ((conc_boot sample_boot)\<lparr>cc_entry := Some vs\<rparr>))"
    by (rule Step_conc [OF sample_conc_boot ReadEntry]) (simp add: conc_boot_def)
  from subscriber_finishes [OF this] obtain k s where
    "conc_run literal_regexp sample_prom ([EntryRead vs] @ replicate k SubscriberMoved @ [EntryApplied vs]) s"
    "cc_rpcs s 0 = Idle" by (auto simp: conc_boot_def)
  from call_alone [OF this, of req] show ?thesis
    unfolding entry_then_call_def append_assoc append_Cons append_Nil by blast
qed

lemma entry_call_window:
  "finished rx (before_call 0 (entry_then_call k vs req resp)) = entry_updates rx vs"
  "begun rx (entry_then_call k vs req resp) = entry_updates rx vs"
proof -
  have "before_call 0 (entry_then_call k vs req resp)
      = [EntryRead vs] @ replicate k SubscriberMoved @ [EntryApplied vs]"
    unfolding entry_then_call_def by (rule before_call_received) simp
  then show "finished rx (before_call 0 (entry_then_call k vs req resp)) = entry_updates rx vs"
    by (simp add: finished_def)
  show "begun rx (entry_then_call k vs req resp) = entry_updates rx vs"
    by (simp add: begun_def entry_then_call_def)
qed

theorem overlapping_decisions_witness:
  "\<exists>k resp s. conc_run literal_regexp sample_prom
      (entry_then_call k sample_entry (sample_call ''admin'') resp @ Answered 0 (sample_call ''admin'') resp # []) s
    \<and> crs_Allowed resp"
proof -
  obtain k resp s where run: "conc_run literal_regexp sample_prom
      (entry_then_call k sample_entry (sample_call ''admin'') resp @ Answered 0 (sample_call ''admin'') resp # []) s"
    using entry_call_run by blast
  have "crs_Allowed resp \<longleftrightarrow>
      authorized literal_regexp (table_of [Upsert document_policy]) (sample_request ''admin'')"
    using overlapping_decisions [OF run]
    by (simp only: entry_call_window sample_entry_updates eval_sample_call)
  moreover have "authorized literal_regexp (table_of [Upsert document_policy]) (sample_request ''admin'')"
    using sample_authorized by (simp add: run_table_def table_of_def event_updates_def sample_entry_updates)
  ultimately show ?thesis using run by blast
qed

theorem overlapping_accounts_witness:
  "\<exists>k resp s. conc_run literal_regexp sample_prom
      (entry_then_call k sample_entry (sample_call ''admin'') resp @ Answered 0 (sample_call ''admin'') resp # []) s
    \<and> mt_calls (cc_metrics s) = decision_calls sample_prom resp"
proof -
  obtain k resp s where run: "conc_run literal_regexp sample_prom
      (entry_then_call k sample_entry (sample_call ''admin'') resp @ Answered 0 (sample_call ''admin'') resp # []) s"
    using entry_call_run by blast
  have "answers (entry_then_call k sample_entry (sample_call ''admin'') resp
      @ Answered 0 (sample_call ''admin'') resp # []) = [resp]"
    by (simp add: answers_def entry_then_call_def)
  then have "mt_calls (cc_metrics s) = decision_calls sample_prom resp"
    using conjunct1 [OF overlapping_accounts [OF run]] by simp
  with run show ?thesis by blast
qed

theorem process_well_typed_witness:
  "\<exists>es s. conc_run literal_regexp sample_prom es s \<and> conc_typed sample_prom s"
  using entry_call_run process_well_typed by metis

theorem calls_are_wait_free_witness:
  "\<exists>fs s. conc_run literal_regexp sample_prom
      ([Received 7 (sample_call ''admin'')] @ fs) s \<and> length fs = 4 \<and> cc_rpcs s 7 = Idle"
proof -
  have "conc_run literal_regexp sample_prom ([] @ [Received 7 (sample_call ''admin'')])
      (set_proc (Suc 7) Reader (set_rpc 7 (Evaluating (sample_call ''admin'')) (conc_boot sample_boot)))"
    by (rule Step_conc [OF sample_conc_boot Receive]) (simp add: conc_boot_def)
  from calls_are_wait_free [OF this, of 7] conc_run_steps [OF _ this]
  show ?thesis by (fastforce simp: steps_left_def)
qed

end
