(* ===== verification/Process_Torn.thy ===== *)
theory Process_Torn
  imports Process_Progress
begin

text \<open>
  Why a decision is bounded by the updates around it for one overlapping update only: a run of
  the process in which two updates fall between the two loads of a call, and the client is
  allowed what no state of the policies ever authorized.
\<close>

subsection \<open>An entry applied beside a waiting call\<close>

lemma alone_others: "j \<noteq> i \<Longrightarrow> procs (alone n i s) j = procs s j"
proof (induction n arbitrary: s)
  case (Suc n)
  then show ?case using step_other_slot [of i s _ j] by (simp add: alone_Suc split: option.split)
qed (simp add: alone_def)

text \<open>Between two entries the tables are those of the updates begun.\<close>

lemma idle_store:
  assumes "conc_run rx lib es s" "cc_entry s = None"
  shows "abs_store (cc_system s) = run_updates UpsertPolicy DeletePolicy (begun rx es) NewPolicyStore"
  using conc_run_window [OF assms(1)] assms(2)
  by (auto simp: window_inv_def subscriber_ok_def store_at_def hist_full)

lemma entry_beside_calls:
  assumes run: "conc_run rx lib es s" and idle: "cc_entry s = None"
  shows "\<exists>fs s'. conc_run rx lib (es @ fs) s' \<and> begun rx (es @ fs) = begun rx es @ entry_updates rx vs
    \<and> cc_entry s' = None \<and> cc_rpcs s' = cc_rpcs s
    \<and> (\<forall>i. procs (cc_system s') (Suc i) = procs (cc_system s) (Suc i))"
proof -
  let ?cs = "update_list_calls (entry_updates rx vs)"
  let ?s1 = "set_proc 0 (Writer ?cs AtLoad) (s\<lparr>cc_entry := Some vs\<rparr>)"
  have r1: "conc_run rx lib (es @ [EntryRead vs]) ?s1" by (rule Step_conc [OF run ReadEntry [OF idle]])
  let ?n = "2 * length ?cs"
  let ?s2 = "?s1\<lparr>cc_system := alone ?n 0 (cc_system ?s1)\<rparr>"
  obtain k where r2: "conc_run rx lib ((es @ [EntryRead vs]) @ replicate k SubscriberMoved) ?s2"
    using subscriber_moves [OF r1] by blast
  have "procs (cc_system ?s2) 0 = Writer [] AtLoad"
    using alone_AtLoad [of "cc_system ?s1" 0 ?cs ?n] by simp
  from Step_conc [OF r2 FinishEntry [OF _ this]]
  have r3: "conc_run rx lib (es @ ([EntryRead vs] @ replicate k SubscriberMoved @ [EntryApplied vs]))
      (?s2\<lparr>cc_entry := None\<rparr>)" by simp
  have "begun rx (es @ ([EntryRead vs] @ replicate k SubscriberMoved @ [EntryApplied vs]))
      = begun rx es @ entry_updates rx vs" by (simp add: begun_def)
  moreover have "procs (cc_system (?s2\<lparr>cc_entry := None\<rparr>)) (Suc i) = procs (cc_system s) (Suc i)" for i
    using alone_others [of "Suc i" 0 ?n "cc_system ?s1"] by simp
  ultimately show ?thesis
    using r3
    by (intro exI [of _ "[EntryRead vs] @ replicate k SubscriberMoved @ [EntryApplied vs]"]
        exI [of _ "?s2\<lparr>cc_entry := None\<rparr>"] conjI) simp_all
qed

lemma entries_beside_calls:
  assumes "conc_run rx lib es s" "cc_entry s = None"
  shows "\<exists>fs s'. conc_run rx lib (es @ fs) s'
    \<and> begun rx (es @ fs) = begun rx es @ concat (map (entry_updates rx) vss)
    \<and> cc_entry s' = None \<and> cc_rpcs s' = cc_rpcs s
    \<and> (\<forall>i. procs (cc_system s') (Suc i) = procs (cc_system s) (Suc i))"
  using assms
proof (induction vss arbitrary: es s)
  case Nil
  then show ?case by (intro exI [of _ "[]"] exI [of _ s]) simp
next
  case (Cons vs vss)
  obtain fs s1 where r1: "conc_run rx lib (es @ fs) s1"
      "begun rx (es @ fs) = begun rx es @ entry_updates rx vs" "cc_entry s1 = None"
      "cc_rpcs s1 = cc_rpcs s" "\<forall>i. procs (cc_system s1) (Suc i) = procs (cc_system s) (Suc i)"
    using entry_beside_calls [OF Cons.prems] by blast
  obtain gs s2 where r2: "conc_run rx lib ((es @ fs) @ gs) s2"
      "begun rx ((es @ fs) @ gs) = begun rx (es @ fs) @ concat (map (entry_updates rx) vss)"
      "cc_entry s2 = None" "cc_rpcs s2 = cc_rpcs s1"
      "\<forall>i. procs (cc_system s2) (Suc i) = procs (cc_system s1) (Suc i)"
    using Cons.IH [OF r1(1,3)] by blast
  then show ?case using r1 by (intro exI [of _ "fs @ gs"] exI [of _ s2]) simp
qed

subsection \<open>A call with updates between its loads\<close>

lemma load_step:
  assumes "conc_run rx lib es s" "cc_rpcs s i = Evaluating req"
    and "goroutine_step (shared (cc_system s)) (procs (cc_system s) (Suc i)) = Some (sh, g)"
  shows "\<exists>s'. conc_run rx lib (es @ [Loaded i]) s' \<and> procs (cc_system s') (Suc i) = g
    \<and> cc_rpcs s' i = Evaluating req \<and> cc_entry s' = cc_entry s"
proof -
  let ?sys = "\<lparr>shared = sh, procs = (procs (cc_system s))(Suc i := g)\<rparr>"
  have "system_step (Suc i) (cc_system s) = Some ?sys" using assms(3) by (simp add: system_step_def)
  moreover have "loading (cc_rpcs s i)" using assms(2) by simp
  ultimately have "conc_run rx lib (es @ [Loaded i]) (s\<lparr>cc_system := ?sys\<rparr>)"
    by (intro Step_conc [OF assms(1)] Load)
  then show ?thesis
    using assms(2) by (intro exI [of _ "s\<lparr>cc_system := ?sys\<rparr>"]) simp
qed

lemma split_call:
  assumes run: "conc_run rx lib es s" and idle: "cc_entry s = None" "cc_rpcs s i = Idle"
  shows "\<exists>xs resp s'. conc_run rx lib (xs @ [Answered i req resp]) s'
    \<and> begun rx xs = begun rx es @ concat (map (entry_updates rx) vss)
    \<and> (crs_Allowed resp \<longleftrightarrow> tables_granted rx
         (ps_allow (run_updates UpsertPolicy DeletePolicy (begun rx es) NewPolicyStore))
         (ps_deny (run_updates UpsertPolicy DeletePolicy (begun rx xs) NewPolicyStore))
         (eval_request req))"
proof -
  let ?s1 = "set_proc (Suc i) Reader (set_rpc i (Evaluating req) s)"
  let ?A = "snd (sh_allow (shared (cc_system s)))"
  have r1: "conc_run rx lib (es @ [Received i req]) ?s1" by (rule Step_conc [OF run Receive [OF idle(2)]])
  have A: "?A = ps_allow (run_updates UpsertPolicy DeletePolicy (begun rx es) NewPolicyStore)"
    by (simp only: idle_store [OF run idle(1), symmetric] abs_store_def PolicyStore.select_convs)
  obtain s2 where r2: "conc_run rx lib ((es @ [Received i req]) @ [Loaded i]) s2"
      "procs (cc_system s2) (Suc i) = ReaderAllow ?A" "cc_rpcs s2 i = Evaluating req" "cc_entry s2 = None"
    using load_step [OF r1, of i req] idle(1) by force
  obtain fs s3 where r3: "conc_run rx lib (((es @ [Received i req]) @ [Loaded i]) @ fs) s3"
      "begun rx (((es @ [Received i req]) @ [Loaded i]) @ fs)
         = begun rx ((es @ [Received i req]) @ [Loaded i]) @ concat (map (entry_updates rx) vss)"
      "cc_entry s3 = None" "cc_rpcs s3 = cc_rpcs s2"
      "\<forall>i. procs (cc_system s3) (Suc i) = procs (cc_system s2) (Suc i)"
    using entries_beside_calls [OF r2(1,4)] by blast
  let ?es3 = "((es @ [Received i req]) @ [Loaded i]) @ fs"
  let ?D = "snd (sh_deny (shared (cc_system s3)))"
  have begun3: "begun rx ?es3 = begun rx es @ concat (map (entry_updates rx) vss)"
    unfolding r3(2) by (simp add: begun_def)
  have D: "?D = ps_deny (run_updates UpsertPolicy DeletePolicy (begun rx ?es3) NewPolicyStore)"
    by (simp only: idle_store [OF r3(1,3), symmetric] abs_store_def PolicyStore.select_convs)
  obtain s4 where r4: "conc_run rx lib (?es3 @ [Loaded i]) s4"
      "procs (cc_system s4) (Suc i) = ReaderDone ?A ?D" "cc_rpcs s4 i = Evaluating req"
    using load_step [OF r3(1), of i req] r2(2,3) r3(4,5) by force
  have "\<not> ch_closed (cc_audit s4)"
    using conc_run_typed [OF r4(1)] by (simp add: conc_typed_def audit_running_def)
  then obtain recv srv resp where ev: "receiver_ok (cc_audit s4) recv"
      "evaluate rx rev rev 0 recv req ?A ?D (cc_audit s4) = Some (srv, ResponseMessage (Some resp), None)"
    using evaluate_answers by blast
  let ?s5 = "set_proc (Suc i) no_goroutine (set_rpc i (Decided req resp) (s4\<lparr>cc_audit := as_audit srv\<rparr>))"
  have r5: "conc_run rx lib ((?es3 @ [Loaded i]) @ [Evaluated i req resp]) ?s5"
    by (rule Step_conc [OF r4(1) Evaluate [OF r4(3,2) range_order_rev range_order_rev ev]])
  have "metrics_ready lib Count (cc_metrics ?s5)" using conc_run_typed [OF r5] by (simp add: conc_typed_def)
  from Step_conc [OF r5 Answer [OF _ interceptor_answer [OF this]]]
  have "\<exists>s'. conc_run rx lib (((?es3 @ [Loaded i]) @ [Evaluated i req resp]) @ [Answered i req resp]) s'"
    by force
  moreover have "begun rx ((?es3 @ [Loaded i]) @ [Evaluated i req resp]) = begun rx ?es3"
    by (simp add: begun_def)
  moreover have "crs_Allowed resp \<longleftrightarrow> tables_granted rx ?A ?D (eval_request req)"
    using evaluate_decided [OF ev(2) range_order_rev range_order_rev] by blast
  ultimately show ?thesis unfolding A D using begun3 by metis
qed

subsection \<open>The run\<close>

definition torn_before :: "entry_values list" where
  "torn_before =
     [Publish_values ActionUpsert ''x'' (policy_document (role_policy ''x'' AccessDeny ''admin'' :: string policy)),
      Publish_values ActionUpsert ''y'' (policy_document (role_policy ''y'' AccessAllow ''admin'' :: string policy))]"

definition torn_during :: "entry_values list" where
  "torn_during = [Publish_values ActionDelete ''y'' [], Publish_values ActionDelete ''x'' []]"

lemma role_document_decodes:
  assumes "k = ''x'' \<and> a = AccessDeny \<or> k = ''y'' \<and> a = AccessAllow"
  shows "Unmarshal_policy (policy_document (role_policy k a ''admin'' :: string policy))
    = Some (role_policy k a ''admin'' :: string policy)"
proof -
  have "valid_policy (role_policy ''x'' AccessDeny ''admin'' :: string policy)"
      "valid_policy (role_policy ''y'' AccessAllow ''admin'' :: string policy)"
    by code_simp+
  then have "valid_policy (role_policy k a ''admin'' :: string policy)" using assms by auto
  moreover have "source_policy (role_policy k a ''admin'') = role_policy k a ''admin''"
    by (simp add: source_policy_def source_condition_def role_policy_def mk_policy_def mk_condition_def)
  ultimately show ?thesis using Unmarshal_document by fastforce
qed

lemma torn_entries:
  "k = ''x'' \<and> a = AccessDeny \<or> k = ''y'' \<and> a = AccessAllow \<Longrightarrow>
     entry_updates literal_regexp (Publish_values ActionUpsert i (policy_document (role_policy k a ''admin'' :: string policy)))
       = [Upsert (role_policy k a ''admin'')]"
  "k \<noteq> [] \<Longrightarrow> entry_updates rx (Publish_values ActionDelete k []) = [Delete k]"
proof -
  assume ka: "k = ''x'' \<and> a = AccessDeny \<or> k = ''y'' \<and> a = AccessAllow"
  have "Compile literal_regexp (role_policy k a ''admin'') = (role_policy k a ''admin'', None)"
    by (simp add: role_policy_def mk_policy_def mk_condition_def Compile_def)
  from publish_document [OF role_document_decodes [OF ka] this, of i NewPolicyStore] ka
  show "entry_updates literal_regexp (Publish_values ActionUpsert i (policy_document (role_policy k a ''admin'' :: string policy)))
       = [Upsert (role_policy k a ''admin'')]"
    by (auto simp: entry_updates_def entry_update_def role_policy_def mk_policy_def)
next
  assume "k \<noteq> []"
  then show "entry_updates rx (Publish_values ActionDelete k []) = [Delete k]"
    by (simp add: entry_updates_def entry_update_def processMessageEntry_def)
qed

lemma torn_entry_updates:
  "concat (map (entry_updates literal_regexp) torn_before)
     = [Upsert (role_policy ''x'' AccessDeny ''admin''), Upsert (role_policy ''y'' AccessAllow ''admin'')]"
  "concat (map (entry_updates literal_regexp) torn_during) = [Delete ''y'', Delete ''x'']"
  by (simp_all add: torn_before_def torn_during_def torn_entries)

definition torn_history :: "string update list" where
  "torn_history =
     [Upsert (role_policy ''x'' AccessDeny ''admin''), Upsert (role_policy ''y'' AccessAllow ''admin''),
      Delete ''y'', Delete ''x'']"

lemmas torn_eval = torn_history_def run_updates_def UpsertPolicy_def DeletePolicy_def Let_def
  NewPolicyStore_def upsertInto_def inserted_map_def removeFrom_def removed_map_def maps_Keep_def
  maps_Copy_def gomap_put_def tables_granted_def granted_def

lemma torn_never_authorized:
  "\<not> authorized literal_regexp (table_of (take n torn_history)) (sample_request ''admin'')"
proof -
  consider "n = 0" | "n = 1" | "n = 2" | "n = 3" | "4 \<le> n" by linarith
  then show ?thesis
    unfolding granted_table_of [symmetric] by cases (simp_all add: torn_eval numeral_eq_Suc)
qed

lemma torn_tables:
  "tables_granted literal_regexp
     (ps_allow (run_updates UpsertPolicy DeletePolicy (take 2 torn_history) NewPolicyStore))
     (ps_deny (run_updates UpsertPolicy DeletePolicy torn_history NewPolicyStore)) (sample_request ''admin'')"
  by (simp add: torn_eval)

text \<open>
  C20: two updates during one call can grant what was never granted.  There is a run of the
  process in which a deny policy and an allow policy for the same requests are in force when a
  call comes in, both are deleted, the allow policy first, while the call is between its two
  loads, and the response allows, although the policies authorized the request at no point of
  the history.
\<close>

theorem two_updates_can_grant:
  "\<exists>xs resp s. conc_run literal_regexp sample_prom (xs @ [Answered 0 (sample_call ''admin'') resp]) s
     \<and> crs_Allowed resp
     \<and> (\<forall>n. \<not> authorized literal_regexp (table_of (take n (begun literal_regexp xs))) (sample_request ''admin''))"
proof -
  have boot: "cc_entry (conc_boot sample_boot) = None" "cc_rpcs (conc_boot sample_boot) 0 = Idle"
    by (simp_all add: conc_boot_def)
  obtain es s where r: "conc_run literal_regexp sample_prom ([] @ es) s"
      "begun literal_regexp ([] @ es)
         = begun literal_regexp [] @ concat (map (entry_updates literal_regexp) torn_before)"
      "cc_entry s = None" "cc_rpcs s = cc_rpcs (conc_boot sample_boot)"
    using entries_beside_calls [OF sample_conc_boot boot(1)] by blast
  have before: "begun literal_regexp ([] @ es) = take 2 torn_history"
    unfolding r(2) torn_entry_updates by (simp add: torn_history_def)
  obtain xs resp s' where c: "conc_run literal_regexp sample_prom (xs @ [Answered 0 (sample_call ''admin'') resp]) s'"
      "begun literal_regexp xs = take 2 torn_history @ concat (map (entry_updates literal_regexp) torn_during)"
      "crs_Allowed resp \<longleftrightarrow> tables_granted literal_regexp
         (ps_allow (run_updates UpsertPolicy DeletePolicy (take 2 torn_history) NewPolicyStore))
         (ps_deny (run_updates UpsertPolicy DeletePolicy (begun literal_regexp xs) NewPolicyStore))
         (eval_request (sample_call ''admin''))"
    using split_call [OF r(1,3), of 0 "sample_call ''admin''" torn_during] boot(2) r(4)
    unfolding before by auto
  have during: "begun literal_regexp xs = torn_history"
    unfolding c(2) torn_entry_updates by (simp add: torn_history_def)
  have "crs_Allowed resp" using c(3) torn_tables by (simp only: during eval_sample_call)
  then show ?thesis using c(1) torn_never_authorized by (metis during)
qed

end
