(* ===== verification/Process_Scrape.thy ===== *)
theory Process_Scrape
  imports Process_Progress
begin

text \<open>
  What a scrape of the metrics endpoint can report while updates are applied.  The gauge is
  recomputed with two loads, so it may count a policy that is changing its table twice or not at
  all; the bound is one for every update that overlaps the scrape.
\<close>

subsection \<open>What one update does to the sizes of the tables\<close>

definition allow_size :: "'r PolicyStore \<Rightarrow> int" where
  "allow_size st = int (length (ps_allow st))"

definition deny_size :: "'r PolicyStore \<Rightarrow> int" where
  "deny_size st = int (length (ps_deny st))"

lemma Count_sizes: "int (Count st) = allow_size st + deny_size st"
  by (simp add: Count_def allow_size_def deny_size_def)

lemma gomap_length: "gomap_ok m \<Longrightarrow> int (length m) = int (card (dom (gomap_get m)))"
  by (simp add: gomap_card_dom)

lemma card_near: "finite S \<Longrightarrow> card S = card (S - {k}) \<or> card S = Suc (card (S - {k}))"
  using card_Suc_Diff1 [of S k] by (cases "k \<in> S") auto

lemma card_dom_upd:
  assumes "finite (dom m)"
  shows "\<bar>int (card (dom (m(k := v)))) - int (card (dom m))\<bar> \<le> 1"
proof -
  have "dom (m(k := v)) - {k} = dom m - {k}" by auto
  moreover have "finite (dom (m(k := v)))" using assms by simp
  ultimately have "card (dom m) = card (dom m - {k}) \<or> card (dom m) = Suc (card (dom m - {k}))"
    "card (dom (m(k := v))) = card (dom m - {k}) \<or> card (dom (m(k := v))) = Suc (card (dom m - {k}))"
    using card_near [OF assms, of k] card_near [of "dom (m(k := v))" k] by simp_all
  then show ?thesis by (elim disjE) (simp_all only: of_nat_Suc)
qed

lemma size_step:
  assumes "gomap_ok m" "gomap_ok m'" "gomap_get m' = (gomap_get m)(k := v)"
  shows "\<bar>int (length m') - int (length m)\<bar> \<le> 1"
proof -
  have "\<bar>int (card (dom (gomap_get m'))) - int (card (dom (gomap_get m)))\<bar> \<le> 1"
    unfolding assms(3) by (rule card_dom_upd) (rule finite_dom_map_of)
  then show ?thesis by (simp only: gomap_card_dom assms(1,2))
qed

lemma removeFrom_size: "gomap_ok m \<Longrightarrow> \<bar>int (length (removeFrom k m)) - int (length m)\<bar> \<le> 1"
  by (rule size_step [where k = k and v = None]) (auto simp: removeFrom_def removed_map_def)

lemma upsertInto_size: "gomap_ok m \<Longrightarrow> \<bar>int (length (upsertInto p m)) - int (length m)\<bar> \<le> 1"
  by (rule size_step [where k = "pol_ID p" and v = "Some p"]) (auto simp: upsertInto_def inserted_map_def)

text \<open>
  One update is two calls, one on each table: in the middle each table is as before or as
  after, its size changes by one at most, and so does the number of stored policies.
\<close>

definition small_update :: "(nat \<Rightarrow> int) \<Rightarrow> (nat \<Rightarrow> int) \<Rightarrow> nat \<Rightarrow> bool" where
  "small_update a d n \<longleftrightarrow> (a (n + 1) = a n \<or> a (n + 1) = a (n + 2)) \<and> (d (n + 1) = d n \<or> d (n + 1) = d (n + 2))
     \<and> \<bar>a (n + 2) - a n\<bar> \<le> 1 \<and> \<bar>d (n + 2) - d n\<bar> \<le> 1
     \<and> \<bar>(a (n + 2) + d (n + 2)) - (a n + d n)\<bar> \<le> 1"

lemma update_small:
  assumes "store_inv st"
  shows "small_update (\<lambda>n. allow_size (hist (update_calls u) st n)) (\<lambda>n. deny_size (hist (update_calls u) st n)) 0"
proof -
  let ?st = "run_updates UpsertPolicy DeletePolicy [u] st"
  have "store_inv ?st" using assms by (cases u) (simp_all add: run_updates_def store_inv_Upsert store_inv_Delete)
  moreover have "stored ?st = table_update (stored st) u"
    using assms by (cases u) (simp_all add: run_updates_def stored_Upsert stored_Delete)
  moreover have "\<exists>k v. table_update (stored st) u = (stored st)(k := v)" by (cases u) auto
  ultimately have total: "\<bar>(allow_size ?st + deny_size ?st) - (allow_size st + deny_size st)\<bar> \<le> 1"
    using card_dom_upd [of "stored st"] assms
    by (auto simp: Count_sizes [symmetric] Count_card dom_stored finite_dom_map_of)
  have tables: "gomap_ok (ps_allow st)" "gomap_ok (ps_deny st)" using assms by simp_all
  show ?thesis
  proof (cases u)
    case (Upsert p)
    show ?thesis
    proof (cases "pol_Access p = AccessAllow")
      case True
      then show ?thesis
        using total removeFrom_size [OF tables(2), of "pol_ID p"] upsertInto_size [OF tables(1), of p] Upsert
        by (simp add: small_update_def hist_def allow_size_def deny_size_def run_updates_def UpsertPolicy_def)
    next
      case False
      then show ?thesis
        using total removeFrom_size [OF tables(1), of "pol_ID p"] upsertInto_size [OF tables(2), of p] Upsert
        by (simp add: small_update_def hist_def allow_size_def deny_size_def run_updates_def UpsertPolicy_def)
    qed
  next
    case (Delete k)
    then show ?thesis
      using total removeFrom_size [OF tables(1), of k] removeFrom_size [OF tables(2), of k]
      by (simp add: small_update_def hist_def allow_size_def deny_size_def run_updates_def DeletePolicy_def)
  qed
qed

subsection \<open>Two loads over several updates\<close>

lemma small_steps:
  fixes f :: "nat \<Rightarrow> int"
  assumes "\<forall>i. p \<le> i \<and> i < n \<longrightarrow> \<bar>f (Suc i) - f i\<bar> \<le> 1" "p \<le> j" "j \<le> n"
  shows "\<bar>f j - f p\<bar> \<le> int j - int p"
  using assms(2,3)
proof (induction j rule: dec_induct)
  case (step i)
  then have "\<bar>f (Suc i) - f i\<bar> \<le> 1" "\<bar>f i - f p\<bar> \<le> int i - int p" using assms(1) by simp_all
  then show ?case by linarith
qed simp

text \<open>A size that is read in the middle of an update is the one before or the one after it.\<close>

lemma nearest_even:
  fixes f :: "nat \<Rightarrow> int"
  assumes "\<forall>i. p \<le> i \<and> i < n \<longrightarrow> f (2 * i + 1) = f (2 * i) \<or> f (2 * i + 1) = f (2 * i + 2)"
    and "2 * p \<le> x" "x \<le> 2 * n"
  obtains j where "f x = f (2 * j)" "p \<le> j" "j \<le> n" "2 * j \<le> x + 1" "x \<le> 2 * j + 1"
proof (cases "even x")
  case True
  then obtain i where "x = 2 * i" by (elim evenE)
  then show thesis using assms(2,3) by (intro that [of i]) simp_all
next
  case False
  then obtain i where i: "x = 2 * i + 1" by (elim oddE)
  then have "f x = f (2 * i) \<or> f x = f (2 * Suc i)" using assms by simp
  then show thesis
  proof
    assume "f x = f (2 * i)"
    then show thesis using assms(2,3) i by (intro that [of i]) simp_all
  next
    assume "f x = f (2 * Suc i)"
    then show thesis using assms(2,3) i by (intro that [of "Suc i"]) simp_all
  qed
qed

text \<open>
  The two loads at the points \<open>m\<close> and \<open>l\<close> of the calls of \<open>n\<close> updates, none before the first \<open>p\<close>
  updates are over: the sum of the sizes is within the number of the others of the sum before.
\<close>

lemma two_loads:
  assumes small: "\<forall>i. p \<le> i \<and> i < n \<longrightarrow> small_update a d (2 * i)"
    and ml: "2 * p \<le> m" "m \<le> l" "l \<le> 2 * n"
  shows "\<bar>(a m + d l) - (a (2 * p) + d (2 * p))\<bar> \<le> int n - int p"
proof -
  have total: "\<bar>(a (2 * j) + d (2 * j)) - (a (2 * p) + d (2 * p))\<bar> \<le> int j - int p" if "p \<le> j" "j \<le> n" for j
    by (rule small_steps [where f = "\<lambda>i. a (2 * i) + d (2 * i)", OF _ that])
       (use small in \<open>simp add: small_update_def\<close>)
  have denies: "\<bar>d (2 * j) - d (2 * i)\<bar> \<le> int j - int i" if "p \<le> i" "i \<le> j" "j \<le> n" for i j
    by (rule small_steps [where f = "\<lambda>i. d (2 * i)", OF _ that(2,3)])
       (use small that(1) in \<open>simp add: small_update_def\<close>)
  obtain i where i: "a m = a (2 * i)" "p \<le> i" "i \<le> n" "2 * i \<le> m + 1" "m \<le> 2 * i + 1"
    by (rule nearest_even [of p n a m]) (use small ml in \<open>simp_all add: small_update_def\<close>)
  obtain j where j: "d l = d (2 * j)" "p \<le> j" "j \<le> n" "2 * j \<le> l + 1" "l \<le> 2 * j + 1"
    by (rule nearest_even [of p n d l]) (use small ml in \<open>simp_all add: small_update_def\<close>)
  show ?thesis
  proof (cases "i \<le> j")
    case True
    have "\<bar>(a (2 * i) + d (2 * i)) - (a (2 * p) + d (2 * p))\<bar> \<le> int i - int p" by (rule total [OF i(2,3)])
    moreover have "\<bar>d (2 * j) - d (2 * i)\<bar> \<le> int j - int i" by (rule denies [OF i(2) True j(3)])
    ultimately show ?thesis using i(1) j(1,3) by linarith
  next
    case False
    then have "i = Suc j" using i(4) j(5) ml(2) by simp
    moreover from this have "small_update a d (2 * j)" using small i(3) j(2) by simp
    ultimately have "\<bar>a (2 * i) - a (2 * j)\<bar> \<le> 1" by (simp add: small_update_def)
    moreover have "\<bar>(a (2 * j) + d (2 * j)) - (a (2 * p) + d (2 * p))\<bar> \<le> int j - int p" by (rule total [OF j(2,3)])
    ultimately show ?thesis using i(1,3) j(1) \<open>i = Suc j\<close> by linarith
  qed
qed

subsection \<open>The gauge of a scrape\<close>

lemma store_at_update:
  assumes "i < length us" "k \<le> 2"
  shows "hist (update_list_calls us) NewPolicyStore (2 * i + k)
    = hist (update_calls (us ! i)) (run_updates UpsertPolicy DeletePolicy (take i us) NewPolicyStore) k"
proof -
  have us: "us = take i us @ us ! i # drop (Suc i) us" using assms by (simp add: id_take_nth_drop)
  have "update_list_calls us = update_list_calls (take i us) @ update_calls (us ! i) @ update_list_calls (drop (Suc i) us)"
    by (subst us) (simp add: update_list_calls_def)
  then show ?thesis
    using assms hist_plus [of "update_list_calls (take i us)" "update_calls (us ! i) @ update_list_calls (drop (Suc i) us)"
        NewPolicyStore k]
    by (simp add: apply_update_list_calls hist_append)
qed

lemma store_updates_small:
  assumes "i < length us"
  shows "small_update (\<lambda>n. allow_size (hist (update_list_calls us) NewPolicyStore n))
    (\<lambda>n. deny_size (hist (update_list_calls us) NewPolicyStore n)) (2 * i)"
proof -
  let ?st = "run_updates UpsertPolicy DeletePolicy (take i us) NewPolicyStore"
  have "store_inv ?st" using store.run by blast
  from update_small [OF this, of "us ! i"]
  show ?thesis
    using store_at_update [OF assms, of 0] store_at_update [OF assms, of 1] store_at_update [OF assms, of "Suc (Suc 0)"]
    by (simp add: small_update_def)
qed

text \<open>The gauge is two loads of a registered store.\<close>

lemma scraped_window:
  assumes "conc_run rx lib (xs @ Scraped i v # ys) s"
  shows "\<exists>m l. 2 * length (finished rx (before_call i xs)) \<le> m \<and> m \<le> l \<and> l \<le> 2 * length (begun rx xs)
    \<and> int v = allow_size (store_at rx xs m) + deny_size (store_at rx xs l)"
proof -
  obtain s0 s1 where run: "conc_run rx lib xs s0" and step: "conc_step rx lib s0 (Scraped i v) s1"
    using conc_run_split [OF assms refl] by blast
  obtain n where n: "subscriber_ok rx xs n s0" "calls_ok rx xs n s0"
    using conc_run_window [OF run] unfolding window_inv_def by blast
  have ready: "metrics_ready lib Count (cc_metrics s0)"
    using conc_run_typed [OF run] by (simp add: conc_typed_def)
  from step obtain A D where "cc_rpcs s0 i = Scraping" "procs (cc_system s0) (Suc i) = ReaderDone A D"
      "v = scraped_gauge (cc_metrics s0) A D"
    by (cases rule: conc_step.cases) simp_all
  then have "int v = int (length A) + int (length D)"
    "load_view (store_at rx xs) (2 * length (finished rx (before_call i xs))) n (ReaderDone A D)"
    using ready call_viewD [OF n(2), of i]
    by (simp_all add: scraped_gauge_def policyCount_def metrics_ready_def Count_def)
  moreover have "n \<le> 2 * length (begun rx xs)" using n(1) by (simp add: subscriber_ok_def)
  ultimately show ?thesis unfolding load_view.simps allow_size_def deny_size_def by (meson order_trans)
qed

text \<open>What was finished when a call or a scrape came in is the beginning of what has begun since.\<close>

lemma finished_before:
  assumes "conc_run rx lib xs s"
  obtains us where "begun rx xs = finished rx (before_call i xs) @ us"
proof -
  obtain zs where zs: "xs = before_call i xs @ zs" using before_call_prefix by blast
  then obtain s0 where "conc_run rx lib (before_call i xs) s0" using conc_run_prefix assms by metis
  then obtain n where "subscriber_ok rx (before_call i xs) n s0"
    using conc_run_window unfolding window_inv_def by blast
  then have "\<exists>us. begun rx (before_call i xs) = finished rx (before_call i xs) @ us"
    by (auto simp: subscriber_ok_def split: option.splits)
  moreover have "begun rx xs = begun rx (before_call i xs) @ begun rx zs"
    by (subst zs) (simp only: begun_def map_append concat_append)
  ultimately show thesis using that by auto
qed

text \<open>
  C18: what the policy gauge can report.  Take any run of the process and a scrape of the metrics
  endpoint in it, with calls, updates and other scrapes interleaved at their atomic operations.
  The reported number is the number of policies that the updates finished before the scrape
  left in force, up to one for every update that overlaps the scrape; in particular it is exact
  when none does.
\<close>

theorem scraped_gauge_bound:
  assumes "conc_run rx lib (xs @ Scraped i v # ys) s"
  shows "\<exists>us. begun rx xs = finished rx (before_call i xs) @ us
    \<and> \<bar>int v - int (card (dom (table_of (finished rx (before_call i xs)))))\<bar> \<le> int (length us)"
proof -
  let ?past = "finished rx (before_call i xs)"
  obtain s0 where "conc_run rx lib xs s0" using conc_run_prefix [OF assms] by blast
  from finished_before [OF this, of i] obtain us where us: "begun rx xs = ?past @ us" by blast
  obtain m l where ml: "2 * length ?past \<le> m" "m \<le> l" "l \<le> 2 * length (begun rx xs)"
      "int v = allow_size (store_at rx xs m) + deny_size (store_at rx xs l)"
    using scraped_window [OF assms] by blast
  have "\<bar>int v - (allow_size (store_at rx xs (2 * length ?past)) + deny_size (store_at rx xs (2 * length ?past)))\<bar>
      \<le> int (length (begun rx xs)) - int (length ?past)"
    unfolding ml(4)
    by (rule two_loads [OF _ ml(1-3)]) (use store_updates_small [of _ "begun rx xs"] in \<open>simp add: store_at_def\<close>)
  moreover have "store_at rx xs (2 * length ?past) = run_updates UpsertPolicy DeletePolicy ?past NewPolicyStore"
    using hist_append [of "2 * length ?past" "update_list_calls ?past" "update_list_calls us" NewPolicyStore]
    by (simp add: store_at_def us hist_full)
  then have "allow_size (store_at rx xs (2 * length ?past)) + deny_size (store_at rx xs (2 * length ?past))
      = int (card (dom (table_of ?past)))"
    using store.run [of ?past] by (simp add: Count_sizes [symmetric] Count_card table_of_def)
  ultimately show ?thesis using us by auto
qed

subsection \<open>Witness\<close>

lemma scrape_alone:
  assumes run: "conc_run rx lib es s" and idle: "cc_rpcs s i = Idle" "cc_endpoint s"
  shows "\<exists>v s'. conc_run rx lib ((es @ [ScrapeBegun i, Loaded i, Loaded i]) @ Scraped i v # []) s'"
proof -
  let ?s1 = "set_proc (Suc i) Reader (set_rpc i Scraping s)"
  have r1: "conc_run rx lib (es @ [ScrapeBegun i]) ?s1" by (rule Step_conc [OF run BeginScrape [OF idle]])
  obtain sys2 A where p2: "system_step (Suc i) (cc_system ?s1) = Some sys2" "procs sys2 (Suc i) = ReaderAllow A"
    by (simp add: system_step_def)
  let ?s2 = "?s1\<lparr>cc_system := sys2\<rparr>"
  have r2: "conc_run rx lib ((es @ [ScrapeBegun i]) @ [Loaded i]) ?s2"
    by (rule Step_conc [OF r1 Load]) (simp_all add: p2)
  obtain sys3 D where p3: "system_step (Suc i) (cc_system ?s2) = Some sys3" "procs sys3 (Suc i) = ReaderDone A D"
    using p2(2) by (simp add: system_step_def)
  let ?s3 = "?s2\<lparr>cc_system := sys3\<rparr>"
  have r3: "conc_run rx lib (((es @ [ScrapeBegun i]) @ [Loaded i]) @ [Loaded i]) ?s3"
    by (rule Step_conc [OF r2 Load]) (use p3 in simp_all)
  have "cc_rpcs ?s3 i = Scraping" "procs (cc_system ?s3) (Suc i) = ReaderDone A D" using p3 by simp_all
  from Step_conc [OF r3 EndScrape [OF this]] show ?thesis by (simp only: append.simps append_assoc) blast
qed

text \<open>One entry is applied, and then a scrape reports one policy.\<close>

theorem scraped_gauge_bound_witness:
  "\<exists>xs s. conc_run literal_regexp sample_prom (xs @ Scraped 0 1 # []) s"
proof -
  have "conc_run literal_regexp sample_prom ([] @ [EntryRead sample_entry])
      (set_proc 0 (Writer (update_list_calls (entry_updates literal_regexp sample_entry)) AtLoad)
        ((conc_boot sample_boot)\<lparr>cc_entry := Some sample_entry\<rparr>))"
    by (rule Step_conc [OF sample_conc_boot ReadEntry]) (simp add: conc_boot_def)
  from subscriber_finishes [OF this] obtain k s where
    "conc_run literal_regexp sample_prom ([EntryRead sample_entry] @ replicate k SubscriberMoved @ [EntryApplied sample_entry]) s"
    "cc_rpcs s 0 = Idle" "cc_endpoint s" by (auto simp: conc_boot_def)
  from scrape_alone [OF this] obtain v s' where run: "conc_run literal_regexp sample_prom
      ((([EntryRead sample_entry] @ replicate k SubscriberMoved @ [EntryApplied sample_entry])
        @ [ScrapeBegun 0, Loaded 0, Loaded 0]) @ Scraped 0 v # []) s'" by blast
  let ?es = "[EntryRead sample_entry] @ replicate k SubscriberMoved @ [EntryApplied sample_entry]"
  have "before_call 0 (?es @ ScrapeBegun 0 # [Loaded 0, Loaded 0]) = ?es"
    by (simp add: before_call_def)
  moreover have "begun literal_regexp (?es @ ScrapeBegun 0 # [Loaded 0, Loaded 0]) = [Upsert document_policy]"
    "finished literal_regexp ?es = [Upsert document_policy]"
    by (simp_all add: begun_def finished_def sample_entry_updates)
  ultimately have "\<bar>int v - int (card (dom (table_of [Upsert document_policy :: string update])))\<bar> \<le> 0"
    using scraped_gauge_bound [OF run] by auto
  then have "v = 1" by (simp add: table_of_def)
  with run show ?thesis by blast
qed

end
