(* ===== verification/Process_Main.thy ===== *)
theory Process_Main
  imports Bouncer_System
begin

text \<open>
  The life of the process, \<open>cmd/bouncer-engine/main.go\<close> from its first line to its exit: the
  set-up with its failures, what is running when the server serves, and what happens when the
  server stops serving.

  The environment says whether the port can be bound, gives the variables, and says what
  \<open>Serve\<close> returns.  \<open>Serve\<close> returns no error only after a stop of the server, which nothing in
  the program asks for.  The metrics endpoint is a goroutine that changes no state.
\<close>

definition grpc_port :: string where "grpc_port = '':50051''"

definition bufferSize :: int where "bufferSize = 10000"

definition workers :: int where "workers = 5"

record main_env =
  me_getenv :: "string \<Rightarrow> string"
  me_Listen :: "string \<Rightarrow> string option"

text \<open>
  The set-up ends in a panic, in an exit with a status, or in a serving process: the address of
  Redis, the subscriber, and the metrics beside the server.  The subscriber and the server hold
  the same pointer to the store.
\<close>

datatype ('r, 'c, 'f) main_start =
    MainPanics
  | MainExits int
  | MainServes string "'r subscriber" "('r, 'c, 'f) bouncer"

definition bouncer_main :: "main_env \<Rightarrow> ('c, 'f) prom_lib \<Rightarrow> ('r, 'c, 'f) main_start" where
  "bouncer_main env lib =
     (let policyStore = NewPolicyStore in
      case Register lib Count initial_metrics of
        None \<Rightarrow> MainPanics
      | Some m \<Rightarrow>
          (case me_Listen env grpc_port of
             Some err \<Rightarrow> MainExits 1
           | None \<Rightarrow>
               (case NewAuditLogger bufferSize of
                  None \<Rightarrow> MainPanics
                | Some auditLogger \<Rightarrow>
                    (let started_logger = Start_workers workers auditLogger in
                     MainServes (AddrFromEnv (me_getenv env))
                       (NewPolicyUpdateSubscriber StreamKey policyStore)
                       (m, NewAuthzServer policyStore started_logger)))))"

text \<open>
  The end of \<open>main\<close>.  After an error of \<open>Serve\<close> the process exits with status 1 at once, and
  deferred calls do not run; otherwise \<open>main\<close> returns and the deferred \<open>Stop\<close> closes the channel
  and waits for the workers.  The last argument is the audit log as the process leaves it.
\<close>

inductive main_ends :: "('r, 'c, 'f) bouncer \<Rightarrow> string option \<Rightarrow> int \<Rightarrow> AuditLogger \<Rightarrow> bool" where
  ServeFailed: "main_ends b (Some err) 1 (as_audit (snd b))"
| ServeStopped:
    "Stop_close (as_audit (snd b)) = Some a \<Longrightarrow> audit_run a wes a' \<Longrightarrow>
     \<forall>e \<in> set wes. \<exists>i. e = Worked i \<Longrightarrow> Stop_returns a' \<Longrightarrow> main_ends b None 0 a'"

inductive_cases main_ends_errorE: "main_ends b (Some err) st a"
inductive_cases main_ends_returnE: "main_ends b None st a"

subsection \<open>Set-up\<close>

lemma bouncer_main_serves:
  "bouncer_main env lib = MainServes addr sub b \<Longrightarrow>
     main_setup lib = Some b \<and> addr = AddrFromEnv (me_getenv env)
     \<and> sub = NewPolicyUpdateSubscriber StreamKey (as_engine (snd b))"
  by (auto simp: bouncer_main_def main_setup_def Let_def bufferSize_def workers_def NewAuthzServer_def
      split: option.splits)

text \<open>
  The set-up fails in two ways only: it panics when a child counter of the decisions cannot be
  resolved, and exits with status 1 when the port cannot be bound; otherwise it serves.
\<close>

lemma fresh_Register:
  "Register lib cnt initial_metrics = None \<longleftrightarrow>
     (\<exists>e. prom_GetMetricWithLabelValues lib ''allow'' = Inl e)
     \<or> (\<exists>e. prom_GetMetricWithLabelValues lib ''deny'' = Inl e)"
  by (auto simp: Register_def MustRegister_package initial_metrics_def split: sum.splits)

theorem bouncer_main_outcomes:
  "case bouncer_main env lib of
     MainPanics \<Rightarrow>
       (\<exists>e. prom_GetMetricWithLabelValues lib ''allow'' = Inl e)
       \<or> (\<exists>e. prom_GetMetricWithLabelValues lib ''deny'' = Inl e)
   | MainExits st \<Rightarrow> st = 1 \<and> (\<exists>err. me_Listen env grpc_port = Some err)
   | MainServes addr sub b \<Rightarrow>
       me_Listen env grpc_port = None \<and> addr = AddrFromEnv (me_getenv env)
       \<and> bouncer_run rx lib [] b"
proof (cases "bouncer_main env lib :: ('a, 'b, 'c) main_start")
  case MainPanics
  then have "Register lib (Count :: 'a PolicyStore \<Rightarrow> nat) initial_metrics = None"
    by (auto simp: bouncer_main_def Let_def NewAuditLogger_def bufferSize_def split: option.splits)
  then show ?thesis by (simp add: MainPanics fresh_Register)
next
  case (MainExits st)
  then show ?thesis
    by (auto simp: bouncer_main_def Let_def split: option.splits)
next
  case (MainServes addr sub b)
  have "me_Listen env grpc_port = None"
    using MainServes by (auto simp: bouncer_main_def Let_def split: option.splits)
  moreover have "bouncer_run rx lib [] b" "addr = AddrFromEnv (me_getenv env)"
    using bouncer_main_serves [OF MainServes] by (auto intro: Boot)
  ultimately show ?thesis by (simp add: MainServes)
qed

subsection \<open>The audit log at exit\<close>

lemma drain_events:
  "\<forall>e \<in> set wes. \<exists>i. e = Worked i \<Longrightarrow> accepted (Closed # wes) = [] \<and> dropped (Closed # wes) = []"
  by (induction wes) (auto simp: accepted_def dropped_def)

lemma stopped_log:
  assumes "audit_run (started 10000 5) aes l" "Stop_close l = Some a" "audit_run a wes a'"
    and "\<forall>e \<in> set wes. \<exists>i. e = Worked i" "Stop_returns a'"
  shows "mset (offered aes) = mset (slog_records a') + mset (dropped aes)
    \<and> length (dropped aes) = slog_warnings a'"
proof -
  have "audit_run (started 10000 5) (aes @ [Closed]) a"
    by (rule run_snoc [OF assms(1) Close [OF assms(2)]])
  from audit_run_append [OF assms(3) this] have run: "audit_run (started 10000 5) ((aes @ [Closed]) @ wes) a'" .
  have "mset (slog_records a') = mset (accepted ((aes @ [Closed]) @ wes))"
    by (rule Stop_drained [OF run assms(5)]) simp
  then show ?thesis
    using audit_conserved [OF run] drain_events [OF assms(4)] mset_offered [of aes] by simp
qed

text \<open>
  C11: what the exit of the process leaves of the audit log.  When the server was stopped
  and \<open>main\<close> returns, the status is 0 and every response that was ever given has its record
  written, or was dropped with a warning when it was given.  When \<open>Serve\<close> fails, the status
  is 1 and nothing more is written: the records still in the buffer or held by a worker are
  gone, on top of the dropped ones, and no warning tells of them.
\<close>

theorem main_exit_audit:
  assumes "bouncer_run rx lib es b" "main_ends b serve_err st a"
  shows "(serve_err = None \<longrightarrow> st = 0 \<and> (\<exists>lost. length lost = slog_warnings a
            \<and> mset (served_records es) = mset (slog_records a) + mset lost))
    \<and> (serve_err \<noteq> None \<longrightarrow> st = 1 \<and> (\<exists>lost. length lost = slog_warnings a
            \<and> mset (served_records es) = mset (slog_records a) + mset lost
                + (in_flight (lg_workers (as_audit (snd b))) + mset (ch_buf (as_audit (snd b))))))"
proof -
  obtain aes where aes: "audit_run (started 10000 5) aes (as_audit (snd b))" "offered aes = served_records es"
    using system_invD(5) [OF bouncer_run_inv [OF assms(1)]] by blast
  show ?thesis
  proof (cases serve_err)
    case None
    from assms(2) [unfolded None] obtain a1 wes where st: "st = 0" and stop:
      "Stop_close (as_audit (snd b)) = Some a1" "audit_run a1 wes a"
      "\<forall>e \<in> set wes. \<exists>i. e = Worked i" "Stop_returns a"
      by (rule main_ends_returnE)
    from stopped_log [OF aes(1) stop] show ?thesis
      using aes(2) st None by (intro conjI impI exI [of _ "dropped aes"]) simp_all
  next
    case (Some err)
    from assms(2) [unfolded Some] have a: "st = 1" "a = as_audit (snd b)"
      by (auto elim: main_ends_errorE)
    have "mset (served_records es) = mset (slog_records a) + mset (dropped aes)
        + (in_flight (lg_workers a) + mset (ch_buf a))" "length (dropped aes) = slog_warnings a"
      using audit_conserved [OF aes(1)] mset_offered [of aes] aes(2) a(2) by simp_all
    then show ?thesis using Some a by auto
  qed
qed


subsection \<open>A record lost at exit\<close>

lemma sample_served_run:
  "\<exists>resp b. bouncer_run literal_regexp sample_prom [Served (sample_call ''admin'') resp] b
     \<and> slog_records (as_audit (snd b)) = [] \<and> slog_warnings (as_audit (snd b)) = 0"
proof -
  have boot: "bouncer_run literal_regexp sample_prom [] sample_boot" by (rule Boot [OF sample_main_setup])
  have audit: "as_audit (snd sample_boot) = started 10000 5"
    by (simp add: fresh_process_def NewAuthzServer_def)
  have rcv: "receiver_ok (as_audit (snd sample_boot)) 0" by (simp add: receiver_ok_def audit)
  obtain r a ok where call:
      "LogDecision 0 r (as_audit (snd sample_boot)) = Some (a, ok)"
      "\<exists>m resp. grpc_call literal_regexp sample_prom rev rev 5 0 (Inr (sample_call ''admin'')) sample_boot
        = Some ((m, (snd sample_boot)\<lparr>as_audit := a\<rparr>), ResponseMessage (Some resp), None)"
    using grpc_call_decided [OF system_invD(1,2) [OF bouncer_run_inv [OF boot]],
        of literal_regexp rev rev "sample_call ''admin''" 5 0] by blast
  then obtain m resp where step: "bouncer_step literal_regexp sample_prom sample_boot
      (Served (sample_call ''admin'') resp) (m, (snd sample_boot)\<lparr>as_audit := a\<rparr>)"
    using Serve [OF range_order_rev range_order_rev rcv] by blast
  have "slog_records a = []" "slog_warnings a = 0"
    using call(1) by (auto simp: LogDecision_def audit parked_def)
  then show ?thesis
    using Step [OF boot step]
    by (intro exI [of _ resp] exI [of _ "(m, (snd sample_boot)\<lparr>as_audit := a\<rparr>)"]) simp
qed

text \<open>
  C27: a served decision can vanish from the audit trail.  There is a run in which a client
  got a response, \<open>Serve\<close> then failed, and the process left neither a written record nor a
  warning, although the buffer had room and nothing was dropped.
\<close>

theorem failed_serve_loses_records:
  "\<exists>es b a. bouncer_run literal_regexp sample_prom es b \<and> main_ends b (Some ''accept'') 1 a
     \<and> length (served_records es) = 1 \<and> slog_records a = [] \<and> slog_warnings a = 0"
proof -
  obtain resp b where run: "bouncer_run literal_regexp sample_prom [Served (sample_call ''admin'') resp] b"
      "slog_records (as_audit (snd b)) = []" "slog_warnings (as_audit (snd b)) = 0"
    using sample_served_run by blast
  have "length (served_records [Served (sample_call ''admin'') resp]) = 1"
    by (simp add: served_records_def)
  with run ServeFailed [of b "''accept''"] show ?thesis by blast
qed

theorem main_exit_audit_witness:
  "\<exists>resp b lost. main_ends (b :: (string, string, int \<times> int) bouncer) (Some ''accept'') 1 (as_audit (snd b))
     \<and> {#response_record (sample_call ''admin'') resp#} = mset lost
         + (in_flight (lg_workers (as_audit (snd b))) + mset (ch_buf (as_audit (snd b))))"
proof -
  obtain resp b where run: "bouncer_run literal_regexp sample_prom [Served (sample_call ''admin'') resp] b"
      "slog_records (as_audit (snd b)) = []"
    using sample_served_run by blast
  have "served_records [Served (sample_call ''admin'') resp] = [response_record (sample_call ''admin'') resp]"
    by (simp add: served_records_def)
  with main_exit_audit [OF run(1) ServeFailed [of b "''accept''"]] run(2)
  obtain lost where "{#response_record (sample_call ''admin'') resp#} = mset lost
      + (in_flight (lg_workers (as_audit (snd b))) + mset (ch_buf (as_audit (snd b))))"
    by auto
  with ServeFailed [of b "''accept''"] show ?thesis by blast
qed

end
