(* ===== verification/Deployment.thy ===== *)
theory Deployment
  imports Process_Progress
begin

text \<open>
  The deployed system: publishers append to the Redis stream, any number of replicas of the
  engine read it, each at its own pace and beside the calls it serves, and a replica can be
  restarted at any moment, with an empty store and from the beginning of the stream.  The
  replicas share nothing but the stream.

  The Redis stream is modelled by its documented behaviour: an entry gets an identifier of its
  own, different from 0, and a read after an identifier returns the first entry behind it (the
  read of the subscriber asks for one).
\<close>

subsection \<open>The model\<close>

definition stream_ok :: "stream_entry list \<Rightarrow> bool" where
  "stream_ok es \<longleftrightarrow> distinct (map fst es) \<and> ''0'' \<notin> fst ` set es"

definition xread_after :: "string \<Rightarrow> stream_entry list \<Rightarrow> stream_entry list" where
  "xread_after lastID es = (if lastID = ''0'' then es else drop 1 (dropWhile (\<lambda>e. fst e \<noteq> lastID) es))"

text \<open>A replica, with the entry of the last reply that it works on and the events since it booted.\<close>

record ('r, 'c, 'f) replica =
  rp_lastID :: string
  rp_entry :: "stream_entry option"
  rp_process :: "('r, 'c, 'f) conc"
  rp_past :: "conc_event list"

record ('r, 'c, 'f) deployment =
  dp_stream :: "stream_entry list"
  dp_replicas :: "nat \<Rightarrow> ('r, 'c, 'f) replica"

definition boot_replica :: "('r, 'c, 'f) bouncer \<Rightarrow> ('r, 'c, 'f) replica" where
  "boot_replica b = \<lparr>rp_lastID = ''0'', rp_entry = None, rp_process = conc_boot b, rp_past = []\<rparr>"

definition set_replica ::
  "nat \<Rightarrow> ('r, 'c, 'f) replica \<Rightarrow> ('r, 'c, 'f) deployment \<Rightarrow> ('r, 'c, 'f) deployment" where
  "set_replica k r d = d\<lparr>dp_replicas := (dp_replicas d)(k := r)\<rparr>"

definition advance ::
  "conc_event \<Rightarrow> ('r, 'c, 'f) conc \<Rightarrow> ('r, 'c, 'f) replica \<Rightarrow> ('r, 'c, 'f) replica" where
  "advance e s r = r\<lparr>rp_process := s, rp_past := rp_past r @ [e]\<rparr>"

datatype deploy_event =
    Appended stream_entry
  | Restarted nat
  | ReadNext nat stream_entry
  | AppliedNext nat stream_entry
  | Moved nat conc_event

inductive deploy_step ::
  "'r regexp_lib \<Rightarrow> ('c, 'f) prom_lib \<Rightarrow> ('r, 'c, 'f) deployment \<Rightarrow> deploy_event
     \<Rightarrow> ('r, 'c, 'f) deployment \<Rightarrow> bool"
  for rx lib where
  Append:
    "fst e \<noteq> ''0'' \<Longrightarrow> fst e \<notin> fst ` set (dp_stream d) \<Longrightarrow>
     deploy_step rx lib d (Appended e) (d\<lparr>dp_stream := dp_stream d @ [e]\<rparr>)"
| Restart:
    "main_setup lib = Some b \<Longrightarrow> deploy_step rx lib d (Restarted k) (set_replica k (boot_replica b) d)"
| Read_next:
    "r = dp_replicas d k \<Longrightarrow> rp_entry r = None \<Longrightarrow> xread_after (rp_lastID r) (dp_stream d) = e # rest \<Longrightarrow>
     conc_step rx lib (rp_process r) (EntryRead (snd e)) s \<Longrightarrow>
     deploy_step rx lib d (ReadNext k e)
       (set_replica k ((advance (EntryRead (snd e)) s r)\<lparr>rp_entry := Some e\<rparr>) d)"
| Applied_next:
    "r = dp_replicas d k \<Longrightarrow> rp_entry r = Some e \<Longrightarrow>
     conc_step rx lib (rp_process r) (EntryApplied (snd e)) s \<Longrightarrow>
     deploy_step rx lib d (AppliedNext k e)
       (set_replica k ((advance (EntryApplied (snd e)) s r)\<lparr>rp_entry := None, rp_lastID := fst e\<rparr>) d)"
| Move:
    "r = dp_replicas d k \<Longrightarrow> \<not> entry_event e \<Longrightarrow> conc_step rx lib (rp_process r) e s \<Longrightarrow>
     deploy_step rx lib d (Moved k e) (set_replica k (advance e s r) d)"

inductive deploy_run ::
  "'r regexp_lib \<Rightarrow> ('c, 'f) prom_lib \<Rightarrow> deploy_event list \<Rightarrow> ('r, 'c, 'f) deployment \<Rightarrow> bool"
  for rx lib where
  Deploy:
    "main_setup lib = Some b \<Longrightarrow> deploy_run rx lib [] \<lparr>dp_stream = [], dp_replicas = (\<lambda>_. boot_replica b)\<rparr>"
| Deploy_step:
    "deploy_run rx lib des d \<Longrightarrow> deploy_step rx lib d e d' \<Longrightarrow> deploy_run rx lib (des @ [e]) d'"

lemma set_replica_simps [simp]:
  "dp_stream (set_replica k r d) = dp_stream d"
  "dp_replicas (set_replica k r d) = (dp_replicas d)(k := r)"
  by (simp_all add: set_replica_def)

lemma advance_simps [simp]:
  "rp_lastID (advance e s r) = rp_lastID r" "rp_entry (advance e s r) = rp_entry r"
  "rp_process (advance e s r) = s" "rp_past (advance e s r) = rp_past r @ [e]"
  by (simp_all add: advance_def)

subsection \<open>Reading by identifiers is reading by positions\<close>

lemma stream_ok_append:
  "stream_ok es \<Longrightarrow> fst e \<noteq> ''0'' \<Longrightarrow> fst e \<notin> fst ` set es \<Longrightarrow> stream_ok (es @ [e])"
  by (auto simp: stream_ok_def)

lemma xread_after_position:
  assumes "stream_ok es" "n \<le> length es"
  shows "xread_after (last_id (take n es)) es = drop n es"
proof (cases n)
  case 0
  then show ?thesis by (simp add: xread_after_def last_id_def)
next
  case (Suc m)
  then have m: "m < length es" using assms(2) by simp
  then have last: "last_id (take n es) = fst (es ! m)"
    using Suc by (simp add: last_id_def take_Suc_conv_app_nth)
  have "fst (es ! m) \<noteq> ''0''" using assms(1) nth_mem [OF m] by (metis stream_ok_def imageI)
  moreover have "es = take m es @ es ! m # drop n es" using m Suc by (simp add: id_take_nth_drop)
  moreover have "\<forall>e \<in> set (take m es). fst e \<noteq> fst (es ! m)"
  proof
    fix e assume "e \<in> set (take m es)"
    then obtain j where "j < m" "e = es ! j" using m by (auto simp: in_set_conv_nth)
    then show "fst e \<noteq> fst (es ! m)"
      using assms(1) m nth_eq_iff_index_eq [of "map fst es" j m] by (simp add: stream_ok_def)
  qed
  then have "dropWhile (\<lambda>e. fst e \<noteq> fst (es ! m)) (take m es @ es ! m # drop n es) = es ! m # drop n es"
    by (subst dropWhile_append2) auto
  ultimately show ?thesis unfolding last xread_after_def by simp
qed

subsection \<open>Every replica is at a position of the stream\<close>

text \<open>The entries that the events of a replica have read and applied.\<close>

definition entries_read :: "conc_event list \<Rightarrow> entry_values list" where
  "entries_read es = concat (map (\<lambda>e. case e of EntryRead vs \<Rightarrow> [vs] | _ \<Rightarrow> []) es)"

definition entries_applied :: "conc_event list \<Rightarrow> entry_values list" where
  "entries_applied es = concat (map (\<lambda>e. case e of EntryApplied vs \<Rightarrow> [vs] | _ \<Rightarrow> []) es)"

lemma entries_snoc:
  "entries_read (es @ [e]) = entries_read es @ (case e of EntryRead vs \<Rightarrow> [vs] | _ \<Rightarrow> [])"
  "entries_applied (es @ [e]) = entries_applied es @ (case e of EntryApplied vs \<Rightarrow> [vs] | _ \<Rightarrow> [])"
  by (simp_all add: entries_read_def entries_applied_def)

lemma entries_Nil [simp]: "entries_read [] = []" "entries_applied [] = []"
  by (simp_all add: entries_read_def entries_applied_def)

lemma entries_plain [simp]:
  "\<not> entry_event e \<Longrightarrow> entries_read (es @ [e]) = entries_read es"
  "\<not> entry_event e \<Longrightarrow> entries_applied (es @ [e]) = entries_applied es"
  by (cases e; simp add: entries_snoc)+

lemma updates_of_entries:
  "begun rx es = concat (map (entry_updates rx) (entries_read es))"
  "finished rx es = concat (map (entry_updates rx) (entries_applied es))"
  by (induction es rule: rev_induct)
     (auto simp: begun_snoc finished_snoc entries_snoc split: conc_event.split)

lemma stream_updates_map: "stream_updates rx es = concat (map (entry_updates rx) (map snd es))"
  by (simp add: stream_updates_def comp_def)

definition positioned :: "stream_entry list \<Rightarrow> nat \<Rightarrow> ('r, 'c, 'f) replica \<Rightarrow> bool" where
  "positioned es n r \<longleftrightarrow> n \<le> length es \<and> rp_lastID r = last_id (take n es)
     \<and> entries_applied (rp_past r) = map snd (take n es)
     \<and> (case rp_entry r of
          None \<Rightarrow> cc_entry (rp_process r) = None \<and> entries_read (rp_past r) = map snd (take n es)
        | Some e \<Rightarrow> cc_entry (rp_process r) = Some (snd e) \<and> n < length es \<and> e = es ! n
            \<and> entries_read (rp_past r) = map snd (take (Suc n) es))"

definition replica_ok ::
  "'r regexp_lib \<Rightarrow> ('c, 'f) prom_lib \<Rightarrow> stream_entry list \<Rightarrow> ('r, 'c, 'f) replica \<Rightarrow> bool" where
  "replica_ok rx lib es r \<longleftrightarrow> conc_run rx lib (rp_past r) (rp_process r) \<and> (\<exists>n. positioned es n r)"

definition deployment_ok ::
  "'r regexp_lib \<Rightarrow> ('c, 'f) prom_lib \<Rightarrow> ('r, 'c, 'f) deployment \<Rightarrow> bool" where
  "deployment_ok rx lib d \<longleftrightarrow> stream_ok (dp_stream d) \<and> (\<forall>k. replica_ok rx lib (dp_stream d) (dp_replicas d k))"

lemma positioned_boot: "positioned es 0 (boot_replica b)"
  by (simp add: positioned_def boot_replica_def last_id_def conc_boot_def)

lemma replica_ok_boot: "main_setup lib = Some b \<Longrightarrow> replica_ok rx lib es (boot_replica b)"
  using Boot_conc [of lib b rx] positioned_boot [of es b]
  by (auto simp: replica_ok_def) (simp add: boot_replica_def)

lemma positioned_append: "positioned es n r \<Longrightarrow> positioned (es @ fs) n r"
  by (auto simp: positioned_def nth_append split: option.splits)

lemma replica_ok_append: "replica_ok rx lib es r \<Longrightarrow> replica_ok rx lib (es @ [e]) r"
  using positioned_append unfolding replica_ok_def by blast

lemma other_entry:
  "conc_step rx lib s e s' \<Longrightarrow> \<not> entry_event e \<Longrightarrow> cc_entry s' = cc_entry s"
  by (cases rule: conc_step.cases) auto

lemma positioned_move:
  "\<not> entry_event e \<Longrightarrow> conc_step rx lib (rp_process r) e s \<Longrightarrow>
     positioned es n (advance e s r) \<longleftrightarrow> positioned es n r"
  by (simp add: positioned_def other_entry split: option.split)

lemma positioned_read:
  assumes "positioned es n r" "stream_ok es" "rp_entry r = None" "xread_after (rp_lastID r) es = e # rest"
    and "conc_step rx lib (rp_process r) (EntryRead (snd e)) s"
  shows "positioned es n ((advance (EntryRead (snd e)) s r)\<lparr>rp_entry := Some e\<rparr>)"
proof -
  have "drop n es = e # rest"
    using assms(1,4) xread_after_position [OF assms(2), of n] by (simp add: positioned_def)
  moreover from this have "n < length es" by (metis drop_all list.distinct(1) not_less)
  ultimately have e: "n < length es" "e = es ! n" by (simp_all add: nth_via_drop)
  moreover have "cc_entry s = Some (snd e)" using assms(5) by (cases rule: conc_step.cases) simp_all
  ultimately show ?thesis
    using assms(1,3) by (simp add: positioned_def entries_snoc take_Suc_conv_app_nth)
qed

lemma positioned_applied:
  assumes "positioned es n r" "rp_entry r = Some e" "conc_step rx lib (rp_process r) (EntryApplied (snd e)) s"
  shows "positioned es (Suc n) ((advance (EntryApplied (snd e)) s r)\<lparr>rp_entry := None, rp_lastID := fst e\<rparr>)"
proof -
  have "cc_entry s = None" using assms(3) by (cases rule: conc_step.cases) simp_all
  then show ?thesis
    using assms(1,2) by (auto simp: positioned_def entries_snoc last_id_def take_Suc_conv_app_nth)
qed

lemma replica_ok_step:
  assumes "replica_ok rx lib es r" "conc_step rx lib (rp_process r) e s"
    and "\<And>n. positioned es n r \<Longrightarrow> \<exists>n'. positioned es n' r'"
    and "rp_process r' = s" "rp_past r' = rp_past r @ [e]"
  shows "replica_ok rx lib es r'"
  using assms Step_conc [OF _ assms(2), of "rp_past r"] unfolding replica_ok_def by metis

lemma replica_ok_move:
  assumes "replica_ok rx lib es r" "\<not> entry_event e" "conc_step rx lib (rp_process r) e s"
  shows "replica_ok rx lib es (advance e s r)"
  by (rule replica_ok_step [OF assms(1,3)]) (use positioned_move [OF assms(2,3)] in auto)

lemma replica_ok_read:
  assumes "replica_ok rx lib es r" "stream_ok es" "rp_entry r = None" "xread_after (rp_lastID r) es = e # rest"
    and "conc_step rx lib (rp_process r) (EntryRead (snd e)) s"
  shows "replica_ok rx lib es ((advance (EntryRead (snd e)) s r)\<lparr>rp_entry := Some e\<rparr>)"
  by (rule replica_ok_step [OF assms(1,5)]) (use positioned_read [OF _ assms(2-5)] in auto)

lemma replica_ok_applied:
  assumes "replica_ok rx lib es r" "rp_entry r = Some e" "conc_step rx lib (rp_process r) (EntryApplied (snd e)) s"
  shows "replica_ok rx lib es ((advance (EntryApplied (snd e)) s r)\<lparr>rp_entry := None, rp_lastID := fst e\<rparr>)"
  by (rule replica_ok_step [OF assms(1,3)]) (use positioned_applied [OF _ assms(2,3)] in auto)

lemma deployment_ok_step:
  assumes ok: "deployment_ok rx lib d" and step: "deploy_step rx lib d e d'"
  shows "deployment_ok rx lib d'"
  using step
proof (cases rule: deploy_step.cases)
  case (Append e)
  then show ?thesis using ok by (auto simp: deployment_ok_def stream_ok_append replica_ok_append)
qed (use ok in \<open>auto simp: deployment_ok_def replica_ok_boot replica_ok_move replica_ok_read
      replica_ok_applied\<close>)

lemma deploy_run_ok: "deploy_run rx lib des d \<Longrightarrow> deployment_ok rx lib d"
proof (induction rule: deploy_run.induct)
  case (Deploy b)
  then show ?case by (simp add: deployment_ok_def stream_ok_def replica_ok_boot)
qed (rule deployment_ok_step)

subsection \<open>Decisions of the replicas\<close>

lemma replica_at_position:
  assumes "deploy_run rx lib des d"
  obtains n where "conc_run rx lib (rp_past (dp_replicas d k)) (rp_process (dp_replicas d k))"
    "positioned (dp_stream d) n (dp_replicas d k)"
  using deploy_run_ok [OF assms] unfolding deployment_ok_def replica_ok_def by blast

lemma entries_read_prefix:
  assumes "positioned es n r"
  obtains m where "n \<le> m" "m \<le> length es" "m \<le> Suc n" "entries_read (rp_past r) = map snd (take m es)"
    "rp_entry r = None \<longrightarrow> m = n"
  using assms by (cases "rp_entry r") (auto simp: positioned_def intro: that [of n] that [of "Suc n"])

text \<open>A replica between two entries is a subscriber at its position of the stream.\<close>

lemma idle_replica_store:
  assumes "conc_run rx lib (rp_past r) (rp_process r)" "positioned es n r" "rp_entry r = None"
  shows "abs_store (cc_system (rp_process r)) = run_updates UpsertPolicy DeletePolicy (stream_updates rx (take n es)) NewPolicyStore"
proof -
  have "begun rx (rp_past r) = stream_updates rx (take n es)"
    using assms(2,3) by (simp add: positioned_def updates_of_entries stream_updates_def comp_def)
  moreover have "cc_entry (rp_process r) = None" using assms(2,3) by (simp add: positioned_def)
  then have "abs_store (cc_system (rp_process r)) = run_updates UpsertPolicy DeletePolicy (begun rx (rp_past r)) NewPolicyStore"
    using conc_run_window [OF assms(1)]
    by (auto simp: window_inv_def subscriber_ok_def store_at_def hist_full)
  ultimately show ?thesis by simp
qed

text \<open>
  C15: a replica follows the stream.  In every reachable state of the deployment, whatever was
  appended, restarted, read and served in which order, every replica is at a position of the
  stream: it has applied the entries up to there, once each and in order, since it booted, has
  begun at most the next one, and remembers the identifier of the last one it applied; and
  whenever it is between two entries it is in the state that the sequential subscriber is in at
  that position.
\<close>

theorem replica_follows_stream:
  assumes "deploy_run rx lib des d"
  shows "\<exists>n \<le> length (dp_stream d).
      entries_applied (rp_past (dp_replicas d k)) = map snd (take n (dp_stream d))
    \<and> (\<exists>m. n \<le> m \<and> m \<le> Suc n \<and> entries_read (rp_past (dp_replicas d k)) = map snd (take m (dp_stream d)))
    \<and> rp_lastID (dp_replicas d k) = last_id (take n (dp_stream d))
    \<and> (rp_entry (dp_replicas d k) = None \<longrightarrow>
         at_position rx key (dp_stream d) NewPolicyStore n
           \<lparr>sub_streamKey = key, sub_store = abs_store (cc_system (rp_process (dp_replicas d k))),
            sub_lastID = rp_lastID (dp_replicas d k), sub_stopped = False\<rparr>)"
proof -
  let ?r = "dp_replicas d k"
  obtain n where run: "conc_run rx lib (rp_past ?r) (rp_process ?r)" and n: "positioned (dp_stream d) n ?r"
    using replica_at_position [OF assms] by blast
  obtain m where "n \<le> m" "m \<le> Suc n" "entries_read (rp_past ?r) = map snd (take m (dp_stream d))"
    using entries_read_prefix [OF n] by blast
  with n idle_replica_store [OF run n] show ?thesis
    by (intro exI [of _ n]) (auto simp: positioned_def at_position_def)
qed

lemma entries_applied_prefix:
  "\<exists>zs. entries_applied es = entries_applied (before_call i es) @ zs"
proof -
  obtain zs where "es = before_call i es @ zs" using before_call_prefix by blast
  then have "entries_applied es = entries_applied (before_call i es) @ entries_applied zs"
    by (metis entries_applied_def map_append concat_append)
  then show ?thesis by blast
qed

lemma answered_at:
  assumes "deploy_run rx lib des d" "deploy_step rx lib d (Moved k (Answered i req resp)) d'"
  shows "\<exists>n m. n \<le> m \<and> m \<le> length (dp_stream d)
    \<and> entries_applied (before_call i (rp_past (dp_replicas d k))) = map snd (take n (dp_stream d))
    \<and> entries_read (rp_past (dp_replicas d k)) = map snd (take m (dp_stream d))
    \<and> overlap_safe rx (stream_updates rx (take n (dp_stream d))) (stream_updates rx (take m (dp_stream d)))
        (crs_Allowed resp) (eval_request req)"
proof -
  let ?r = "dp_replicas d k"
  obtain n where run: "conc_run rx lib (rp_past ?r) (rp_process ?r)" and n: "positioned (dp_stream d) n ?r"
    using replica_at_position [OF assms(1)] by blast
  obtain s where "conc_step rx lib (rp_process ?r) (Answered i req resp) s"
    using assms(2) by (cases rule: deploy_step.cases) auto
  then have "conc_run rx lib (rp_past ?r @ Answered i req resp # []) s" using Step_conc [OF run] by simp
  note safe = answered_overlap_safe [OF this]
  obtain m where m: "n \<le> m" "m \<le> length (dp_stream d)" "entries_read (rp_past ?r) = map snd (take m (dp_stream d))"
    using entries_read_prefix [OF n] by blast
  obtain zs where zs: "map snd (take n (dp_stream d)) = entries_applied (before_call i (rp_past ?r)) @ zs"
    using entries_applied_prefix [of "rp_past ?r" i] n by (auto simp: positioned_def)
  let ?n = "length (entries_applied (before_call i (rp_past ?r)))"
  have "entries_applied (before_call i (rp_past ?r)) = take ?n (map snd (take n (dp_stream d)))" unfolding zs by simp
  moreover have "?n \<le> n" using arg_cong [OF zs, of length] by simp
  ultimately have n': "entries_applied (before_call i (rp_past ?r)) = map snd (take ?n (dp_stream d))"
    by (simp add: take_map min_def)
  have "finished rx (before_call i (rp_past ?r)) = stream_updates rx (take ?n (dp_stream d))"
    "begun rx (rp_past ?r) = stream_updates rx (take m (dp_stream d))"
    by (simp_all only: updates_of_entries stream_updates_map m(3) n' [symmetric])
  with safe have "overlap_safe rx (stream_updates rx (take ?n (dp_stream d))) (stream_updates rx (take m (dp_stream d)))
      (crs_Allowed resp) (eval_request req)" by (simp only:)
  moreover have "?n \<le> m" using \<open>?n \<le> n\<close> m(1) by simp
  ultimately show ?thesis using m(2,3) n' by blast
qed

text \<open>
  A replica decides by the stream.  A response of a replica, with the calls of that replica
  overlapping each other and its subscriber, lies between two positions of the stream: up to
  the first the entries were applied when the call came in, up to the second they have begun
  by the response.  If the updates up to both are the same, the response is their decision; if
  they differ by one update, it grants no more than the policies at one or the other.
\<close>

theorem replica_decides:
  assumes "deploy_run rx lib des d" "deploy_step rx lib d (Moved k (Answered i req resp)) d'"
  shows "\<exists>n m. n \<le> m \<and> m \<le> length (dp_stream d)
    \<and> entries_applied (before_call i (rp_past (dp_replicas d k))) = map snd (take n (dp_stream d))
    \<and> entries_read (rp_past (dp_replicas d k)) = map snd (take m (dp_stream d))
    \<and> overlap_safe rx (stream_updates rx (take n (dp_stream d))) (stream_updates rx (take m (dp_stream d)))
        (crs_Allowed resp) (eval_request req)"
  by (rule answered_at [OF assms])

text \<open>The call in a slot came in when its replica had applied the whole stream.\<close>

definition call_caught_up :: "('r, 'c, 'f) deployment \<Rightarrow> nat \<Rightarrow> nat \<Rightarrow> bool" where
  "call_caught_up d k i \<longleftrightarrow>
     entries_applied (before_call i (rp_past (dp_replicas d k))) = map snd (dp_stream d)"

lemma caught_up_decides:
  assumes "deploy_run rx lib des d" "deploy_step rx lib d (Moved k (Answered i req resp)) d'" "call_caught_up d k i"
  shows "crs_Allowed resp \<longleftrightarrow> authorized rx (table_of (stream_updates rx (dp_stream d))) (eval_request req)"
proof -
  obtain n m where nm: "n \<le> m" "m \<le> length (dp_stream d)"
      "entries_applied (before_call i (rp_past (dp_replicas d k))) = map snd (take n (dp_stream d))"
      "overlap_safe rx (stream_updates rx (take n (dp_stream d))) (stream_updates rx (take m (dp_stream d)))
        (crs_Allowed resp) (eval_request req)"
    using answered_at [OF assms(1,2)] by blast
  have "length (map snd (take n (dp_stream d))) = length (map snd (dp_stream d))"
    using nm(3) assms(3) by (simp add: call_caught_up_def)
  then have "take n (dp_stream d) = dp_stream d" "take m (dp_stream d) = dp_stream d" using nm(1,2) by simp_all
  then show ?thesis using nm(4) by (simp add: overlap_safe_def)
qed

text \<open>
  C16: replicas that have caught up agree.  Two replicas of any two deployments, restarted or
  not, that answer calls which came in after they had applied all of the same stream decide
  the same request alike, and as the policies of the stream authorize.
\<close>

theorem caught_up_replicas_agree:
  assumes "deploy_run rx lib des d1" "deploy_step rx lib d1 (Moved k1 (Answered i1 req resp1)) d1'"
    and "deploy_run rx lib des' d2" "deploy_step rx lib d2 (Moved k2 (Answered i2 req resp2)) d2'"
    and "dp_stream d2 = dp_stream d1" "call_caught_up d1 k1 i1" "call_caught_up d2 k2 i2"
  shows "crs_Allowed resp1 = crs_Allowed resp2
    \<and> crs_Allowed resp1 = authorized rx (table_of (stream_updates rx (dp_stream d1))) (eval_request req)"
  using caught_up_decides [OF assms(1,2,6)] caught_up_decides [OF assms(3,4,7)] assms(5) by simp

subsection \<open>Every replica can catch up\<close>

inductive deploy_steps ::
  "'r regexp_lib \<Rightarrow> ('c, 'f) prom_lib \<Rightarrow> ('r, 'c, 'f) deployment \<Rightarrow> deploy_event list
     \<Rightarrow> ('r, 'c, 'f) deployment \<Rightarrow> bool"
  for rx lib where
  No_deploy_step: "deploy_steps rx lib d [] d"
| First_deploy_step:
    "deploy_step rx lib d e d1 \<Longrightarrow> deploy_steps rx lib d1 es d2 \<Longrightarrow> deploy_steps rx lib d (e # es) d2"

lemma deploy_run_steps:
  "deploy_steps rx lib d fs d' \<Longrightarrow> deploy_run rx lib des d \<Longrightarrow> deploy_run rx lib (des @ fs) d'"
proof (induction arbitrary: des rule: deploy_steps.induct)
  case (First_deploy_step d e d1 fs d2)
  from First_deploy_step.IH [OF Deploy_step [OF First_deploy_step.prems First_deploy_step.hyps(1)]]
  show ?case by simp
qed simp

lemma deploy_steps_trans:
  "deploy_steps rx lib d es d1 \<Longrightarrow> deploy_steps rx lib d1 fs d2 \<Longrightarrow> deploy_steps rx lib d (es @ fs) d2"
  by (induction rule: deploy_steps.induct) (auto intro: deploy_steps.intros)

text \<open>The subscriber of a replica at work, and nothing else.\<close>

fun subscriber_of :: "nat \<Rightarrow> deploy_event \<Rightarrow> bool" where
  "subscriber_of k (ReadNext j e) = (j = k)"
| "subscriber_of k (AppliedNext j e) = (j = k)"
| "subscriber_of k (Moved j SubscriberMoved) = (j = k)"
| "subscriber_of k _ = False"

definition beside :: "nat \<Rightarrow> ('r, 'c, 'f) deployment \<Rightarrow> ('r, 'c, 'f) deployment \<Rightarrow> bool" where
  "beside k d d' \<longleftrightarrow> dp_stream d' = dp_stream d \<and> (\<forall>j. j \<noteq> k \<longrightarrow> dp_replicas d' j = dp_replicas d j)
     \<and> cc_rpcs (rp_process (dp_replicas d' k)) = cc_rpcs (rp_process (dp_replicas d k))"

lemma beside_refl [simp]: "beside k d d"
  by (simp add: beside_def)

lemma beside_trans: "beside k d d1 \<Longrightarrow> beside k d1 d2 \<Longrightarrow> beside k d d2"
  by (simp add: beside_def)

lemma set_replica_same [simp]: "set_replica k (dp_replicas d k) d = d"
  by (simp add: set_replica_def)

lemma set_replica_twice [simp]: "set_replica k r' (set_replica k r d) = set_replica k r' d"
  by (simp add: set_replica_def)

text \<open>Steps of the process of a replica that do not begin or finish an entry.\<close>

lemma moves_lift:
  "conc_steps rx lib s fs s' \<Longrightarrow> \<forall>e \<in> set fs. \<not> entry_event e \<Longrightarrow> rp_process (dp_replicas d k) = s \<Longrightarrow>
     deploy_steps rx lib d (map (Moved k) fs)
       (set_replica k ((dp_replicas d k)\<lparr>rp_process := s', rp_past := rp_past (dp_replicas d k) @ fs\<rparr>) d)"
proof (induction arbitrary: d rule: conc_steps.induct)
  case (No_step s)
  then have "(dp_replicas d k)\<lparr>rp_process := s, rp_past := rp_past (dp_replicas d k) @ []\<rparr> = dp_replicas d k" by simp
  then show ?case by (simp add: deploy_steps.intros)
next
  case (First_step s e s1 fs s2)
  let ?d = "set_replica k (advance e s1 (dp_replicas d k)) d"
  have "deploy_step rx lib d (Moved k e) ?d"
    by (rule Move [OF refl]) (use First_step in simp_all)
  moreover have "deploy_steps rx lib ?d (map (Moved k) fs)
      (set_replica k ((dp_replicas ?d k)\<lparr>rp_process := s2, rp_past := rp_past (dp_replicas ?d k) @ fs\<rparr>) ?d)"
    by (rule First_step.IH) (use First_step.prems in simp_all)
  ultimately show ?case
    by (simp add: First_deploy_step advance_def)
qed

lemma conc_steps_lastD:
  "conc_steps rx lib s (fs @ [e]) s' \<Longrightarrow> \<exists>s1. conc_steps rx lib s fs s1 \<and> conc_step rx lib s1 e s'"
proof (induction fs arbitrary: s)
  case Nil
  then show ?case by (auto elim: conc_steps.cases intro: No_step)
next
  case (Cons f fs)
  then obtain s1 where "conc_step rx lib s f s1" "conc_steps rx lib s1 (fs @ [e]) s'"
    by (auto elim: conc_steps.cases)
  with Cons.IH [of s1] show ?case by (auto intro: First_step)
qed

lemma replica_finishes_entry:
  assumes run: "deploy_run rx lib des d" and n: "positioned (dp_stream d) n (dp_replicas d k)"
    and busy: "rp_entry (dp_replicas d k) = Some e"
  shows "\<exists>fs d'. deploy_steps rx lib d fs d' \<and> length fs \<le> 6 \<and> (\<forall>f \<in> set fs. subscriber_of k f)
    \<and> beside k d d' \<and> positioned (dp_stream d) (Suc n) (dp_replicas d' k) \<and> rp_entry (dp_replicas d' k) = None"
proof -
  let ?r = "dp_replicas d k"
  have conc: "conc_run rx lib (rp_past ?r) (rp_process ?r)" using replica_at_position [OF run] by blast
  have "cc_entry (rp_process ?r) = Some (snd e)" using n busy by (simp add: positioned_def)
  from subscriber_finishes_path [OF conc this] obtain j s' where j: "j \<le> 5"
      "conc_steps rx lib (rp_process ?r) (replicate j SubscriberMoved @ [EntryApplied (snd e)]) s'"
      "cc_rpcs s' = cc_rpcs (rp_process ?r)" by blast
  then obtain s1 where s1: "conc_steps rx lib (rp_process ?r) (replicate j SubscriberMoved) s1"
      "conc_step rx lib s1 (EntryApplied (snd e)) s'" using conc_steps_lastD by (metis append_assoc)
  let ?r1 = "?r\<lparr>rp_process := s1, rp_past := rp_past ?r @ replicate j SubscriberMoved\<rparr>"
  let ?d1 = "set_replica k ?r1 d"
  have d1: "deploy_steps rx lib d (map (Moved k) (replicate j SubscriberMoved)) ?d1"
    by (rule moves_lift [OF s1(1)]) simp_all
  have "entries_applied (xs @ replicate j SubscriberMoved) = entries_applied xs"
    "entries_read (xs @ replicate j SubscriberMoved) = entries_read xs" for xs
    by (induction j) (simp_all add: entries_applied_def entries_read_def)
  moreover have "cc_entry s1 = Some (snd e)" using s1(2) by (cases rule: conc_step.cases) simp_all
  ultimately have "positioned (dp_stream d) n ?r1" using n busy by (simp add: positioned_def)
  moreover have "rp_entry ?r1 = Some e" "rp_process ?r1 = s1" using busy by simp_all
  ultimately have "positioned (dp_stream d) (Suc n)
      ((advance (EntryApplied (snd e)) s' ?r1)\<lparr>rp_entry := None, rp_lastID := fst e\<rparr>)"
    using positioned_applied [of "dp_stream d" n ?r1 e rx lib s'] s1(2) by simp
  moreover have "deploy_step rx lib ?d1 (AppliedNext k e)
      (set_replica k ((advance (EntryApplied (snd e)) s' ?r1)\<lparr>rp_entry := None, rp_lastID := fst e\<rparr>) ?d1)"
    by (rule Applied_next) (use busy s1(2) in simp_all)
  from deploy_steps_trans [OF d1 First_deploy_step [OF this No_deploy_step]]
  have "deploy_steps rx lib d (map (Moved k) (replicate j SubscriberMoved) @ [AppliedNext k e])
      (set_replica k ((advance (EntryApplied (snd e)) s' ?r1)\<lparr>rp_entry := None, rp_lastID := fst e\<rparr>) d)" by simp
  ultimately show ?thesis
    using j(1,3) by (intro exI conjI) (assumption, auto simp: beside_def)
qed

lemma replica_reads_entry:
  assumes run: "deploy_run rx lib des d" and n: "positioned (dp_stream d) n (dp_replicas d k)"
    and idle: "rp_entry (dp_replicas d k) = None" and more: "n < length (dp_stream d)"
  shows "\<exists>fs d'. deploy_steps rx lib d fs d' \<and> length fs \<le> 7 \<and> (\<forall>f \<in> set fs. subscriber_of k f)
    \<and> beside k d d' \<and> positioned (dp_stream d) (Suc n) (dp_replicas d' k) \<and> rp_entry (dp_replicas d' k) = None"
proof -
  let ?r = "dp_replicas d k" and ?e = "dp_stream d ! n"
  have es: "stream_ok (dp_stream d)" using deploy_run_ok [OF run] by (simp add: deployment_ok_def)
  have "xread_after (rp_lastID ?r) (dp_stream d) = drop n (dp_stream d)"
    using xread_after_position [OF es, of n] n by (simp add: positioned_def)
  then have read: "xread_after (rp_lastID ?r) (dp_stream d) = ?e # drop (Suc n) (dp_stream d)"
    using more by (simp add: Cons_nth_drop_Suc)
  have "cc_entry (rp_process ?r) = None" using n idle by (simp add: positioned_def)
  then obtain s where s: "conc_step rx lib (rp_process ?r) (EntryRead (snd ?e)) s" "cc_rpcs s = cc_rpcs (rp_process ?r)"
    using ReadEntry [of "rp_process ?r" rx lib "snd ?e"] by force
  let ?d1 = "set_replica k ((advance (EntryRead (snd ?e)) s ?r)\<lparr>rp_entry := Some ?e\<rparr>) d"
  have step: "deploy_step rx lib d (ReadNext k ?e) ?d1" by (rule Read_next [OF refl idle read s(1)])
  have "positioned (dp_stream ?d1) n (dp_replicas ?d1 k)"
    using positioned_read [OF n es idle read s(1)] by simp
  from replica_finishes_entry [OF Deploy_step [OF run step] this] obtain fs d' where
      "deploy_steps rx lib ?d1 fs d'" "length fs \<le> 6" "\<forall>f \<in> set fs. subscriber_of k f" "beside k ?d1 d'"
      "positioned (dp_stream d) (Suc n) (dp_replicas d' k)" "rp_entry (dp_replicas d' k) = None"
    by auto
  moreover have "beside k d ?d1" using s(2) by (simp add: beside_def)
  ultimately show ?thesis
    using First_deploy_step [OF step] beside_trans
    by (intro exI [of _ "ReadNext k ?e # fs"] exI [of _ d'] conjI) auto
qed

text \<open>Entry by entry, its subscriber alone brings an idle replica to any later position.\<close>

lemma idle_replica_reaches:
  assumes "deploy_run rx lib des d" "positioned (dp_stream d) n (dp_replicas d k)" "rp_entry (dp_replicas d k) = None"
    and "n \<le> p" "p \<le> length (dp_stream d)"
  shows "\<exists>fs d'. deploy_steps rx lib d fs d' \<and> length fs \<le> 7 * (p - n)
    \<and> (\<forall>f \<in> set fs. subscriber_of k f) \<and> beside k d d'
    \<and> positioned (dp_stream d) p (dp_replicas d' k) \<and> rp_entry (dp_replicas d' k) = None"
  using assms
proof (induction "p - n" arbitrary: des d n)
  case 0
  then have "n = p" by simp
  with 0 show ?case by (intro exI [of _ "[]"] exI [of _ d]) (simp add: No_deploy_step)
next
  case (Suc m)
  then have more: "n < p" "n < length (dp_stream d)" by simp_all
  obtain fs d1 where one: "deploy_steps rx lib d fs d1" "length fs \<le> 7" "\<forall>f \<in> set fs. subscriber_of k f"
      "beside k d d1" "positioned (dp_stream d) (Suc n) (dp_replicas d1 k)" "rp_entry (dp_replicas d1 k) = None"
    using replica_reads_entry [OF Suc.prems(1-3) more(2)] by blast
  have stream: "dp_stream d1 = dp_stream d" using one(4) by (simp add: beside_def)
  have "m = p - Suc n" using Suc.hyps(2) by simp
  from Suc.hyps(1) [OF this deploy_run_steps [OF one(1) Suc.prems(1)]] one(5,6) more(1) Suc.prems(5)
  obtain gs d2 where rest: "deploy_steps rx lib d1 gs d2" "length gs \<le> 7 * (p - Suc n)"
      "\<forall>f \<in> set gs. subscriber_of k f" "beside k d1 d2"
      "positioned (dp_stream d) p (dp_replicas d2 k)" "rp_entry (dp_replicas d2 k) = None"
    unfolding stream by auto
  have "length (fs @ gs) \<le> 7 * (p - n)" using one(2) rest(2) more by simp
  then show ?case
    using deploy_steps_trans [OF one(1) rest(1)] one(3) rest(3,5,6) beside_trans [OF one(4) rest(4)]
    by (intro exI [of _ "fs @ gs"] exI [of _ d2] conjI) auto
qed

lemma idle_replica_catches_up:
  assumes "deploy_run rx lib des d" "positioned (dp_stream d) n (dp_replicas d k)" "rp_entry (dp_replicas d k) = None"
  shows "\<exists>fs d'. deploy_steps rx lib d fs d' \<and> length fs \<le> 7 * (length (dp_stream d) - n)
    \<and> (\<forall>f \<in> set fs. subscriber_of k f) \<and> beside k d d'
    \<and> positioned (dp_stream d) (length (dp_stream d)) (dp_replicas d' k) \<and> rp_entry (dp_replicas d' k) = None"
  by (rule idle_replica_reaches [OF assms]) (use assms(2) in \<open>auto simp: positioned_def\<close>)

text \<open>
  C17: every replica can catch up.  From any reachable state of the deployment, for a replica
  at any position, a fresh or restarted one at the beginning included, its subscriber alone
  comes to the end of the stream within seven steps for every entry that is left, while the
  stream, the other replicas and the calls in progress stay as they are.
\<close>

theorem replica_catches_up:
  assumes "deploy_run rx lib des d" "positioned (dp_stream d) n (dp_replicas d k)"
  shows "\<exists>fs d'. deploy_steps rx lib d fs d' \<and> length fs \<le> 7 * (length (dp_stream d) - n)
    \<and> (\<forall>f \<in> set fs. subscriber_of k f) \<and> beside k d d'
    \<and> entries_applied (rp_past (dp_replicas d' k)) = map snd (dp_stream d)
    \<and> rp_entry (dp_replicas d' k) = None"
proof (cases "rp_entry (dp_replicas d k)")
  case None
  from idle_replica_catches_up [OF assms None] show ?thesis by (fastforce simp: positioned_def)
next
  case (Some e)
  then have more: "n < length (dp_stream d)" using assms(2) by (simp add: positioned_def)
  obtain fs d1 where one: "deploy_steps rx lib d fs d1" "length fs \<le> 6" "\<forall>f \<in> set fs. subscriber_of k f"
      "beside k d d1" "positioned (dp_stream d) (Suc n) (dp_replicas d1 k)" "rp_entry (dp_replicas d1 k) = None"
    using replica_finishes_entry [OF assms Some] by blast
  have stream: "dp_stream d1 = dp_stream d" using one(4) by (simp add: beside_def)
  obtain gs d2 where rest: "deploy_steps rx lib d1 gs d2" "length gs \<le> 7 * (length (dp_stream d) - Suc n)"
      "\<forall>f \<in> set gs. subscriber_of k f" "beside k d1 d2"
      "positioned (dp_stream d) (length (dp_stream d)) (dp_replicas d2 k)" "rp_entry (dp_replicas d2 k) = None"
    using idle_replica_catches_up [OF deploy_run_steps [OF one(1) assms(1)], of "Suc n" k] one(5,6) stream by auto
  have "length (fs @ gs) \<le> 7 * (length (dp_stream d) - n)" using one(2) rest(2) more by simp
  moreover have "entries_applied (rp_past (dp_replicas d2 k)) = map snd (dp_stream d)"
    using rest(5) by (simp add: positioned_def)
  ultimately show ?thesis
    using deploy_steps_trans [OF one(1) rest(1)] one(3) rest(3,6) beside_trans [OF one(4) rest(4)]
    by (intro exI [of _ "fs @ gs"] exI [of _ d2] conjI) auto
qed

subsection \<open>A call beside a resting subscriber\<close>

text \<open>A call that comes in at an idle slot is answered by five steps of its own.\<close>

lemma call_runs:
  assumes run: "deploy_run rx lib des d" and idle: "cc_rpcs (rp_process (dp_replicas d k)) i = Idle"
  shows "\<exists>fs d1 resp d2. deploy_steps rx lib d fs d1
    \<and> deploy_step rx lib d1 (Moved k (Answered i req resp)) d2 \<and> dp_stream d1 = dp_stream d
    \<and> (\<forall>f \<in> set fs. \<exists>e. f = Moved k e \<and> \<not> entry_event e)
    \<and> before_call i (rp_past (dp_replicas d1 k)) = rp_past (dp_replicas d k)
    \<and> entries_read (rp_past (dp_replicas d1 k)) = entries_read (rp_past (dp_replicas d k))"
proof -
  let ?r = "dp_replicas d k" and ?call = "[Received i req, Loaded i, Loaded i]"
  have conc: "conc_run rx lib (rp_past ?r) (rp_process ?r)" using replica_at_position [OF run] by blast
  obtain resp s' where path: "conc_steps rx lib (rp_process ?r)
      ((?call @ [Evaluated i req resp]) @ [Answered i req resp]) s'"
    using call_alone_path [OF conc idle, of req] by auto
  then obtain s1 where s1: "conc_steps rx lib (rp_process ?r) (?call @ [Evaluated i req resp]) s1"
      "conc_step rx lib s1 (Answered i req resp) s'" using conc_steps_lastD by blast
  let ?r1 = "?r\<lparr>rp_process := s1, rp_past := rp_past ?r @ ?call @ [Evaluated i req resp]\<rparr>"
  let ?d1 = "set_replica k ?r1 d"
  have "deploy_steps rx lib d (map (Moved k) (?call @ [Evaluated i req resp])) ?d1"
    by (rule moves_lift [OF s1(1)]) simp_all
  moreover have "deploy_step rx lib ?d1 (Moved k (Answered i req resp))
      (set_replica k (advance (Answered i req resp) s' ?r1) ?d1)"
    by (rule Move) (use s1(2) in simp_all)
  moreover have "before_call i (rp_past ?r @ Received i req # [Loaded i, Loaded i, Evaluated i req resp]) = rp_past ?r"
    by (rule before_call_received) simp
  moreover have "entries_read (rp_past ?r @ ?call @ [Evaluated i req resp]) = entries_read (rp_past ?r)"
    by (simp add: entries_read_def)
  ultimately show ?thesis by (intro exI conjI) (assumption, assumption, simp_all)
qed

lemma call_answered:
  assumes run: "deploy_run rx lib des d" and idle: "cc_rpcs (rp_process (dp_replicas d k)) i = Idle"
    and applied: "entries_applied (rp_past (dp_replicas d k)) = map snd (dp_stream d)"
  shows "\<exists>des' d1 resp d2. deploy_run rx lib des' d1 \<and> deploy_step rx lib d1 (Moved k (Answered i req resp)) d2
    \<and> dp_stream d1 = dp_stream d \<and> call_caught_up d1 k i"
proof -
  obtain fs d1 resp d2 where call: "deploy_steps rx lib d fs d1"
      "deploy_step rx lib d1 (Moved k (Answered i req resp)) d2" "dp_stream d1 = dp_stream d"
      "before_call i (rp_past (dp_replicas d1 k)) = rp_past (dp_replicas d k)"
    using call_runs [OF run idle, of req] by blast
  then have "call_caught_up d1 k i" using applied by (simp add: call_caught_up_def)
  with call deploy_run_steps [OF call(1) run] show ?thesis by blast
qed

text \<open>A call that comes to an idle replica is decided by the position that the replica is at.\<close>

lemma call_decided_at_position:
  assumes run: "deploy_run rx lib des d" and slot: "cc_rpcs (rp_process (dp_replicas d k)) i = Idle"
    and n: "positioned (dp_stream d) n (dp_replicas d k)" and idle: "rp_entry (dp_replicas d k) = None"
  shows "\<exists>fs d1 resp d2. deploy_steps rx lib d fs d1
    \<and> deploy_step rx lib d1 (Moved k (Answered i req resp)) d2 \<and> dp_stream d1 = dp_stream d
    \<and> (\<forall>f \<in> set fs. \<exists>e. f = Moved k e \<and> \<not> entry_event e)
    \<and> (crs_Allowed resp \<longleftrightarrow> authorized rx (table_of (stream_updates rx (take n (dp_stream d)))) (eval_request req))"
proof -
  obtain fs d1 resp d2 where call: "deploy_steps rx lib d fs d1"
      "deploy_step rx lib d1 (Moved k (Answered i req resp)) d2" "dp_stream d1 = dp_stream d"
      "\<forall>f \<in> set fs. \<exists>e. f = Moved k e \<and> \<not> entry_event e"
      "before_call i (rp_past (dp_replicas d1 k)) = rp_past (dp_replicas d k)"
      "entries_read (rp_past (dp_replicas d1 k)) = entries_read (rp_past (dp_replicas d k))"
    using call_runs [OF run slot, of req] by blast
  obtain n' m where nm: "n' \<le> m" "m \<le> length (dp_stream d)"
      "entries_applied (rp_past (dp_replicas d k)) = map snd (take n' (dp_stream d))"
      "entries_read (rp_past (dp_replicas d k)) = map snd (take m (dp_stream d))"
      "overlap_safe rx (stream_updates rx (take n' (dp_stream d))) (stream_updates rx (take m (dp_stream d)))
        (crs_Allowed resp) (eval_request req)"
    using answered_at [OF deploy_run_steps [OF call(1) run] call(2)] unfolding call(3,5,6) by blast
  have "map snd (take n' (dp_stream d)) = map snd (take n (dp_stream d))"
    "map snd (take m (dp_stream d)) = map snd (take n (dp_stream d))" "n \<le> length (dp_stream d)"
    using n idle nm(3,4) by (auto simp: positioned_def)
  from this(3) this(1,2) [THEN arg_cong [of _ _ length]] nm(1,2) have "n' = n" "m = n" by simp_all
  with nm(5) have "crs_Allowed resp
      \<longleftrightarrow> authorized rx (table_of (stream_updates rx (take n (dp_stream d)))) (eval_request req)"
    by (simp add: overlap_safe_def)
  with call(1-4) show ?thesis by blast
qed

subsection \<open>A restarted replica\<close>

text \<open>The steps of one replica: of its subscriber and of the calls it serves.\<close>

definition step_of_replica :: "nat \<Rightarrow> deploy_event \<Rightarrow> bool" where
  "step_of_replica k f \<longleftrightarrow> subscriber_of k f \<or> (\<exists>e. f = Moved k e)"

text \<open>
  The decisions of a restarted replica range over the whole stream.  The server accepts
  calls as soon as the process is up, while the subscriber replays the stream beside it.  So in
  any reachable state of the deployment, for every position of the stream, the next restart of
  a replica can be followed by steps of that replica alone after which it answers a call by the
  policies that were in force at that position, whatever it had applied before the restart.
\<close>

theorem restart_answers_by_any_prefix:
  fixes b :: "('r, 'c, 'f) bouncer" and d :: "('r, 'c, 'f) deployment"
  assumes "main_setup lib = Some b" "deploy_run rx lib des d" "n \<le> length (dp_stream d)"
  shows "\<exists>fs d1 resp d2. deploy_steps rx lib d (Restarted k # fs) d1
    \<and> deploy_step rx lib d1 (Moved k (Answered i req resp)) d2
    \<and> (\<forall>f \<in> set fs. step_of_replica k f) \<and> dp_stream d1 = dp_stream d
    \<and> (crs_Allowed resp \<longleftrightarrow> authorized rx (table_of (stream_updates rx (take n (dp_stream d)))) (eval_request req))"
proof -
  let ?d0 = "set_replica k (boot_replica b) d"
  have restart: "deploy_step rx lib d (Restarted k) ?d0" by (rule Restart [OF assms(1)])
  note run0 = Deploy_step [OF assms(2) restart]
  have "positioned (dp_stream ?d0) 0 (dp_replicas ?d0 k)" "rp_entry (dp_replicas ?d0 k) = None"
    by (simp_all add: positioned_boot) (simp add: boot_replica_def)
  from idle_replica_reaches [OF run0 this, of n] assms(3) obtain fs d1 where
      reach: "deploy_steps rx lib ?d0 fs d1" "\<forall>f \<in> set fs. subscriber_of k f" "beside k ?d0 d1"
      "positioned (dp_stream d) n (dp_replicas d1 k)" "rp_entry (dp_replicas d1 k) = None" by auto
  have d1: "dp_stream d1 = dp_stream d" "cc_rpcs (rp_process (dp_replicas d1 k)) i = Idle"
    using reach(3) by (simp_all add: beside_def boot_replica_def conc_boot_def)
  from call_decided_at_position [OF deploy_run_steps [OF reach(1) run0] d1(2), of n req] reach(4,5)
  obtain gs d2 resp d3 where call: "deploy_steps rx lib d1 gs d2"
      "deploy_step rx lib d2 (Moved k (Answered i req resp)) d3" "dp_stream d2 = dp_stream d"
      "\<forall>f \<in> set gs. \<exists>e. f = Moved k e \<and> \<not> entry_event e"
      "crs_Allowed resp \<longleftrightarrow> authorized rx (table_of (stream_updates rx (take n (dp_stream d)))) (eval_request req)"
    unfolding d1(1) by blast
  from First_deploy_step [OF restart deploy_steps_trans [OF reach(1) call(1)]] call(2,3,5) reach(2) call(4)
  show ?thesis
    by (intro exI [of _ "fs @ gs"] exI [of _ d2] exI [of _ resp] exI [of _ d3]) (auto simp: step_of_replica_def)
qed

subsection \<open>Witnesses\<close>

text \<open>One entry is appended, a replica is restarted, catches up and answers a call.\<close>

definition sample_deployment :: "(string, string, int \<times> int) deployment" where
  "sample_deployment = \<lparr>dp_stream = [(''1-0'', sample_entry)], dp_replicas = (\<lambda>_. boot_replica sample_boot)\<rparr>"

lemma sample_deployment_run:
  "deploy_run literal_regexp sample_prom [Appended (''1-0'', sample_entry), Restarted 3] sample_deployment"
proof -
  have "deploy_run literal_regexp sample_prom ([] @ [Appended (''1-0'', sample_entry)])
      (\<lparr>dp_stream = [], dp_replicas = (\<lambda>_. boot_replica sample_boot)\<rparr>\<lparr>dp_stream := [] @ [(''1-0'', sample_entry)]\<rparr>)"
    by (rule Deploy_step [OF Deploy [OF sample_main_setup]])
       (use Append [of "(''1-0'', sample_entry)" "\<lparr>dp_stream = [], dp_replicas = \<lambda>_. boot_replica sample_boot\<rparr>"]
         in \<open>simp add: set_replica_def\<close>)
  from Deploy_step [OF this Restart [OF sample_main_setup, of _ _ 3]]
  show ?thesis by (simp add: sample_deployment_def set_replica_def fun_upd_def)
qed

lemma sample_positioned: "positioned (dp_stream sample_deployment) 0 (dp_replicas sample_deployment k)"
  by (simp add: sample_deployment_def positioned_boot)

theorem replica_catches_up_witness:
  "\<exists>fs d. deploy_steps literal_regexp sample_prom sample_deployment fs d \<and> length fs \<le> 7
     \<and> entries_applied (rp_past (dp_replicas d 3)) = [sample_entry]"
  using replica_catches_up [OF sample_deployment_run sample_positioned, of 3]
  by (auto simp: sample_deployment_def)

theorem replica_follows_stream_witness:
  "rp_lastID (dp_replicas sample_deployment 3) = last_id (take 0 (dp_stream sample_deployment))
   \<and> (\<exists>n \<le> 1. entries_applied (rp_past (dp_replicas sample_deployment 3)) = map snd (take n (dp_stream sample_deployment)))"
  using replica_follows_stream [OF sample_deployment_run, of 3]
  by (auto simp: sample_deployment_def boot_replica_def last_id_def)

lemma booted_call_answered:
  assumes "deploy_run rx lib des d" "dp_replicas d k = boot_replica b"
  shows "\<exists>des' d1 resp d2. deploy_run rx lib des' d1 \<and> deploy_step rx lib d1 (Moved k (Answered i req resp)) d2
    \<and> dp_stream d1 = dp_stream d \<and> call_caught_up d1 k i"
proof -
  have "positioned (dp_stream d) 0 (dp_replicas d k)" "rp_entry (dp_replicas d k) = None"
    by (simp_all add: assms(2) positioned_boot) (simp add: boot_replica_def)
  from idle_replica_catches_up [OF assms(1) this] obtain fs d0 where
      d0: "deploy_steps rx lib d fs d0" "beside k d d0"
      "positioned (dp_stream d) (length (dp_stream d)) (dp_replicas d0 k)" by blast
  then have "dp_stream d0 = dp_stream d" by (simp add: beside_def)
  moreover have "cc_rpcs (rp_process (dp_replicas d0 k)) i = Idle"
    using d0(2) by (simp add: beside_def assms(2)) (simp add: boot_replica_def conc_boot_def)
  moreover have "entries_applied (rp_past (dp_replicas d0 k)) = map snd (dp_stream d)"
    using d0(3) by (simp add: positioned_def)
  ultimately show ?thesis
    using call_answered [OF deploy_run_steps [OF d0(1) assms(1)], of k i req] by simp
qed

text \<open>Any entries can be put on the stream.\<close>

lemma stream_of_entries:
  assumes "main_setup lib = Some b"
  shows "\<exists>des d. deploy_run rx lib des d \<and> map snd (dp_stream d) = vss \<and> dp_replicas d = (\<lambda>_. boot_replica b)"
proof (induction vss rule: rev_induct)
  case Nil
  show ?case by (rule exI [of _ "[]"], rule exI, rule conjI, rule Deploy [OF assms]) simp
next
  case (snoc vs vss)
  then obtain des d where d: "deploy_run rx lib des d" "map snd (dp_stream d) = vss" "dp_replicas d = (\<lambda>_. boot_replica b)"
    by blast
  have "infinite (UNIV :: string set)" by (rule infinite_UNIV_listI)
  then obtain i where "i \<notin> insert ''0'' (fst ` set (dp_stream d))"
    using ex_new_if_finite [of "insert ''0'' (fst ` set (dp_stream d))"] by auto
  then have "deploy_step rx lib d (Appended (i, vs)) (d\<lparr>dp_stream := dp_stream d @ [(i, vs)]\<rparr>)"
    by (intro Append) simp_all
  from Deploy_step [OF d(1) this] d(2,3) show ?case
    by (intro exI [of _ "des @ [Appended (i, vs)]"] exI [of _ "d\<lparr>dp_stream := dp_stream d @ [(i, vs)]\<rparr>"]) simp
qed

lemma sample_call_answered:
  "\<exists>des d1 resp d2. deploy_run literal_regexp sample_prom des d1
     \<and> deploy_step literal_regexp sample_prom d1 (Moved k (Answered 0 (sample_call ''admin'') resp)) d2
     \<and> dp_stream d1 = [(''1-0'', sample_entry)] \<and> call_caught_up d1 k 0"
  using booted_call_answered [OF sample_deployment_run, of k sample_boot 0 "sample_call ''admin''"]
  by (simp add: sample_deployment_def)

lemma sample_stream_authorized:
  "authorized literal_regexp (table_of (stream_updates literal_regexp [(''1-0'', sample_entry)])) (sample_request ''admin'')"
  using sample_authorized
  by (simp add: run_table_def table_of_def event_updates_def sample_entry_updates stream_updates_def)

theorem caught_up_replicas_agree_witness:
  "\<exists>des d1 resp d2 des' d1' resp' d2'. deploy_run literal_regexp sample_prom des d1
     \<and> deploy_step literal_regexp sample_prom d1 (Moved 1 (Answered 0 (sample_call ''admin'') resp)) d2
     \<and> deploy_run literal_regexp sample_prom des' d1'
     \<and> deploy_step literal_regexp sample_prom d1' (Moved 3 (Answered 0 (sample_call ''admin'') resp')) d2'
     \<and> crs_Allowed resp \<and> crs_Allowed resp'"
proof -
  obtain des d1 resp d2 where one: "deploy_run literal_regexp sample_prom des d1"
      "deploy_step literal_regexp sample_prom d1 (Moved 1 (Answered 0 (sample_call ''admin'') resp)) d2"
      "dp_stream d1 = [(''1-0'', sample_entry)]" "call_caught_up d1 1 0"
    using sample_call_answered by blast
  obtain des' d1' resp' d2' where two: "deploy_run literal_regexp sample_prom des' d1'"
      "deploy_step literal_regexp sample_prom d1' (Moved 3 (Answered 0 (sample_call ''admin'') resp')) d2'"
      "dp_stream d1' = [(''1-0'', sample_entry)]" "call_caught_up d1' 3 0"
    using sample_call_answered by blast
  have "dp_stream d1' = dp_stream d1" using one(3) two(3) by simp
  from caught_up_replicas_agree [OF one(1,2) two(1,2) this one(4) two(4)]
  have "crs_Allowed resp \<and> crs_Allowed resp'" using sample_stream_authorized one(3) by (auto simp: eval_sample_call)
  with one two show ?thesis by blast
qed

theorem replica_decides_witness:
  "\<exists>des d1 resp d2. deploy_run literal_regexp sample_prom des d1
     \<and> deploy_step literal_regexp sample_prom d1 (Moved 1 (Answered 0 (sample_call ''admin'') resp)) d2
     \<and> crs_Allowed resp"
proof -
  obtain des d1 resp d2 where one: "deploy_run literal_regexp sample_prom des d1"
      "deploy_step literal_regexp sample_prom d1 (Moved 1 (Answered 0 (sample_call ''admin'') resp)) d2"
      "dp_stream d1 = [(''1-0'', sample_entry)]" "call_caught_up d1 1 0"
    using sample_call_answered by blast
  obtain n m where nm: "n \<le> m" "m \<le> length (dp_stream d1)"
      "entries_applied (before_call 0 (rp_past (dp_replicas d1 1))) = map snd (take n (dp_stream d1))"
      "overlap_safe literal_regexp (stream_updates literal_regexp (take n (dp_stream d1)))
        (stream_updates literal_regexp (take m (dp_stream d1))) (crs_Allowed resp) (eval_request (sample_call ''admin''))"
    using replica_decides [OF one(1,2)] by blast
  have "length (map snd (take n (dp_stream d1))) = length (map snd (dp_stream d1))"
    using nm(3) one(4) by (simp add: call_caught_up_def)
  then have "n = 1" "m = 1" using nm(1,2) one(3) by simp_all
  then have "crs_Allowed resp" using nm(4) sample_stream_authorized one(3)
    by (simp add: overlap_safe_def eval_sample_call)
  with one show ?thesis by blast
qed

theorem restart_answers_by_any_prefix_witness:
  "\<exists>fs d1 resp d2. deploy_steps literal_regexp sample_prom sample_deployment (Restarted 3 # fs) d1
     \<and> deploy_step literal_regexp sample_prom d1 (Moved 3 (Answered 0 (sample_call ''admin'') resp)) d2
     \<and> crs_Allowed resp"
proof -
  have "1 \<le> length (dp_stream sample_deployment)" by (simp add: sample_deployment_def)
  moreover have "authorized literal_regexp (table_of (stream_updates literal_regexp
      (take 1 (dp_stream sample_deployment)))) (eval_request (sample_call ''admin''))"
    using sample_stream_authorized by (simp add: sample_deployment_def eval_sample_call)
  ultimately show ?thesis
    using restart_answers_by_any_prefix [OF sample_main_setup sample_deployment_run, of 1 3 0 "sample_call ''admin''"]
    by blast
qed

end
