(* ===== verification/Go_Base64.thy ===== *)
theory Go_Base64
  imports Bouncer_Prelude
begin

text \<open>
  The URL-safe base64 decoders of the Go library, \<open>base64.RawURLEncoding\<close> and
  \<open>base64.URLEncoding\<close>: line breaks are skipped anywhere, trailing bits are not checked, the
  padded variant demands its padding and the raw one rejects it.  The encoder is the printer
  that both invert.
\<close>

definition sextet_val :: "char \<Rightarrow> nat option" where
  "sextet_val c =
     (let n = of_char c :: nat
      in if 65 \<le> n \<and> n \<le> 90 then Some (n - 65)
         else if 97 \<le> n \<and> n \<le> 122 then Some (n - 71)
         else if 48 \<le> n \<and> n \<le> 57 then Some (n + 4)
         else if n = 45 then Some 62
         else if n = 95 then Some 63
         else None)"

definition byte1 :: "nat \<Rightarrow> nat \<Rightarrow> char" where "byte1 a b = char_of (a * 4 + b div 16)"
definition byte2 :: "nat \<Rightarrow> nat \<Rightarrow> char" where "byte2 b c = char_of (b mod 16 * 16 + c div 4)"
definition byte3 :: "nat \<Rightarrow> nat \<Rightarrow> char" where "byte3 c d = char_of (c mod 4 * 64 + d)"

abbreviation pad_char :: char where "pad_char \<equiv> CHR ''=''"

fun decode_quanta :: "bool \<Rightarrow> string \<Rightarrow> string option" where
  "decode_quanta padded [] = Some []"
| "decode_quanta padded [a] = None"
| "decode_quanta padded [a, b] =
     (if padded then None
      else (case (sextet_val a, sextet_val b) of
              (Some x, Some y) \<Rightarrow> Some [byte1 x y]
            | _ \<Rightarrow> None))"
| "decode_quanta padded [a, b, c] =
     (if padded then None
      else (case (sextet_val a, sextet_val b, sextet_val c) of
              (Some x, Some y, Some z) \<Rightarrow> Some [byte1 x y, byte2 y z]
            | _ \<Rightarrow> None))"
| "decode_quanta padded (a # b # c # d # rest) =
     (case (sextet_val a, sextet_val b) of
        (Some x, Some y) \<Rightarrow>
          if padded \<and> c = pad_char then
            (if d = pad_char \<and> rest = [] then Some [byte1 x y] else None)
          else
            (case sextet_val c of
               None \<Rightarrow> None
             | Some z \<Rightarrow>
                 if padded \<and> d = pad_char then
                   (if rest = [] then Some [byte1 x y, byte2 y z] else None)
                 else
                   (case sextet_val d of
                      None \<Rightarrow> None
                    | Some w \<Rightarrow>
                        map_option (\<lambda>bs. byte1 x y # byte2 y z # byte3 z w # bs)
                          (decode_quanta padded rest)))
      | _ \<Rightarrow> None)"

definition line_break :: "char \<Rightarrow> bool" where
  "line_break c \<longleftrightarrow> of_char c = (10 :: nat) \<or> of_char c = (13 :: nat)"

definition base64_DecodeString :: "bool \<Rightarrow> string \<Rightarrow> string option" where
  "base64_DecodeString padded s = decode_quanta padded (filter (\<lambda>c. \<not> line_break c) s)"

subsection \<open>The encoder and the round trip\<close>

definition sextet_char :: "nat \<Rightarrow> char" where
  "sextet_char n =
     char_of (if n < 26 then n + 65 else if n < 52 then n + 71 else if n < 62 then n - 4
              else if n = 62 then 45 else 95)"

fun base64_Encode :: "bool \<Rightarrow> string \<Rightarrow> string" where
  "base64_Encode padded [] = []"
| "base64_Encode padded [x] =
     (let a = of_char x :: nat
      in [sextet_char (a div 4), sextet_char (a mod 4 * 16)] @ (if padded then [pad_char, pad_char] else []))"
| "base64_Encode padded [x, y] =
     (let a = of_char x :: nat; b = of_char y :: nat
      in [sextet_char (a div 4), sextet_char (a mod 4 * 16 + b div 16), sextet_char (b mod 16 * 4)]
         @ (if padded then [pad_char] else []))"
| "base64_Encode padded (x # y # z # rest) =
     (let a = of_char x :: nat; b = of_char y :: nat; c = of_char z :: nat
      in sextet_char (a div 4) # sextet_char (a mod 4 * 16 + b div 16)
         # sextet_char (b mod 16 * 4 + c div 64) # sextet_char (c mod 64)
         # base64_Encode padded rest)"

lemma of_char_bound [simp]: "(of_char c :: nat) < 256"
  by (metis of_char_mod_256 mod_less_divisor zero_less_numeral)

lemma sextet_val_char [simp]: "n < 64 \<Longrightarrow> sextet_val (sextet_char n) = Some n"
  by (auto simp: sextet_val_def sextet_char_def of_char_of Let_def)

lemma sextet_char_pad [simp]: "n < 64 \<Longrightarrow> sextet_char n \<noteq> pad_char"
proof
  assume "n < 64" "sextet_char n = pad_char"
  then have "sextet_val pad_char = Some n" by (metis sextet_val_char)
  then show False by (simp add: sextet_val_def)
qed

lemma sextet_no_break: "sextet_val c \<noteq> None \<Longrightarrow> \<not> line_break c"
  by (auto simp: sextet_val_def line_break_def Let_def)

lemma sextet_char_break [simp]: "n < 64 \<Longrightarrow> \<not> line_break (sextet_char n)"
  using sextet_no_break sextet_val_char by (metis option.distinct(1))

lemma pad_no_break [simp]: "\<not> line_break pad_char"
  by (simp add: line_break_def)

lemma byte_div [simp]:
  "(of_char c :: nat) div 4 < 64" "(of_char c :: nat) div 16 < 16" "(of_char c :: nat) div 64 < 4"
  using of_char_bound [of c] by (simp_all add: less_mult_imp_div_less)

lemma two_digits: "(q :: nat) < k \<Longrightarrow> (p * k + q) div k = p" "(q :: nat) < k \<Longrightarrow> (p * k + q) mod k = q"
  by simp_all

lemma two_digits_bound: "(p :: nat) < j \<Longrightarrow> q < k \<Longrightarrow> p * k + q < j * k"
proof -
  assume "p < j" "q < k"
  then have "p * k + q < Suc p * k" by simp
  also have "\<dots> \<le> j * k" using \<open>p < j\<close> by (intro mult_le_mono1) simp
  finally show ?thesis .
qed

lemma sextet_bounds [simp]:
  "(of_char x :: nat) mod 4 * 16 < 64"
  "(of_char x :: nat) mod 4 * 16 + (of_char y :: nat) div 16 < 64"
  "(of_char y :: nat) mod 16 * 4 < 64"
  "(of_char y :: nat) mod 16 * 4 + (of_char z :: nat) div 64 < 64"
  using two_digits_bound [of "(of_char x :: nat) mod 4" 4 0 16]
    two_digits_bound [of "(of_char x :: nat) mod 4" 4 "(of_char y :: nat) div 16" 16]
    two_digits_bound [of "(of_char y :: nat) mod 16" 16 0 4]
    two_digits_bound [of "(of_char y :: nat) mod 16" 16 "(of_char z :: nat) div 64" 4]
  by simp_all

lemma byte_sextets [simp]:
  "byte1 ((of_char x :: nat) div 4) ((of_char x :: nat) mod 4 * 16) = x"
  "byte1 ((of_char x :: nat) div 4) ((of_char x :: nat) mod 4 * 16 + (of_char y :: nat) div 16) = x"
  "byte2 ((of_char x :: nat) mod 4 * 16 + (of_char y :: nat) div 16) ((of_char y :: nat) mod 16 * 4) = y"
  "byte2 ((of_char x :: nat) mod 4 * 16 + (of_char y :: nat) div 16)
     ((of_char y :: nat) mod 16 * 4 + (of_char z :: nat) div 64) = y"
  "byte3 ((of_char y :: nat) mod 16 * 4 + (of_char z :: nat) div 64) ((of_char z :: nat) mod 64) = z"
  by (simp_all only: byte1_def byte2_def byte3_def two_digits byte_div) simp_all

lemma decode_quanta_encode: "decode_quanta padded (base64_Encode padded bs) = Some bs"
proof (induction padded bs rule: base64_Encode.induct)
  case (4 padded x y z rest)
  then show ?case by (simp add: Let_def)
qed (simp_all add: Let_def)

lemma base64_Encode_no_break: "c \<in> set (base64_Encode padded bs) \<Longrightarrow> \<not> line_break c"
  by (induction padded bs rule: base64_Encode.induct) (auto simp: Let_def split: if_splits)

lemma base64_roundtrip: "base64_DecodeString padded (base64_Encode padded bs) = Some bs"
proof -
  have "filter (\<lambda>c. \<not> line_break c) (base64_Encode padded bs) = base64_Encode padded bs"
    by (simp add: filter_id_conv base64_Encode_no_break)
  then show ?thesis by (simp add: base64_DecodeString_def decode_quanta_encode)
qed

text \<open>The raw decoder accepts only alphabet characters, so it rejects padding.\<close>

lemma decode_raw_alphabet:
  "decode_quanta False s = Some bs \<Longrightarrow> c \<in> set s \<Longrightarrow> sextet_val c \<noteq> None"
  by (induction "False" s arbitrary: bs rule: decode_quanta.induct) (auto split: option.splits)

lemma pad_not_alphabet [simp]: "sextet_val pad_char = None"
  by (simp add: sextet_val_def)

lemma decode_raw_padded:
  assumes "pad_char \<in> set s"
  shows "base64_DecodeString False s = None"
proof (cases "base64_DecodeString False s")
  case (Some bs)
  moreover have "pad_char \<in> set (filter (\<lambda>c. \<not> line_break c) s)" using assms by simp
  ultimately show ?thesis
    using decode_raw_alphabet unfolding base64_DecodeString_def by (metis pad_not_alphabet)
qed

lemma base64_Encode_unpadded:
  "pad_char \<notin> set (base64_Encode True bs) \<Longrightarrow> base64_Encode True bs = base64_Encode False bs"
  by (induction "True" bs rule: base64_Encode.induct) (auto simp: Let_def)

text \<open>Trying the raw decoder first and the padded one second inverts both encoders.\<close>

lemma base64_either:
  "(case base64_DecodeString False (base64_Encode padded bs) of
      Some dec \<Rightarrow> Some dec
    | None \<Rightarrow> base64_DecodeString True (base64_Encode padded bs)) = Some bs"
proof (cases "padded \<and> pad_char \<in> set (base64_Encode padded bs)")
  case True
  then have "base64_Encode padded bs = base64_Encode True bs" "pad_char \<in> set (base64_Encode True bs)"
    by auto
  then show ?thesis by (simp add: decode_raw_padded base64_roundtrip)
next
  case False
  then have "base64_Encode padded bs = base64_Encode False bs"
    using base64_Encode_unpadded [of bs] by (cases padded) auto
  then show ?thesis by (simp add: base64_roundtrip)
qed

end
