(* ===== verification/Json_Encode.thy ===== *)
theory Json_Encode
  imports Json_Print "HOL-Library.List_Lexorder" "HOL-Library.Char_ord"
begin

text \<open>
  The JSON writer of the Go library as the enforcement points use it: \<open>json.Marshal\<close> and an
  indenting \<open>json.Encoder\<close> on a map from strings to booleans, strings and 64-bit integers, with
  the keys sorted and the strings escaped for HTML.  The writer replaces ill-formed UTF-8; the
  reader of \<open>Go_Json\<close> gets back the values with that replacement, for every string of bytes.
\<close>

datatype body_value = BodyBool bool | BodyString string | BodyInt int

subsection \<open>Writing\<close>

text \<open>One byte below 128 inside a string literal.\<close>

definition go_escape_byte :: "char \<Rightarrow> string" where
  "go_escape_byte c =
     (let n = (of_char c :: nat) in
      if c = CHR 0x22 \<or> c = CHR 0x5C then [CHR 0x5C, c]
      else if n = 8 then [CHR 0x5C, CHR ''b'']
      else if n = 12 then [CHR 0x5C, CHR ''f'']
      else if n = 10 then [CHR 0x5C, CHR ''n'']
      else if n = 13 then [CHR 0x5C, CHR ''r'']
      else if n = 9 then [CHR 0x5C, CHR ''t'']
      else if n < 32 \<or> c = CHR ''<'' \<or> c = CHR ''>'' \<or> c = CHR ''&'' then
        [CHR 0x5C, CHR ''u'', CHR ''0'', CHR ''0'', hex_char (n div 16), hex_char (n mod 16)]
      else [c])"

definition escape_bad :: string where
  "escape_bad = CHR 0x5C # ''ufffd''"

text \<open>The line and paragraph separators U+2028 and U+2029.\<close>

definition separator_rune :: "string \<Rightarrow> nat option" where
  "separator_rune r =
     (if r = [CHR 0xE2, CHR 0x80, CHR 0xA8] then Some 8
      else if r = [CHR 0xE2, CHR 0x80, CHR 0xA9] then Some 9 else None)"

definition go_escape_rune :: "string \<Rightarrow> string" where
  "go_escape_rune r =
     (case separator_rune r of
        Some d \<Rightarrow> CHR 0x5C # ''u202'' @ [hex_char d]
      | None \<Rightarrow> r)"

function go_escape :: "string \<Rightarrow> string" where
  "go_escape s =
     (case s of
        [] \<Rightarrow> []
      | c # cs \<Rightarrow>
          if of_char c < (128 :: nat) then go_escape_byte c @ go_escape cs
          else if utf8_len s = 0 then escape_bad @ go_escape cs
          else go_escape_rune (take (utf8_len s) s) @ go_escape (drop (utf8_len s) s))"
  by pat_completeness auto
termination
  by (relation "measure length") auto

declare go_escape.simps [simp del]

definition go_quote :: "string \<Rightarrow> string" where
  "go_quote s = CHR 0x22 # go_escape s @ [CHR 0x22]"

fun encode_value :: "body_value \<Rightarrow> string" where
  "encode_value (BodyBool b) = (if b then ''true'' else ''false'')"
| "encode_value (BodyString s) = go_quote s"
| "encode_value (BodyInt i) = Itoa i"

definition sorted_members :: "(string, body_value) gomap \<Rightarrow> (string \<times> body_value) list" where
  "sorted_members m = sort_key fst m"

text \<open>The members of an object between its braces, with the spaces of the two layouts.\<close>

definition encode_members ::
  "string \<Rightarrow> string \<Rightarrow> string \<Rightarrow> string \<Rightarrow> (string, body_value) gomap \<Rightarrow> string" where
  "encode_members pre colon sep post m =
     (if m = [] then [CHR 0x7B, CHR 0x7D]
      else CHR 0x7B # pre
             @ strings_Join (map (\<lambda>(k, v). go_quote k @ colon @ encode_value v) (sorted_members m)) sep
             @ post @ [CHR 0x7D])"

definition newline :: string where "newline = [CHR 0x0A]"

definition json_Marshal :: "(string, body_value) gomap \<Rightarrow> string" where
  "json_Marshal m = encode_members [] '':'' '','' [] m"

text \<open>\<open>Encode\<close> after \<open>SetIndent\<close> with no prefix and two spaces; it ends the value with a newline.\<close>

definition json_Encode_indent :: "(string, body_value) gomap \<Rightarrow> string" where
  "json_Encode_indent m =
     encode_members (newline @ ''  '') '': '' ('','' @ newline @ ''  '') newline m @ newline"

subsection \<open>Strings\<close>

text \<open>A string with every byte that starts no well-formed sequence replaced by U+FFFD.\<close>

function to_valid_utf8 :: "string \<Rightarrow> string" where
  "to_valid_utf8 s =
     (if s = [] then []
      else if utf8_len s = 0 then replacement @ to_valid_utf8 (tl s)
      else take (utf8_len s) s @ to_valid_utf8 (drop (utf8_len s) s))"
  by pat_completeness auto
termination
  by (relation "measure length") auto

declare to_valid_utf8.simps [simp del]

lemma to_valid_utf8_Nil [simp]: "to_valid_utf8 [] = []"
  by (simp add: to_valid_utf8.simps)

lemma go_escape_Nil [simp]: "go_escape [] = []"
  by (simp add: go_escape.simps)

lemma to_valid_utf8_valid: "valid_utf8 s \<Longrightarrow> to_valid_utf8 s = s"
proof (induction s rule: valid_utf8.induct)
  case (1 s)
  then show ?case
    by (subst to_valid_utf8.simps, subst (asm) valid_utf8.simps) (auto split: if_splits)
qed

lemma utf8_len_ascii: "of_char c < (128 :: nat) \<Longrightarrow> utf8_len (c # cs) = 1"
  by (simp add: utf8_len_def)

text \<open>The piece that the writer appends for the front of a string, and what is left.\<close>

definition front_len :: "string \<Rightarrow> nat" where
  "front_len s = (if utf8_len s = 0 then 1 else utf8_len s)"

definition front_piece :: "string \<Rightarrow> string" where
  "front_piece s =
     (if of_char (hd s) < (128 :: nat) then go_escape_byte (hd s)
      else if utf8_len s = 0 then escape_bad
      else go_escape_rune (take (utf8_len s) s))"

definition front_value :: "string \<Rightarrow> string" where
  "front_value s = (if utf8_len s = 0 then replacement else take (utf8_len s) s)"

lemma front_len_pos [simp]: "0 < front_len s"
  by (simp add: front_len_def)

lemma go_escape_front: "s \<noteq> [] \<Longrightarrow> go_escape s = front_piece s @ go_escape (drop (front_len s) s)"
  by (cases s) (simp, subst go_escape.simps, simp add: front_piece_def front_len_def utf8_len_ascii)

lemma to_valid_front: "s \<noteq> [] \<Longrightarrow> to_valid_utf8 s = front_value s @ to_valid_utf8 (drop (front_len s) s)"
  by (subst to_valid_utf8.simps) (cases s, simp_all add: front_value_def front_len_def)

lemma front_induct [case_names Nil Front]:
  assumes "P []" "\<And>s. s \<noteq> [] \<Longrightarrow> P (drop (front_len s) s) \<Longrightarrow> P s"
  shows "P s"
proof (induction s rule: measure_induct_rule [of length])
  case (less s)
  show ?case
  proof (cases "s = []")
    case False
    then have "length (drop (front_len s) s) < length s" by simp
    then show ?thesis using assms(2) less False by blast
  qed (simp add: assms(1))
qed


lemma hex4_byte:
  "n < 256 \<Longrightarrow> hex4 (CHR ''0'' # CHR ''0'' # hex_char (n div 16) # hex_char (n mod 16) # s) = n"
  by (rule hex4_escape)

lemma byte_cases:
  assumes "of_char c < (128 :: nat)"
  obtains (quoted) "c = CHR 0x22 \<or> c = CHR 0x5C"
  | (short) "c = CHR 0x08 \<or> c = CHR 0x0C \<or> c = CHR 0x0A \<or> c = CHR 0x0D \<or> c = CHR 0x09"
  | (hex) "go_escape_byte c =
      [CHR 0x5C, CHR ''u'', CHR ''0'', CHR ''0'', hex_char (of_char c div 16), hex_char (of_char c mod 16)]"
  | (plain) "go_escape_byte c = [c]" "c \<noteq> CHR 0x22" "c \<noteq> CHR 0x5C" "\<not> of_char c < (32 :: nat)"
proof -
  have eq: "c = d" if "of_char c = (of_char d :: nat)" for d
    using that of_char_eq_iff by blast
  consider "c = CHR 0x22 \<or> c = CHR 0x5C"
    | "of_char c \<in> {8, 12, 10, 13, 9 :: nat}"
    | "c \<noteq> CHR 0x22" "c \<noteq> CHR 0x5C" "of_char c \<notin> {8, 12, 10, 13, 9 :: nat}"
        "of_char c < (32 :: nat) \<or> c = CHR ''<'' \<or> c = CHR ''>'' \<or> c = CHR ''&''"
    | "c \<noteq> CHR 0x22" "c \<noteq> CHR 0x5C" "of_char c \<notin> {8, 12, 10, 13, 9 :: nat}"
        "\<not> (of_char c < (32 :: nat) \<or> c = CHR ''<'' \<or> c = CHR ''>'' \<or> c = CHR ''&'')"
    by blast
  then show thesis
  proof cases
    case 2
    then have "c = CHR 0x08 \<or> c = CHR 0x0C \<or> c = CHR 0x0A \<or> c = CHR 0x0D \<or> c = CHR 0x09"
      using eq [of "CHR 0x08"] eq [of "CHR 0x0C"] eq [of "CHR 0x0A"] eq [of "CHR 0x0D"] eq [of "CHR 0x09"]
      by auto
    then show thesis by (rule short)
  next
    case 3
    have "go_escape_byte c =
      [CHR 0x5C, CHR ''u'', CHR ''0'', CHR ''0'', hex_char (of_char c div 16), hex_char (of_char c mod 16)]"
      using 3 by (simp add: go_escape_byte_def Let_def)
    then show thesis by (rule hex)
  next
    case 4
    have "go_escape_byte c = [c]" using 4 by (simp add: go_escape_byte_def Let_def)
    then show thesis using 4 plain by blast
  qed (rule quoted)
qed

lemma control_chars:
  "char_of (8 :: nat) = CHR 0x08" "char_of (9 :: nat) = CHR 0x09" "char_of (10 :: nat) = CHR 0x0A"
  "char_of (12 :: nat) = CHR 0x0C" "char_of (13 :: nat) = CHR 0x0D"
  by (simp_all add: char_of_eq_iff)

lemma separator_bytes:
  "utf8_bytes 8232 = [CHR 0xE2, CHR 0x80, CHR 0xA8]" "utf8_bytes 8233 = [CHR 0xE2, CHR 0x80, CHR 0xA9]"
  by (simp_all add: utf8_bytes_def char_of_eq_iff)

lemma unquote_byte:
  assumes "of_char c < (128 :: nat)"
  shows "unquote (go_escape_byte c @ rest) = c # unquote rest"
  using assms
proof (cases rule: byte_cases)
  case quoted
  then show ?thesis
    by (elim disjE) (simp_all add: go_escape_byte_def unquote.simps [of "CHR 0x5C # _"] simple_escape_def)
next
  case short
  then show ?thesis
    by (elim disjE)
       (simp_all add: go_escape_byte_def unquote.simps [of "CHR 0x5C # _"] simple_escape_def control_chars)
next
  case hex
  let ?n = "of_char c :: nat"
  have "\<not> high_surrogate ?n" "\<not> low_surrogate ?n" "utf8_bytes ?n = [c]" "?n < 256"
    using assms by (simp_all add: high_surrogate_def low_surrogate_def utf8_bytes_def)
  then show ?thesis
    by (simp add: hex unquote.simps [of "CHR 0x5C # _"] hex4_byte Let_def)
next
  case plain
  have "utf8_len (c # rest) = 1" using assms by (rule utf8_len_ascii)
  then show ?thesis using plain unquote_sequence [of "c # rest"] by simp
qed

lemma unquote_bad: "unquote (escape_bad @ rest) = replacement @ unquote rest"
proof -
  have "hex4 (''fffd'' @ rest) = 65533" by (simp add: hex4_def hex_digit_def)
  then show ?thesis
    by (simp add: escape_bad_def unquote.simps [of "CHR 0x5C # _"] high_surrogate_def
        low_surrogate_def replacement_def)
qed

lemma unquote_rune:
  assumes "1 < utf8_len s"
  shows "unquote (go_escape_rune (take (utf8_len s) s) @ rest) = take (utf8_len s) s @ unquote rest"
proof (cases "separator_rune (take (utf8_len s) s)")
  case (Some d)
  then have "d \<in> {8, 9}" and r: "take (utf8_len s) s = utf8_bytes (8224 + d)"
    by (auto simp: separator_rune_def separator_bytes split: if_splits)
  moreover have "hex4 (''202'' @ hex_char d # rest) = 8224 + d" if "d < 16"
    using that by (simp add: hex4_def) (simp add: hex_digit_def)
  ultimately have "unquote (CHR 0x5C # ''u202'' @ hex_char d # rest) = utf8_bytes (8224 + d) @ unquote rest"
    by (auto simp: unquote.simps [of "CHR 0x5C # _"] high_surrogate_def low_surrogate_def)
  then show ?thesis by (simp add: go_escape_rune_def Some r [symmetric])
next
  case None
  let ?r = "take (utf8_len s) s"
  have len: "utf8_len (?r @ rest) = utf8_len s" using assms by (intro utf8_len_append) simp
  have "0 < utf8_len s" using assms by simp
  with refl have "utf8_len s \<le> length s" by (cases rule: utf8_len_cases) auto
  moreover from this assms have "hd ?r \<in> set ?r" by (cases s; cases "utf8_len s") auto
  then have "128 \<le> (of_char (hd ?r) :: nat)" by (rule utf8_len_multi [OF assms])
  then have "hd (?r @ rest) \<noteq> CHR 0x5C" using assms calculation by (cases s; cases "utf8_len s") auto
  ultimately show ?thesis
    using unquote_sequence [of "?r @ rest"] assms len by (simp add: go_escape_rune_def None)
qed

lemma high_multi: "s \<noteq> [] \<Longrightarrow> \<not> of_char (hd s) < (128 :: nat) \<Longrightarrow> utf8_len s \<noteq> 0 \<Longrightarrow> 1 < utf8_len s"
  by (rule utf8_len_cases [of s, OF refl]) auto

lemma unquote_front: "s \<noteq> [] \<Longrightarrow> unquote (front_piece s @ rest) = front_value s @ unquote rest"
  using unquote_byte [of "hd s" rest] unquote_bad [of rest] unquote_rune [OF high_multi, of s rest]
  by (cases s) (auto simp: front_piece_def front_value_def utf8_len_ascii)

lemma unquote_go_escape: "unquote (go_escape s) = to_valid_utf8 s"
proof (induction s rule: front_induct)
  case (Front s)
  then show ?case by (simp add: go_escape_front [of s] to_valid_front [of s] unquote_front)
qed simp

text \<open>The reader passes over an escaped string up to the closing quote.\<close>

lemma lex_plain:
  "(\<And>c. c \<in> set p \<Longrightarrow> c \<noteq> CHR 0x22 \<and> c \<noteq> CHR 0x5C \<and> \<not> of_char c < (32 :: nat)) \<Longrightarrow>
     lex (InStr raw) (p @ rest) = lex (InStr (rev p @ raw)) rest"
  by (induction p arbitrary: raw) auto

lemma hex_char_digit: "d < 16 \<Longrightarrow> hex_digit (hex_char d) \<noteq> None"
  by simp

lemma lex_byte:
  assumes "of_char c < (128 :: nat)"
  shows "lex (InStr raw) (go_escape_byte c @ rest) = lex (InStr (rev (go_escape_byte c) @ raw)) rest"
  using assms
proof (cases rule: byte_cases)
  case quoted
  then show ?thesis by (elim disjE) (simp_all add: go_escape_byte_def simple_escape_def)
next
  case short
  then show ?thesis by (elim disjE) (simp_all add: go_escape_byte_def simple_escape_def)
next
  case hex
  have "of_char c div 16 < (16 :: nat)" using assms by linarith
  then show ?thesis by (simp add: hex simple_escape_def)
next
  case plain
  then show ?thesis by simp
qed

lemma lex_rune:
  assumes "1 < utf8_len s"
  shows "lex (InStr raw) (go_escape_rune (take (utf8_len s) s) @ rest)
    = lex (InStr (rev (go_escape_rune (take (utf8_len s) s)) @ raw)) rest"
proof (cases "separator_rune (take (utf8_len s) s)")
  case (Some d)
  then have "d < 16" by (auto simp: separator_rune_def split: if_splits)
  then show ?thesis by (simp add: go_escape_rune_def Some simple_escape_def) (simp add: hex_digit_def)
next
  case None
  have "c \<noteq> CHR 0x22 \<and> c \<noteq> CHR 0x5C \<and> \<not> of_char c < (32 :: nat)" if "c \<in> set (take (utf8_len s) s)" for c
    using utf8_len_multi [OF assms that] by auto
  then show ?thesis by (simp add: go_escape_rune_def None lex_plain)
qed

lemma lex_front:
  "s \<noteq> [] \<Longrightarrow> lex (InStr raw) (front_piece s @ rest) = lex (InStr (rev (front_piece s) @ raw)) rest"
  using lex_byte [of "hd s" raw rest] lex_rune [OF high_multi, of s raw rest]
  by (auto simp: front_piece_def) (simp add: escape_bad_def simple_escape_def hex_digit_def)

lemma lex_go_escape: "lex (InStr raw) (go_escape s @ rest) = lex (InStr (rev (go_escape s) @ raw)) rest"
proof (induction s arbitrary: raw rule: front_induct)
  case (Front s)
  then show ?case by (simp add: go_escape_front [of s] lex_front)
qed simp

lemma lexes_to_go_quote: "lexes_to (go_quote s) [TStr (to_valid_utf8 s)]"
proof -
  have "lex Between (go_quote s @ rest) = lex (InStr []) (go_escape s @ CHR 0x22 # rest)" for rest
    by (simp add: go_quote_def is_space_def)
  then show ?thesis
    by (simp add: lexes_to_def lex_go_escape unquote_go_escape map_option_case split: option.split)
qed


subsection \<open>Words\<close>

definition delimiter :: "char \<Rightarrow> bool" where
  "delimiter c \<longleftrightarrow> is_space c \<or> punctuation c \<noteq> None"

text \<open>A text that is read as a list of tokens when a space or a punctuation mark follows.\<close>

definition lexes_before :: "string \<Rightarrow> token list \<Rightarrow> bool" where
  "lexes_before s ts \<longleftrightarrow>
     (\<forall>c rest. delimiter c \<longrightarrow> lex Between (s @ c # rest) = map_option ((@) ts) (lex Between (c # rest)))"

lemma lexes_to_before: "lexes_to s ts \<Longrightarrow> lexes_before s ts"
  by (simp add: lexes_to_def lexes_before_def)

lemma lexes_before_append:
  "lexes_before s ts \<Longrightarrow> delimiter c \<Longrightarrow> lexes_to (c # u) us \<Longrightarrow> lexes_to (s @ c # u) (ts @ us)"
  by (simp add: lexes_before_def lexes_to_def map_option_case split: option.split)

lemma lexes_to_then_before: "lexes_to s ts \<Longrightarrow> lexes_before u us \<Longrightarrow> lexes_before (s @ u) (ts @ us)"
  by (simp add: lexes_before_def lexes_to_def map_option_case split: option.split)

lemma punctuation_codes: "punctuation c = Some t \<Longrightarrow> of_char c \<in> {44, 58, 91, 93, 123, 125 :: nat}"
  by (auto simp: punctuation_def split: if_splits)

lemma delimiter_codes: "delimiter c \<Longrightarrow> of_char c \<in> {9, 10, 13, 32, 44, 58, 91, 93, 123, 125 :: nat}"
  by (auto simp: delimiter_def is_space_def dest: punctuation_codes)

lemma delimiter_not_word: "delimiter c \<Longrightarrow> \<not> word_char c"
  by (drule delimiter_codes) (auto simp: word_char_def)

lemma lex_word:
  "(\<And>x. x \<in> set w \<Longrightarrow> word_char x) \<Longrightarrow> lex (InWord r) (w @ rest) = lex (InWord (rev w @ r)) rest"
  by (induction w arbitrary: r) auto

lemma lex_word_end:
  "delimiter c \<Longrightarrow> word_token (rev r) = Some t \<Longrightarrow>
     lex (InWord r) (c # rest) = map_option ((#) t) (lex Between (c # rest))"
  using delimiter_not_word [of c] delimiter_codes [of c]
  by (cases "is_space c") (auto simp: delimiter_def map_option_case split: option.split)

lemma word_char_start: "word_char c \<Longrightarrow> \<not> is_space c \<and> c \<noteq> CHR 0x22 \<and> punctuation c = None"
proof -
  assume c: "word_char c"
  then have "\<not> delimiter c" using delimiter_not_word by blast
  moreover have "c \<noteq> CHR 0x22" using c by (auto simp: word_char_def)
  ultimately show ?thesis by (simp add: delimiter_def)
qed

lemma lexes_before_word:
  assumes "w \<noteq> []" "\<And>x. x \<in> set w \<Longrightarrow> word_char x" "word_token w = Some t"
  shows "lexes_before w [t]"
proof -
  obtain a as where w: "w = a # as" using assms(1) by (cases w) auto
  have a: "word_char a" using assms(2) w by simp
  have "lex Between (w @ c # rest) = map_option ((@) [t]) (lex Between (c # rest))" if "delimiter c" for c rest
  proof -
    have "lex Between (w @ c # rest) = lex (InWord [a]) (as @ c # rest)"
      using a word_char_start [OF a] by (simp add: w)
    also have "\<dots> = lex (InWord (rev as @ [a])) (c # rest)"
      by (rule lex_word) (use assms(2) w in simp)
    also have "\<dots> = map_option ((#) t) (lex Between (c # rest))"
      by (rule lex_word_end [OF that]) (use assms(3) w in simp)
    also have "\<dots> = map_option ((@) [t]) (lex Between (c # rest))"
      by (cases "lex Between (c # rest)") (simp_all del: lex.simps)
    finally show ?thesis .
  qed
  then show ?thesis by (simp add: lexes_before_def)
qed

text \<open>A printed integer is a number of JSON.\<close>

lemma digit_word_char: "digit_val c \<noteq> None \<Longrightarrow> word_char c"
  by (auto simp: digit_val_def word_char_def Let_def split: if_splits)

lemma drop_digits_all: "(\<And>c. c \<in> set s \<Longrightarrow> digit_val c \<noteq> None) \<Longrightarrow> drop_digits s = []"
  by (induction s) auto

lemma nat_digits_zero_start: "hd (nat_digits n) = CHR ''0'' \<Longrightarrow> nat_digits n = ''0''"
proof (induction n rule: nat_digits.induct)
  case (1 n)
  show ?case
  proof (cases "n < 10")
    case True
    then show ?thesis using "1.prems" by (subst nat_digits.simps, subst (asm) nat_digits.simps) simp
  next
    case False
    then have nd: "nat_digits n = nat_digits (n div 10) @ [char_of (48 + n mod 10)]"
      by (subst nat_digits.simps) simp
    then have "nat_digits (n div 10) = ''0''" using 1 False by simp
    then have "parse_digits 0 (nat_digits (n div 10)) = Some 0" by (simp add: digit_val_def)
    then show ?thesis using False by (simp add: parse_nat_digits)
  qed
qed

lemma int_part_digits: "int_part (nat_digits n) = Some []"
proof (cases "nat_digits n")
  case (Cons c cs)
  have digits: "digit_val x \<noteq> None" if "x \<in> set (c # cs)" for x
    using nat_digits_digit [of x n] that Cons by simp
  show ?thesis
  proof (cases "c = CHR ''0''")
    case True
    then show ?thesis using nat_digits_zero_start [of n] Cons by (simp add: int_part_def)
  next
    case False
    have "digit_val c \<noteq> None" "drop_digits cs = []" using digits by (auto intro: drop_digits_all)
    then show ?thesis using False by (simp add: int_part_def some_digits_def Cons)
  qed
qed simp

lemma is_number_Itoa: "is_number (Itoa i)"
proof (cases "i < 0")
  case True
  then show ?thesis by (simp add: is_number_def Itoa_def int_part_digits frac_part_def exp_part_def)
next
  case False
  then have "(case Itoa i of [] \<Rightarrow> [] | c # cs \<Rightarrow> if c = CHR ''-'' then cs else Itoa i) = nat_digits (nat i)"
    using nat_digits_no_sign [of "nat i"] by (cases "nat_digits (nat i)") (auto simp: Itoa_def)
  then show ?thesis by (simp add: is_number_def int_part_digits frac_part_def exp_part_def)
qed

lemma lexes_before_Itoa: "lexes_before (Itoa i) [TNum (Itoa i)]"
proof (rule lexes_before_word)
  show "Itoa i \<noteq> []" by (simp add: Itoa_def)
  show "word_char x" if "x \<in> set (Itoa i)" for x
    using that nat_digits_digit digit_word_char
    by (auto simp: Itoa_def split: if_splits) (simp add: word_char_def)
  have "\<not> is_number ''true''" "\<not> is_number ''false''" "\<not> is_number ''null''" by code_simp+
  then show "word_token (Itoa i) = Some (TNum (Itoa i))"
    using is_number_Itoa [of i] by (auto simp: word_token_def)
qed

subsection \<open>Objects\<close>

fun value_json :: "body_value \<Rightarrow> json" where
  "value_json (BodyBool b) = JBool b"
| "value_json (BodyString s) = JStr (to_valid_utf8 s)"
| "value_json (BodyInt i) = JNum (Itoa i)"

definition body_json :: "(string, body_value) gomap \<Rightarrow> json" where
  "body_json m = JObj (map (\<lambda>(k, v). (to_valid_utf8 k, value_json v)) (sorted_members m))"

lemma lexes_before_value: "lexes_before (encode_value v) (json_tokens (value_json v))"
proof (cases v)
  case (BodyBool b)
  have "word_token ''true'' = Some TTrue" "word_token ''false'' = Some TFalse"
    by (simp_all add: word_token_def)
  then show ?thesis
    by (simp add: BodyBool) (auto intro!: lexes_before_word simp: word_char_def)
qed (simp_all add: lexes_to_go_quote lexes_to_before lexes_before_Itoa)

definition spaces :: "string \<Rightarrow> bool" where
  "spaces s \<longleftrightarrow> (\<forall>c \<in> set s. is_space c)"

lemma lexes_to_spaces: "spaces s \<Longrightarrow> lexes_to s []"
  by (induction s) (simp_all add: spaces_def lexes_to_Nil, simp add: lexes_to_def)

lemma lexes_before_member:
  assumes "spaces sp"
  shows "lexes_before (go_quote k @ (CHR '':'' # sp) @ encode_value v)
    (TStr (to_valid_utf8 k) # Colon # json_tokens (value_json v))"
proof -
  have "lexes_to (go_quote k @ '':'' @ sp) ([TStr (to_valid_utf8 k)] @ [Colon] @ [])"
    by (intro lexes_to_append lexes_to_go_quote lexes_to_marks lexes_to_spaces assms)
  from lexes_to_then_before [OF this lexes_before_value [of v]] show ?thesis by simp
qed

lemma lexes_to_close:
  assumes "spaces post"
  shows "lexes_to (post @ [CHR 0x7D]) [RBrace]" "\<exists>c u. post @ [CHR 0x7D] = c # u \<and> delimiter c"
proof -
  show "lexes_to (post @ [CHR 0x7D]) [RBrace]"
    using lexes_to_append [OF lexes_to_spaces [OF assms] lexes_to_marks(6)] by simp
  show "\<exists>c u. post @ [CHR 0x7D] = c # u \<and> delimiter c"
    using assms by (cases post) (auto simp: spaces_def delimiter_def punctuation_def)
qed

lemma lexes_to_members:
  assumes "spaces sp" "spaces post" "xs \<noteq> []" "\<And>x. x \<in> set xs \<Longrightarrow> lexes_before (f x) (g x)"
  shows "lexes_to (strings_Join (map f xs) (CHR '','' # sp) @ post @ [CHR 0x7D])
    (sep_tokens (map g xs) @ [RBrace])"
  using assms(3,4)
proof (induction xs)
  case (Cons x xs)
  have fx: "lexes_before (f x) (g x)" using Cons.prems by simp
  show ?case
  proof (cases xs)
    case Nil
    obtain c u where cu: "post @ [CHR 0x7D] = c # u" "delimiter c"
      using lexes_to_close(2) [OF assms(2)] by blast
    have "lexes_to (c # u) [RBrace]" using lexes_to_close(1) [OF assms(2)] by (simp only: cu(1))
    from lexes_before_append [OF fx cu(2) this] show ?thesis by (simp add: Nil cu(1))
  next
    case (Cons y ys)
    let ?t = "strings_Join (map f xs) (CHR '','' # sp) @ post @ [CHR 0x7D]"
    have ih: "lexes_to ?t (sep_tokens (map g xs) @ [RBrace])"
      using Cons.IH Cons.prems Cons by simp
    have "lexes_to ('','' @ sp @ ?t) ([Comma] @ [] @ sep_tokens (map g xs) @ [RBrace])"
      by (intro lexes_to_append lexes_to_marks lexes_to_spaces assms(1) ih)
    then have "lexes_to (CHR '','' # sp @ ?t) (Comma # sep_tokens (map g xs) @ [RBrace])" by simp
    from lexes_before_append [OF fx _ this] show ?thesis
      by (simp add: Cons delimiter_def punctuation_def)
  qed
qed simp

lemma sorted_members_empty [simp]: "sorted_members m = [] \<longleftrightarrow> m = []"
  by (metis length_0_conv length_sort sorted_members_def)

lemma lexes_to_encode:
  assumes "spaces pre" "spaces sp" "spaces sp'" "spaces post"
  shows "lexes_to (encode_members pre (CHR '':'' # sp) (CHR '','' # sp') post m) (json_tokens (body_json m))"
proof (cases "m = []")
  case True
  have "lexes_to ([CHR 0x7B] @ [CHR 0x7D]) ([LBrace] @ [RBrace])"
    by (intro lexes_to_append lexes_to_marks)
  then show ?thesis using True by (simp add: encode_members_def body_json_def sorted_members_def)
next
  case False
  let ?f = "\<lambda>(k, v). go_quote k @ (CHR '':'' # sp) @ encode_value v"
  let ?g = "\<lambda>(k, v). TStr (to_valid_utf8 k) # Colon # json_tokens (value_json v)"
  have "lexes_to (strings_Join (map ?f (sorted_members m)) (CHR '','' # sp') @ post @ [CHR 0x7D])
      (sep_tokens (map ?g (sorted_members m)) @ [RBrace])"
    by (rule lexes_to_members [OF assms(3,4)]) (use False lexes_before_member [OF assms(2)] in auto)
  from lexes_to_append [OF lexes_to_marks(5) lexes_to_append [OF lexes_to_spaces [OF assms(1)] this]]
  have "lexes_to ([CHR 0x7B] @ pre @ strings_Join (map ?f (sorted_members m)) (CHR '','' # sp') @ post @ [CHR 0x7D])
      ([LBrace] @ [] @ sep_tokens (map ?g (sorted_members m)) @ [RBrace])" .
  moreover have "json_tokens (body_json m) = LBrace # sep_tokens (map ?g (sorted_members m)) @ [RBrace]"
    by (simp add: body_json_def comp_def case_prod_beta')
  ultimately show ?thesis using False by (simp add: encode_members_def case_prod_beta')
qed

lemma reads_body: "reads (body_json m) []"
  unfolding body_json_def
proof (rule reads_object)
  show "length [] < max_depth" by (simp add: max_depth_def)
  fix e ws k'
  assume "e \<in> set (map (\<lambda>(k, v). (to_valid_utf8 k, value_json v)) (sorted_members m))"
  then obtain v where "snd e = value_json v" by auto
  then show "reads (snd e) (FObj ws k' # [])" by (cases v) (simp_all add: reads_def)
qed

lemma json_parse_lexes:
  assumes "lexes_to s (json_tokens (body_json m))" "spaces t"
  shows "json_parse (s @ t) = Some (body_json m)"
proof -
  have "lex Between (t @ []) = Some []"
    using lexes_to_spaces [OF assms(2)] unfolding lexes_to_def by (simp only: lex.simps) simp
  then have "lex Between (s @ t) = Some (json_tokens (body_json m))"
    using assms(1) by (simp add: lexes_to_def)
  moreover have "parse_tokens (WantValue []) (json_tokens (body_json m) @ []) = parse_tokens (complete (body_json m) []) []"
    using reads_body [of m] unfolding reads_def by blast
  ultimately show ?thesis by (simp add: json_parse_def)
qed

lemma json_parse_Marshal: "json_parse (json_Marshal m) = Some (body_json m)"
  using json_parse_lexes [of "json_Marshal m" m "[]"]
    lexes_to_encode [of "[]" "[]" "[]" "[]" m]
  by (simp add: json_Marshal_def spaces_def)

lemma json_parse_Encode_indent: "json_parse (json_Encode_indent m) = Some (body_json m)"
proof -
  have "spaces newline" "spaces '' ''" "spaces (newline @ ''  '')"
    by (simp_all add: spaces_def newline_def is_space_def)
  then show ?thesis
    unfolding json_Encode_indent_def
    using json_parse_lexes [OF lexes_to_encode] by simp
qed


text \<open>What a reader finds under a key of a written map.\<close>

lemma body_json_lookup:
  assumes "gomap_ok m" "\<forall>k \<in> fst ` set m. valid_utf8 k"
  obtains kvs where "body_json m = JObj kvs" "\<And>k. map_of kvs k = map_option value_json (gomap_get m k)"
proof -
  have distinct: "distinct (map fst m)" using assms(1) by (simp add: gomap_ok_def)
  have "mset (map fst (sorted_members m)) = mset (map fst m)" by (simp add: sorted_members_def)
  then have "distinct (map fst (sorted_members m))" using distinct by (metis mset_eq_imp_distinct_iff)
  with distinct have m: "map_of (sorted_members m) = map_of m"
    by (subst map_of_inject_set) (simp_all add: sorted_members_def)
  have "map (\<lambda>(k, v). (to_valid_utf8 k, value_json v)) (sorted_members m)
      = map (\<lambda>(k, v). (k, value_json v)) (sorted_members m)"
    using assms(2) by (auto simp: sorted_members_def to_valid_utf8_valid)
  then have "body_json m = JObj (map (\<lambda>(k, v). (k, value_json v)) (sorted_members m))"
    by (simp add: body_json_def)
  moreover have "map_of (map (\<lambda>(k, v). (k, value_json v)) (sorted_members m)) k
      = map_option value_json (gomap_get m k)" for k
    by (simp add: map_of_map m)
  ultimately show thesis using that by blast
qed

end
