(* ===== verification/Extauthz.thy ===== *)
theory Extauthz
  imports Server Policy_Json Go_Base64 Json_Encode
begin

text \<open>
  The Envoy external-authorization adapter, \<open>examples/envoy-jwt/extauthz/main.go\<close>, the policy
  enforcement point of the repository: from the verified JWT payload to a request of the
  engine, and from the engine's answer to an OK or a denied response.

  A \<open>CheckRequest\<close> is the values that the nil-safe getters of the Envoy message return.  The
  engine client is a function from the request to an error or a response, which covers the
  timeout of two seconds.  The texts of the library errors are a parameter.
\<close>

record CheckRequest =
  ck_headers :: "(string, string) gomap"
  ck_path :: string
  ck_method :: string
  ck_source_address :: string

record jwtClaims =
  jc_Subject :: string
  jc_Email :: string
  jc_Groups :: "string list"

datatype claims_error = PayloadHeaderMissing string | PayloadNotBase64 | PayloadNotJson | SubjectMissing

subsection \<open>Headers and claims\<close>

definition envOr :: "(string \<Rightarrow> string) \<Rightarrow> string \<Rightarrow> string \<Rightarrow> string" where
  "envOr getenv key def = (let v = getenv key in if v \<noteq> [] then v else def)"

definition payloadHeader :: "(string \<Rightarrow> string) \<Rightarrow> string" where
  "payloadHeader getenv = strings_ToLower (envOr getenv ''JWT_PAYLOAD_HEADER'' ''x-jwt-payload'')"

text \<open>The range loop of \<open>lookupHeader\<close> over the headers in some iteration order.\<close>

fun header_loop :: "string \<Rightarrow> (string \<times> string) list \<Rightarrow> string option" where
  "header_loop lk [] = None"
| "header_loop lk ((k, v) # rest) = (if strings_ToLower k = lk then Some v else header_loop lk rest)"

definition lookupHeader ::
  "((string \<times> string) list \<Rightarrow> (string \<times> string) list) \<Rightarrow> (string, string) gomap \<Rightarrow> string \<Rightarrow> string option" where
  "lookupHeader ord headers key =
     (case gomap_get headers key of
        Some v \<Rightarrow> Some v
      | None \<Rightarrow> header_loop (strings_ToLower key) (ord headers))"

record raw_claims =
  rcl_Subject :: string
  rcl_Email :: string
  rcl_Groups :: "string slice"

definition zero_claims :: raw_claims where
  "zero_claims = \<lparr>rcl_Subject = [], rcl_Email = [], rcl_Groups = ([], 0)\<rparr>"

definition claims_field :: "raw_claims \<Rightarrow> string \<Rightarrow> json \<Rightarrow> raw_claims option" where
  "claims_field c k v =
     (if key_is k ''sub'' then
        map_option (\<lambda>s. c\<lparr>rcl_Subject := s\<rparr>) (decode_string (rcl_Subject c) v)
      else if key_is k ''email'' then
        map_option (\<lambda>s. c\<lparr>rcl_Email := s\<rparr>) (decode_string (rcl_Email c) v)
      else if key_is k ''groups'' then
        map_option (\<lambda>vs. c\<lparr>rcl_Groups := vs\<rparr>) (decode_slice decode_string [] (rcl_Groups c) v)
      else Some c)"

text \<open>A nil slice of groups and an empty one are both the empty list.\<close>

definition Unmarshal_claims :: "string \<Rightarrow> jwtClaims option" where
  "Unmarshal_claims s =
     map_option (\<lambda>c. \<lparr>jc_Subject = rcl_Subject c, jc_Email = rcl_Email c,
                       jc_Groups = slice_list (rcl_Groups c)\<rparr>)
       (Option.bind (json_parse s) (decode_struct claims_field zero_claims))"

definition decode_payload :: "string \<Rightarrow> string option" where
  "decode_payload raw =
     (case base64_DecodeString False raw of
        Some dec \<Rightarrow> Some dec
      | None \<Rightarrow> base64_DecodeString True raw)"

definition extractClaims ::
  "((string \<times> string) list \<Rightarrow> (string \<times> string) list) \<Rightarrow> string \<Rightarrow> (string, string) gomap
     \<Rightarrow> claims_error + jwtClaims" where
  "extractClaims ord payload_header headers =
     (case lookupHeader ord headers payload_header of
        None \<Rightarrow> Inl (PayloadHeaderMissing payload_header)
      | Some raw \<Rightarrow>
          (case decode_payload raw of
             None \<Rightarrow> Inl PayloadNotBase64
           | Some dec \<Rightarrow>
               (case Unmarshal_claims dec of
                  None \<Rightarrow> Inl PayloadNotJson
                | Some claims \<Rightarrow>
                    if jc_Subject claims = [] then Inl SubjectMissing else Inr claims)))"

definition demoClaimMap :: "(string, string list) gomap" where
  "demoClaimMap =
     [(''alice@bouncer.dev'', [''admin'']), (''bob@bouncer.dev'', [''user'']),
      (''carol@bouncer.dev'', [''admin'', ''finance'']), (''mallory@bouncer.dev'', [''blocked''])]"

definition enrichRoles :: "jwtClaims \<Rightarrow> string list" where
  "enrichRoles c =
     (if length (jc_Groups c) > 0 then jc_Groups c
      else (case gomap_get demoClaimMap (strings_ToLower (jc_Email c)) of
              Some roles \<Rightarrow> roles
            | None \<Rightarrow> []))"

definition actionForMethod :: "string \<Rightarrow> string" where
  "actionForMethod method =
     (if strings_ToUpper method \<in> {''GET'', ''HEAD'', ''OPTIONS''} then ''READ'' else ''WRITE'')"

definition sourceIP :: "CheckRequest \<Rightarrow> string" where
  "sourceIP req = (if ck_source_address req = [] then ''0.0.0.0'' else ck_source_address req)"

subsection \<open>Responses\<close>

type_synonym header_list = "(string \<times> string) list"

datatype http_response =
    OkHttpResponse header_list
  | DeniedHttpResponse int string header_list

record CheckResponse =
  cr_status_code :: int
  cr_http :: http_response

definition codes_OK :: int where "codes_OK = 0"
definition codes_PermissionDenied :: int where "codes_PermissionDenied = 7"

definition httpStatusCode :: "int \<Rightarrow> int" where
  "httpStatusCode status =
     (if status = 401 then 401 else if status = 403 then 403 else if status = 503 then 503 else 403)"

definition mutableHeader :: "string \<Rightarrow> string \<Rightarrow> string \<times> string" where
  "mutableHeader key val = (key, val)"

definition denyJSON :: "int \<Rightarrow> (string, body_value) gomap \<Rightarrow> CheckResponse" where
  "denyJSON httpStatus body =
     \<lparr>cr_status_code = codes_PermissionDenied,
      cr_http = DeniedHttpResponse (httpStatusCode httpStatus) (json_Marshal body)
        [mutableHeader ''content-type'' ''application/json'']\<rparr>"

subsection \<open>Check\<close>

definition authz_request :: "CheckRequest \<Rightarrow> jwtClaims \<Rightarrow> CheckAccessRequest" where
  "authz_request req claims =
     \<lparr>crq_PrincipalId = jc_Subject claims,
      crq_PrincipalAttributes = [(''role'', Some \<lparr>av_Values = enrichRoles claims\<rparr>)],
      crq_ResourceType = ''httpbin'',
      crq_ResourceId = ck_path req,
      crq_ResourceAttributes = [(''path'', Some \<lparr>av_Values = [ck_path req]\<rparr>)],
      crq_Action = actionForMethod (ck_method req),
      crq_EnvironmentAttributes = [(''ip_address'', Some \<lparr>av_Values = [sourceIP req]\<rparr>)]\<rparr>"

definition Check ::
  "(claims_error \<Rightarrow> string) \<Rightarrow> ((string \<times> string) list \<Rightarrow> (string \<times> string) list) \<Rightarrow> string
     \<Rightarrow> (CheckAccessRequest \<Rightarrow> string + CheckAccessResponse) \<Rightarrow> CheckRequest \<Rightarrow> CheckResponse" where
  "Check error_text ord payload_header client req =
     (case extractClaims ord payload_header (ck_headers req) of
        Inl err \<Rightarrow>
          denyJSON 401 [(''allowed'', BodyBool False), (''reason'', BodyString (error_text err))]
      | Inr claims \<Rightarrow>
          (case client (authz_request req claims) of
             Inl err \<Rightarrow>
               denyJSON 503 [(''allowed'', BodyBool False),
                             (''reason'', BodyString ''authorization engine unavailable'')]
           | Inr resp \<Rightarrow>
               if \<not> GetAllowed (Some resp) then
                 denyJSON 403 [(''allowed'', BodyBool False),
                               (''reason'', BodyString (GetReason (Some resp))),
                               (''matched_policy_id'', BodyString (GetMatchedPolicyId (Some resp))),
                               (''evaluation_time_ns'', BodyInt (GetEvaluationTimeNs (Some resp)))]
               else
                 \<lparr>cr_status_code = codes_OK,
                  cr_http = OkHttpResponse
                    [mutableHeader ''x-user'' (jc_Subject claims),
                     mutableHeader ''x-email'' (jc_Email claims),
                     mutableHeader ''x-roles'' (strings_Join (enrichRoles claims) '','')]\<rparr>))"

definition forwarded :: "CheckResponse \<Rightarrow> bool" where
  "forwarded r \<longleftrightarrow> (case cr_http r of OkHttpResponse _ \<Rightarrow> True | DeniedHttpResponse _ _ _ \<Rightarrow> False)"

definition denied_with :: "CheckResponse \<Rightarrow> int option" where
  "denied_with r = (case cr_http r of OkHttpResponse _ \<Rightarrow> None | DeniedHttpResponse s _ _ \<Rightarrow> Some s)"

subsection \<open>Fail closed\<close>

lemma denyJSON_denied [simp]:
  "denied_with (denyJSON st body) = Some (httpStatusCode st)" "\<not> forwarded (denyJSON st body)"
  "cr_status_code (denyJSON st body) = 7"
  by (simp_all add: denied_with_def forwarded_def denyJSON_def codes_PermissionDenied_def)

lemma httpStatusCode_simps [simp]:
  "httpStatusCode 401 = 401" "httpStatusCode 403 = 403" "httpStatusCode 503 = 503"
  by (simp_all add: httpStatusCode_def)

text \<open>
  The adapter fails closed.  A request without a readable verified payload is denied with
  401, a request that the engine did not answer with 503, a request that the engine does not
  allow with 403; only a request that the engine allowed goes through, and only then is the
  gRPC status OK.
\<close>

theorem Check_fail_closed:
  "denied_with (Check et ord ph client req) =
     (case extractClaims ord ph (ck_headers req) of
        Inl _ \<Rightarrow> Some 401
      | Inr claims \<Rightarrow>
          (case client (authz_request req claims) of
             Inl _ \<Rightarrow> Some 503
           | Inr resp \<Rightarrow> (if crs_Allowed resp then None else Some 403)))
   \<and> (forwarded (Check et ord ph client req) \<longleftrightarrow> denied_with (Check et ord ph client req) = None)
   \<and> (cr_status_code (Check et ord ph client req) = 0 \<longleftrightarrow> forwarded (Check et ord ph client req))"
  by (simp add: Check_def split: sum.split)
     (simp add: forwarded_def denied_with_def codes_OK_def)

lemma forwarded_Check:
  "forwarded (Check et ord ph client req) \<longleftrightarrow>
     (\<exists>claims resp. extractClaims ord ph (ck_headers req) = Inr claims
        \<and> client (authz_request req claims) = Inr resp \<and> crs_Allowed resp)"
  by (simp add: Check_def split: sum.split) (simp add: forwarded_def)

subsection \<open>The adapter over a decision service\<close>

text \<open>
  The generated client over a connection to a server that has registered a service: the call
  can fail on the way, with any error, and is otherwise routed by its full name and gives the
  answer of the service in its current state.
\<close>

definition rpc_client ::
  "(CheckAccessRequest \<Rightarrow> string option) \<Rightarrow> (CheckAccessRequest \<Rightarrow> 's unary_handler) \<Rightarrow> 's
     \<Rightarrow> CheckAccessRequest \<Rightarrow> string + CheckAccessResponse" where
  "rpc_client fault serve s req =
     client_CheckAccess
       (\<lambda>fullMethod inn. case fault inn of
          Some err \<Rightarrow> Inl err
        | None \<Rightarrow>
            (case service_route (AuthorizationService_ServiceDesc serve) fullMethod of
               None \<Rightarrow> Inl ''unimplemented''
             | Some handler \<Rightarrow>
                 (case handler inn s of
                    None \<Rightarrow> Inl ''unavailable''
                  | Some (_, msg, err) \<Rightarrow> client_answer (msg, err)))) req"

lemma rpc_client_eq:
  "rpc_client fault serve s req =
     (case fault req of
        Some err \<Rightarrow> Inl err
      | None \<Rightarrow>
          (case serve req s of
             None \<Rightarrow> Inl ''unavailable''
           | Some (_, msg, err) \<Rightarrow> client_answer (msg, err)))"
  by (cases "fault req") (simp_all add: rpc_client_def)

context decision_service
begin

lemma client_decides:
  "usable s \<Longrightarrow> rpc_client fault serve s req = Inr r \<Longrightarrow> crs_Allowed r = decides s req"
  using answer_decides by (auto simp: rpc_client_eq split: option.splits)

lemma Check_enforces:
  "usable s \<Longrightarrow> forwarded (Check et ord ph (rpc_client fault serve s) req) \<Longrightarrow>
     \<exists>claims. extractClaims ord ph (ck_headers req) = Inr claims \<and> decides s (authz_request req claims)"
  using client_decides by (fastforce simp: forwarded_Check)

end

subsection \<open>Claims\<close>

text \<open>
  C34: the adapter reads the payload that the proxy attached.  When the payload header carries
  the base64url encoding of some bytes, with or without padding, the claims are the ones of
  those bytes: the decoded document if it has a subject, an error otherwise; whatever the
  other headers are.
\<close>

theorem extractClaims_payload:
  assumes "gomap_get headers ph = Some (base64_Encode padded payload)"
  shows "extractClaims ord ph headers =
     (case Unmarshal_claims payload of
        None \<Rightarrow> Inl PayloadNotJson
      | Some claims \<Rightarrow> if jc_Subject claims = [] then Inl SubjectMissing else Inr claims)"
  using assms base64_either [of padded payload]
  by (simp add: extractClaims_def lookupHeader_def decode_payload_def)

lemma header_loop_None:
  "header_loop lk hs = None \<longleftrightarrow> (\<forall>(k, v) \<in> set hs. strings_ToLower k \<noteq> lk)"
  by (induction hs) (auto split: if_splits)

lemma header_loop_Some:
  "header_loop lk hs = Some v \<Longrightarrow> \<exists>k. (k, v) \<in> set hs \<and> strings_ToLower k = lk"
  by (induction hs) (auto split: if_splits)

text \<open>
  A request is unauthenticated exactly when no header has the name of the payload header,
  whatever the letter case of the names and the iteration order of the map; and an accepted
  request has a subject.
\<close>

theorem lookupHeader_missing:
  assumes "range_order ord"
  shows "(extractClaims ord ph headers = Inl (PayloadHeaderMissing ph)
          \<longleftrightarrow> (\<forall>(k, v) \<in> set headers. strings_ToLower k \<noteq> strings_ToLower ph))
    \<and> (\<forall>claims. extractClaims ord ph headers = Inr claims \<longrightarrow> jc_Subject claims \<noteq> [])"
proof -
  have "lookupHeader ord headers ph = None
      \<longleftrightarrow> (\<forall>(k, v) \<in> set headers. strings_ToLower k \<noteq> strings_ToLower ph)"
    by (auto simp: lookupHeader_def header_loop_None range_order_set [OF assms] split: option.splits
        dest: map_of_SomeD)
  then show ?thesis by (auto simp: extractClaims_def split: option.splits)
qed

text \<open>
  The roles of a request are the groups of the token when it has any, and the local claim
  map is consulted only when it has none; then they are one of the four entries of the map, or
  no role at all.
\<close>

theorem enrichRoles_source:
  "if jc_Groups c \<noteq> [] then enrichRoles c = jc_Groups c
   else enrichRoles c = [] \<or> (strings_ToLower (jc_Email c), enrichRoles c) \<in> set demoClaimMap"
  by (auto simp: enrichRoles_def dest: map_of_SomeD split: option.splits)

text \<open>Case mapping folds a letter outside ASCII into the address of another account.\<close>

lemma enrichRoles_dotted_capital:
  "enrichRoles \<lparr>jc_Subject = ''x'', jc_Email = ''al'' @ [CHR 0xC4, CHR 0xB0] @ ''ce@bouncer.dev'', jc_Groups = []\<rparr>
     = [''admin'']"
  by code_simp

text \<open>
  For a method in ASCII the action is READ exactly for GET, HEAD and OPTIONS in any letter
  case, and WRITE for everything else, the empty method included.
\<close>

theorem actionForMethod_read:
  assumes "ascii method"
  shows "(actionForMethod method = ''READ''
           \<longleftrightarrow> map upper_byte method \<in> {''GET'', ''HEAD'', ''OPTIONS''})
    \<and> (actionForMethod method = ''READ'' \<or> actionForMethod method = ''WRITE'')"
  using assms by (simp add: actionForMethod_def ToUpper_ascii)

text \<open>
  C37: a request without a source address is evaluated as coming from 0.0.0.0.  So a condition
  IN_CIDR holds for it exactly when one of the blocks is an IPv4 block \<open>net/n\<close> whose leading \<open>n\<close>
  bits are zero, among them 0.0.0.0/0, whereas the absent address itself would match no block.
\<close>

theorem absent_source_matches:
  "(evalInCIDR blocks [sourceIP (req\<lparr>ck_source_address := []\<rparr>)]
      \<longleftrightarrow> (\<exists>block \<in> set blocks. \<exists>net n. ParsePrefix block = Some (Prefix (Addr4 net) n)
            \<and> uint net div 2 ^ (32 - n) = 0))
   \<and> \<not> evalInCIDR blocks [ck_source_address (req\<lparr>ck_source_address := []\<rparr>)]"
proof -
  have zero: "ParseAddr ''0.0.0.0'' = Some (Addr4 0)" and none: "ParseAddr [] = None" by code_simp+
  have "block_holds p (Addr4 0) \<longleftrightarrow> (\<exists>net n. p = Prefix (Addr4 net) n \<and> uint net div 2 ^ (32 - n) = 0)" for p
    by (cases "(p, Addr4 0 :: addr)" rule: block_holds.cases) auto
  then show ?thesis
    by (auto simp: sourceIP_def evalInCIDR_iff zero none Contains_block)
qed

subsection \<open>Examples for the witnesses\<close>

definition sample_payload :: string where
  \<open>sample_payload = ''{"sub":"u1","email":"Bob@bouncer.dev"}''\<close>

definition sample_claims :: jwtClaims where
  "sample_claims = \<lparr>jc_Subject = ''u1'', jc_Email = ''Bob@bouncer.dev'', jc_Groups = []\<rparr>"

lemma sample_payload_claims: "Unmarshal_claims sample_payload = Some sample_claims"
  by code_simp

theorem extractClaims_payload_witness:
  "extractClaims rev ''x-jwt-payload'' [(''x-jwt-payload'', base64_Encode True sample_payload)]
     = Inr sample_claims \<and> enrichRoles sample_claims = [''user'']"
proof -
  have "enrichRoles sample_claims = [''user'']" by code_simp
  moreover have "jc_Subject sample_claims \<noteq> []" by (simp add: sample_claims_def)
  ultimately show ?thesis
    using extractClaims_payload [of "[(''x-jwt-payload'', base64_Encode True sample_payload)]"
        "''x-jwt-payload''" True sample_payload rev]
    by (simp add: sample_payload_claims)
qed

theorem lookupHeader_missing_witness:
  "extractClaims rev ''x-jwt-payload'' [(''host'', ''h'')] = Inl (PayloadHeaderMissing ''x-jwt-payload'')"
proof -
  have "\<forall>(k, v) \<in> set [(''host'', ''h'')]. strings_ToLower k \<noteq> strings_ToLower ''x-jwt-payload''"
    by (simp add: ToLower_ascii ascii_def lower_byte_def)
  then show ?thesis
    using lookupHeader_missing [OF range_order_rev, where headers = "[(''host'', ''h'')]"
        and ph = "''x-jwt-payload''"] by auto
qed

theorem actionForMethod_read_witness:
  "actionForMethod ''get'' = ''READ'' \<and> actionForMethod ''PATCH'' = ''WRITE''"
proof -
  have "map upper_byte ''get'' = ''GET''" "map upper_byte ''PATCH'' = ''PATCH''" by code_simp+
  moreover have "ascii ''get''" "ascii ''PATCH''" by (simp_all add: ascii_def)
  ultimately show ?thesis
    using actionForMethod_read [of "''get''"] actionForMethod_read [of "''PATCH''"] by auto
qed

end
