(* ===== verification/Pep.thy ===== *)
theory Pep
  imports Extauthz
begin

text \<open>
  The reverse proxy of the httpbin example, \<open>examples/httpbin/pep/main.go\<close>: the request handler
  that asks the engine and proxies or refuses, and the client address.  The headers of a
  request are a map from canonical names to values, as in \<open>net/http\<close>.  A refusal is the reply
  that \<open>writeJSON\<close> writes; the proxied exchange itself is not modelled.
\<close>

record http_request =
  hr_headers :: "(string, string list) gomap"
  hr_method :: string
  hr_path :: string
  hr_remoteAddr :: string

definition header_Values :: "(string, string list) gomap \<Rightarrow> string \<Rightarrow> string list" where
  "header_Values h key = (case gomap_get h key of Some vs \<Rightarrow> vs | None \<Rightarrow> [])"

definition header_Get :: "(string, string list) gomap \<Rightarrow> string \<Rightarrow> string" where
  "header_Get h key = (case header_Values h key of v # _ \<Rightarrow> v | [] \<Rightarrow> [])"

subsection \<open>net.SplitHostPort\<close>

text \<open>The position of the last and of the first occurrence of a byte.\<close>

fun index_byte :: "string \<Rightarrow> char \<Rightarrow> nat option" where
  "index_byte [] b = None"
| "index_byte (c # cs) b = (if c = b then Some 0 else map_option Suc (index_byte cs b))"

definition last_index_byte :: "string \<Rightarrow> char \<Rightarrow> nat option" where
  "last_index_byte s b = map_option (\<lambda>i. length s - 1 - i) (index_byte (rev s) b)"

text \<open>The host and the port, or \<open>None\<close> for any of the address errors.\<close>

definition SplitHostPort :: "string \<Rightarrow> (string \<times> string) option" where
  "SplitHostPort hostport =
     (case last_index_byte hostport (CHR '':'') of
        None \<Rightarrow> None
      | Some i \<Rightarrow>
          (case (if hd hostport = CHR ''['' then
                   (case index_byte hostport (CHR '']'') of
                      None \<Rightarrow> None
                    | Some e \<Rightarrow>
                        if e + 1 = length hostport \<or> e + 1 \<noteq> i then None
                        else Some (take (e - 1) (drop 1 hostport), 1, e + 1))
                 else if CHR '':'' \<in> set (take i hostport) then None
                 else Some (take i hostport, 0, 0)) of
             None \<Rightarrow> None
           | Some (host, j, k) \<Rightarrow>
               if CHR ''['' \<in> set (drop j hostport) then None
               else if CHR '']'' \<in> set (drop k hostport) then None
               else Some (host, drop (i + 1) hostport)))"

definition clientIP :: "http_request \<Rightarrow> string" where
  "clientIP r =
     (case SplitHostPort (hr_remoteAddr r) of
        None \<Rightarrow> hr_remoteAddr r
      | Some (host, _) \<Rightarrow> host)"

subsection \<open>The handler\<close>

text \<open>The package has its own copies of two functions of the Envoy adapter.\<close>

definition pep_actionForMethod :: "string \<Rightarrow> string" where
  "pep_actionForMethod method =
     (if strings_ToUpper method \<in> {''GET'', ''HEAD'', ''OPTIONS''} then ''READ'' else ''WRITE'')"

definition pep_envOr :: "(string \<Rightarrow> string) \<Rightarrow> string \<Rightarrow> string \<Rightarrow> string" where
  "pep_envOr getenv key def = (let v = getenv key in if v \<noteq> [] then v else def)"

lemma pep_copies [simp]: "pep_actionForMethod = actionForMethod" "pep_envOr = envOr"
  by (simp_all add: fun_eq_iff pep_actionForMethod_def actionForMethod_def pep_envOr_def envOr_def)

record http_reply =
  rp_status :: int
  rp_headers :: "(string, string list) gomap"
  rp_body :: string

definition writeJSON :: "int \<Rightarrow> (string, body_value) gomap \<Rightarrow> http_reply" where
  "writeJSON status body =
     \<lparr>rp_status = status, rp_headers = [(''Content-Type'', [''application/json''])],
      rp_body = json_Encode_indent body\<rparr>"

datatype pep_result = Proxied | Refused http_reply

definition pep_request :: "http_request \<Rightarrow> CheckAccessRequest" where
  "pep_request r =
     (let user = header_Get (hr_headers r) ''X-User'';
          principalID = (if user = [] then ''anonymous'' else user)
      in \<lparr>crq_PrincipalId = principalID,
          crq_PrincipalAttributes = [(''role'', Some \<lparr>av_Values = header_Values (hr_headers r) ''X-Role''\<rparr>)],
          crq_ResourceType = ''httpbin'',
          crq_ResourceId = hr_path r,
          crq_ResourceAttributes = [],
          crq_Action = pep_actionForMethod (hr_method r),
          crq_EnvironmentAttributes = [(''ip_address'', Some \<lparr>av_Values = [clientIP r]\<rparr>)]\<rparr>)"

definition pep_handler :: "(CheckAccessRequest \<Rightarrow> string + CheckAccessResponse) \<Rightarrow> http_request \<Rightarrow> pep_result" where
  "pep_handler client r =
     (case client (pep_request r) of
        Inl err \<Rightarrow>
          Refused (writeJSON 503
            [(''allowed'', BodyBool False),
             (''reason'', BodyString ''authorization engine unavailable'')])
      | Inr resp \<Rightarrow>
          if \<not> GetAllowed (Some resp) then
            Refused (writeJSON 403
              [(''allowed'', BodyBool False),
               (''reason'', BodyString (GetReason (Some resp))),
               (''matched_policy_id'', BodyString (GetMatchedPolicyId (Some resp))),
               (''evaluation_time_ns'', BodyInt (GetEvaluationTimeNs (Some resp)))])
          else Proxied)"

text \<open>
  The reverse proxy forwards a request exactly when the engine answered and allowed it; an
  engine that cannot be reached gives 503, and a denial 403.
\<close>

theorem pep_handler_fail_closed:
  "case client (pep_request r) of
     Inl _ \<Rightarrow> \<exists>reply. pep_handler client r = Refused reply \<and> rp_status reply = 503
   | Inr resp \<Rightarrow>
       (if crs_Allowed resp then pep_handler client r = Proxied
        else \<exists>reply. pep_handler client r = Refused reply \<and> rp_status reply = 403)"
  by (simp add: pep_handler_def writeJSON_def split: sum.split)

subsection \<open>What a refused client reads\<close>

text \<open>The members of a denial by the engine, and of a refusal without an answer.\<close>

definition denial_body :: "CheckAccessResponse \<Rightarrow> (string, body_value) gomap" where
  "denial_body resp =
     [(''allowed'', BodyBool False), (''reason'', BodyString (crs_Reason resp)),
      (''matched_policy_id'', BodyString (crs_MatchedPolicyId resp)),
      (''evaluation_time_ns'', BodyInt (crs_EvaluationTimeNs resp))]"

definition reason_body :: "string \<Rightarrow> (string, body_value) gomap" where
  "reason_body reason = [(''allowed'', BodyBool False), (''reason'', BodyString reason)]"

text \<open>A document that is an object with exactly the given members.\<close>

definition reads_as :: "string \<Rightarrow> (string \<times> json) list \<Rightarrow> bool" where
  "reads_as doc members \<longleftrightarrow> (\<exists>kvs. json_parse doc = Some (JObj kvs) \<and> map_of kvs = map_of members)"

text \<open>The members that a client reads in a denial by the engine, and in a refusal without an answer.\<close>

definition denial_members :: "CheckAccessResponse \<Rightarrow> (string \<times> json) list" where
  "denial_members resp =
     [(''allowed'', JBool False), (''reason'', JStr (to_valid_utf8 (crs_Reason resp))),
      (''matched_policy_id'', JStr (to_valid_utf8 (crs_MatchedPolicyId resp))),
      (''evaluation_time_ns'', JNum (Itoa (crs_EvaluationTimeNs resp)))]"

definition reason_members :: "string \<Rightarrow> (string \<times> json) list" where
  "reason_members reason = [(''allowed'', JBool False), (''reason'', JStr (to_valid_utf8 reason))]"

lemma body_keys_valid:
  "valid_utf8 ''allowed''" "valid_utf8 ''reason''" "valid_utf8 ''matched_policy_id''"
  "valid_utf8 ''evaluation_time_ns''"
  by (rule valid_ascii, simp)+

lemma reads_as_body:
  assumes "json_parse doc = Some (body_json m)" "gomap_ok m" "\<forall>k \<in> fst ` set m. valid_utf8 k"
    and "\<And>k. map_of members k = map_option value_json (gomap_get m k)"
  shows "reads_as doc members"
  using body_json_lookup [OF assms(2,3)] assms(1,4) unfolding reads_as_def by (metis ext)

lemma bodies_ok:
  "gomap_ok (denial_body resp)" "\<forall>k \<in> fst ` set (denial_body resp). valid_utf8 k"
  "map_of (denial_members resp) k = map_option value_json (gomap_get (denial_body resp) k)"
  "gomap_ok (reason_body reason)" "\<forall>k \<in> fst ` set (reason_body reason). valid_utf8 k"
  "map_of (reason_members reason) k = map_option value_json (gomap_get (reason_body reason) k)"
  by (simp_all add: denial_body_def reason_body_def denial_members_def reason_members_def gomap_ok_def
      body_keys_valid)

lemma refusal_texts:
  "reads_as (json_Marshal (denial_body resp)) (denial_members resp)"
  "reads_as (json_Marshal (reason_body reason)) (reason_members reason)"
  "reads_as (json_Encode_indent (denial_body resp)) (denial_members resp)"
  "reads_as (json_Encode_indent (reason_body reason)) (reason_members reason)"
  by (rule reads_as_body [OF json_parse_Marshal bodies_ok(1-3)]
      reads_as_body [OF json_parse_Marshal bodies_ok(4-6)]
      reads_as_body [OF json_parse_Encode_indent bodies_ok(1-3)]
      reads_as_body [OF json_parse_Encode_indent bodies_ok(4-6)])+

lemma pep_handler_bodies:
  "pep_handler client r =
     (case client (pep_request r) of
        Inl err \<Rightarrow> Refused (writeJSON 503 (reason_body ''authorization engine unavailable''))
      | Inr resp \<Rightarrow> if \<not> crs_Allowed resp then Refused (writeJSON 403 (denial_body resp)) else Proxied)"
  by (simp add: pep_handler_def reason_body_def denial_body_def split: sum.split)

text \<open>What an enforcement point says to a client when the call of the engine gave \<open>answer\<close>.\<close>

definition refusal_says :: "string + CheckAccessResponse \<Rightarrow> int \<Rightarrow> string \<Rightarrow> bool" where
  "refusal_says answer status doc \<longleftrightarrow>
     (case answer of
        Inl _ \<Rightarrow> status = 503 \<and> reads_as doc (reason_members ''authorization engine unavailable'')
      | Inr resp \<Rightarrow> status = 403 \<and> reads_as doc (denial_members resp))"

text \<open>
  C33: a refused client can read the refusal.  Whatever bytes the reason and the identifier of
  the policy hold, a refusal is a JSON object with its status: 503 and the missing engine as the
  reason when the engine did not answer, 403 and the reason, the policy and the evaluation time
  of the engine when it denied, and, in the Envoy adapter, 401 and what is wrong with the
  identity when the payload was not accepted; "allowed" is false in each of them, there are no
  other members, and ill-formed UTF-8 is replaced.  The reverse proxy declares its reply as JSON.
\<close>

theorem refusals_are_readable:
  "(\<forall>reply. pep_handler client r = Refused reply \<longrightarrow>
      refusal_says (client (pep_request r)) (rp_status reply) (rp_body reply)
      \<and> gomap_get (rp_headers reply) ''Content-Type'' = Some [''application/json''])
   \<and> (\<forall>status body headers. cr_http (Check et ord ph client req) = DeniedHttpResponse status body headers \<longrightarrow>
        (case extractClaims ord ph (ck_headers req) of
           Inl err \<Rightarrow> status = 401 \<and> reads_as body (reason_members (et err))
         | Inr claims \<Rightarrow> refusal_says (client (authz_request req claims)) status body))"
  using refusal_texts
  by (auto simp: pep_handler_bodies Check_def denyJSON_def writeJSON_def refusal_says_def
      reason_body_def [symmetric] denial_body_def [symmetric] split: sum.splits if_splits)

context decision_service
begin

lemma pep_enforces:
  "usable s \<Longrightarrow> pep_handler (rpc_client fault serve s) r = Proxied \<Longrightarrow> decides s (pep_request r)"
  using client_decides by (fastforce simp: pep_handler_def split: sum.splits if_splits)

end

subsection \<open>The client address\<close>

lemma index_byte_none: "b \<notin> set s \<Longrightarrow> index_byte s b = None"
  by (induction s) auto

lemma index_byte_app: "b \<notin> set s \<Longrightarrow> index_byte (s @ b # t) b = Some (length s)"
  by (induction s) auto

lemma last_index_byte_app: "b \<notin> set t \<Longrightarrow> last_index_byte (s @ b # t) b = Some (length s)"
  by (simp add: last_index_byte_def index_byte_app)

definition no_brackets :: "string \<Rightarrow> bool" where
  "no_brackets s \<longleftrightarrow> CHR ''['' \<notin> set s \<and> CHR '']'' \<notin> set s"

lemma SplitHostPort_plain:
  assumes "CHR '':'' \<notin> set host" "no_brackets host" "CHR '':'' \<notin> set port" "no_brackets port"
  shows "SplitHostPort (host @ CHR '':'' # port) = Some (host, port)"
proof -
  have "hd (host @ CHR '':'' # port) \<noteq> CHR ''[''"
    using assms(2) by (cases host) (auto simp: no_brackets_def)
  then show ?thesis
    using assms by (simp add: SplitHostPort_def last_index_byte_app no_brackets_def)
qed

lemma SplitHostPort_bracketed:
  assumes "no_brackets host" "CHR '':'' \<notin> set port" "no_brackets port"
  shows "SplitHostPort (CHR ''['' # host @ CHR '']'' # CHR '':'' # port) = Some (host, port)"
proof -
  let ?s = "CHR ''['' # host @ CHR '']'' # CHR '':'' # port"
  have "last_index_byte ?s (CHR '':'') = Some (length host + 2)"
    using last_index_byte_app [OF assms(2), of "CHR ''['' # host @ [CHR '']'']"] by simp
  moreover have "index_byte ?s (CHR '']'') = Some (length host + 1)"
    using index_byte_app [of "CHR '']''" "CHR ''['' # host" "CHR '':'' # port"] assms(1)
    by (simp add: no_brackets_def)
  ultimately show ?thesis
    using assms by (simp add: SplitHostPort_def no_brackets_def)
qed

text \<open>
  The client address is the host part of the connection's address, for a plain host and for
  a bracketed IPv6 host; an address that does not split is used whole.
\<close>

theorem clientIP_host:
  assumes "no_brackets host" "CHR '':'' \<notin> set port" "no_brackets port"
  shows "(CHR '':'' \<notin> set host \<longrightarrow> clientIP (r\<lparr>hr_remoteAddr := host @ CHR '':'' # port\<rparr>) = host)
    \<and> clientIP (r\<lparr>hr_remoteAddr := CHR ''['' # host @ CHR '']'' # CHR '':'' # port\<rparr>) = host
    \<and> clientIP (r\<lparr>hr_remoteAddr := port\<rparr>) = port"
proof -
  have "SplitHostPort port = None"
    using assms(2) by (simp add: SplitHostPort_def last_index_byte_def index_byte_none)
  then show ?thesis
    using SplitHostPort_plain [OF _ assms] SplitHostPort_bracketed [OF assms]
    by (simp add: clientIP_def)
qed

definition sample_http :: http_request where
  "sample_http = \<lparr>hr_headers = [(''X-Role'', [''admin''])], hr_method = ''GET'', hr_path = ''/get'',
     hr_remoteAddr = ''10.0.0.7:5555''\<rparr>"

theorem refusals_are_readable_witness:
  "\<exists>reply. pep_handler (\<lambda>_. Inl ''timeout'') sample_http = Refused reply \<and> rp_status reply = 503
     \<and> reads_as (rp_body reply) (reason_members ''authorization engine unavailable'')"
  using conjunct1 [OF refusals_are_readable [of "\<lambda>_. Inl ''timeout''" sample_http]]
  by (simp add: pep_handler_def refusal_says_def)

text \<open>The bytes of a small refusal, with the escapes for HTML.\<close>

lemma sample_refusal_text:
  \<open>rp_body (writeJSON 403 (reason_body ''a<b''))
     = CHR 0x7B # newline @ ''  "allowed": false,'' @ newline
         @ ''  "reason": "a'' @ CHR 0x5C # ''u003cb"'' @ newline @ CHR 0x7D # newline\<close>
  by code_simp

theorem clientIP_host_witness:
  "clientIP (sample_http\<lparr>hr_remoteAddr := ''10.0.0.7:80''\<rparr>) = ''10.0.0.7''
   \<and> clientIP (sample_http\<lparr>hr_remoteAddr := ''[::1]:80''\<rparr>) = ''::1''"
  using clientIP_host [of "''10.0.0.7''" "''80''" sample_http] clientIP_host [of "''::1''" "''80''" sample_http]
  by (simp add: no_brackets_def)

end
