(* ===== verification/Seeding.thy ===== *)
theory Seeding
  imports Subscriber "HOL-Library.List_Lexorder" "HOL-Library.Char_ord"
begin

text \<open>
  Loading policy files and seeding them through the stream, \<open>loadPolicyFiles\<close> and
  \<open>seedPolicies\<close> of \<open>examples/envoy-jwt/extauthz/main.go\<close> (the reverse proxy of
  \<open>examples/httpbin/pep/main.go\<close> has the same two functions).

  A directory is the list of entries that \<open>os.ReadDir\<close> returns, each with what reading it
  gives.  \<open>sort.Slice\<close> is not stable, so the sort is a parameter with a law.  The environment
  of the retry loop is the list of its rounds: a failed publish may or may not have reached
  the stream, so a failed round carries the number of entries that did.
\<close>

record dir_entry =
  de_name :: string
  de_isDir :: bool
  de_data :: "string option"

record policyFile =
  pf_id :: string
  pf_json :: string

definition strings_HasSuffix :: "string \<Rightarrow> string \<Rightarrow> bool" where
  "strings_HasSuffix s suf =
     (length suf \<le> length s \<and> drop (length s - length suf) s = suf)"

definition meta_field :: "string \<Rightarrow> string \<Rightarrow> json \<Rightarrow> string option" where
  "meta_field i k v = (if key_is k ''id'' then decode_string i v else Some i)"

definition Unmarshal_meta :: "string \<Rightarrow> string option" where
  "Unmarshal_meta s = Option.bind (json_parse s) (decode_struct meta_field [])"

fun collect_files :: "dir_entry list \<Rightarrow> policyFile list" where
  "collect_files [] = []"
| "collect_files (e # es) =
     (if de_isDir e \<or> \<not> strings_HasSuffix (de_name e) ''.json'' then collect_files es
      else
        (case de_data e of
           None \<Rightarrow> collect_files es
         | Some data \<Rightarrow>
             (case Unmarshal_meta data of
                None \<Rightarrow> collect_files es
              | Some i \<Rightarrow>
                  if i = [] then collect_files es
                  else \<lparr>pf_id = i, pf_json = data\<rparr> # collect_files es)))"

definition loadPolicyFiles ::
  "(policyFile list \<Rightarrow> policyFile list) \<Rightarrow> dir_entry list option \<Rightarrow> policyFile list" where
  "loadPolicyFiles sort_slice dir =
     (case dir of None \<Rightarrow> [] | Some entries \<Rightarrow> sort_slice (collect_files entries))"

definition sorts_by_id :: "(policyFile list \<Rightarrow> policyFile list) \<Rightarrow> bool" where
  "sorts_by_id f \<longleftrightarrow> (\<forall>xs. mset (f xs) = mset xs \<and> sorted (map pf_id (f xs)))"

lemma sorts_by_id_sort_key: "sorts_by_id (sort_key pf_id)"
  by (simp add: sorts_by_id_def)

datatype seed_round = PublishFailed nat | AllPublished

text \<open>The entries appended, the pauses in milliseconds, and whether the loop has returned.\<close>

record seed_result =
  sr_entries :: "entry_values list"
  sr_sleeps :: "nat list"
  sr_done :: bool

definition file_entry :: "policyFile \<Rightarrow> entry_values" where
  "file_entry f = Publish_values ActionUpsert (pf_id f) (pf_json f)"

definition maxBackoff :: nat where "maxBackoff = 5000"

fun seed_loop :: "policyFile list \<Rightarrow> nat \<Rightarrow> seed_round list \<Rightarrow> seed_result \<Rightarrow> seed_result" where
  "seed_loop files backoff [] res = res"
| "seed_loop files backoff (PublishFailed n # rs) res =
     seed_loop files (min (backoff * 2) maxBackoff) rs
       (res\<lparr>sr_entries := sr_entries res @ map file_entry (take n files),
            sr_sleeps := sr_sleeps res @ [backoff]\<rparr>)"
| "seed_loop files backoff (AllPublished # rs) res =
     res\<lparr>sr_entries := sr_entries res @ map file_entry files, sr_done := True\<rparr>"

definition seedPolicies :: "policyFile list \<Rightarrow> seed_round list \<Rightarrow> seed_result" where
  "seedPolicies files rs =
     (if files = [] then \<lparr>sr_entries = [], sr_sleeps = [], sr_done = True\<rparr>
      else seed_loop files 500 rs \<lparr>sr_entries = [], sr_sleeps = [], sr_done = False\<rparr>)"

subsection \<open>Loading\<close>

definition usable_file :: "dir_entry \<Rightarrow> policyFile \<Rightarrow> bool" where
  "usable_file e f \<longleftrightarrow> \<not> de_isDir e \<and> strings_HasSuffix (de_name e) ''.json''
     \<and> de_data e = Some (pf_json f) \<and> Unmarshal_meta (pf_json f) = Some (pf_id f) \<and> pf_id f \<noteq> []"

lemma collect_files_set: "set (collect_files es) = {f. \<exists>e \<in> set es. usable_file e f}"
proof (induction es)
  case (Cons e es)
  have "{f. usable_file e f} = (if de_isDir e \<or> \<not> strings_HasSuffix (de_name e) ''.json'' then {}
      else (case de_data e of None \<Rightarrow> {} | Some data \<Rightarrow>
        (case Unmarshal_meta data of None \<Rightarrow> {} | Some i \<Rightarrow>
           if i = [] then {} else {\<lparr>pf_id = i, pf_json = data\<rparr>})))"
    by (auto simp: usable_file_def split: option.split)
  moreover have "{f. \<exists>x \<in> set (e # es). usable_file x f} = {f. usable_file e f} \<union> set (collect_files es)"
    using Cons.IH by auto
  ultimately show ?case by (auto split: option.splits)
qed simp

text \<open>
  Loading gives exactly the usable files, sorted by identifier: regular entries with the
  suffix .json that can be read, parse, and have a non-empty identifier; one bad file never
  hides another, and an unreadable directory gives no file.
\<close>

theorem loadPolicyFiles_usable:
  assumes "sorts_by_id sort_slice"
  shows "set (loadPolicyFiles sort_slice dir)
      = {f. \<exists>entries. dir = Some entries \<and> (\<exists>e \<in> set entries. usable_file e f)}
    \<and> sorted (map pf_id (loadPolicyFiles sort_slice dir))"
proof (cases dir)
  case (Some entries)
  have "mset (sort_slice (collect_files entries)) = mset (collect_files entries)"
    using assms by (simp add: sorts_by_id_def)
  then have "set (sort_slice (collect_files entries)) = set (collect_files entries)"
    by (metis set_mset_mset)
  then show ?thesis
    using assms Some by (simp add: loadPolicyFiles_def collect_files_set sorts_by_id_def)
qed (simp add: loadPolicyFiles_def)

subsection \<open>Retries are harmless\<close>

lemma table_update_apply:
  "table_update tab u k = (if k = update_key u then (case u of Upsert p \<Rightarrow> Some p | Delete _ \<Rightarrow> None) else tab k)"
  by (cases u) auto

lemma foldl_table_update:
  "foldl table_update tab us k =
     (if k \<in> update_key ` set us then foldl table_update (\<lambda>_. None) us k else tab k)"
proof (induction us arbitrary: tab)
  case (Cons u us)
  show ?case
    using Cons.IH [of "table_update tab u"] Cons.IH [of "table_update (\<lambda>_. None) u"]
    by (auto simp: table_update_apply)
qed simp

lemma foldl_table_absorb:
  "update_key ` set vs \<subseteq> update_key ` set us \<Longrightarrow>
     foldl table_update (foldl table_update tab vs) us = foldl table_update tab us"
proof (rule ext)
  fix k
  assume "update_key ` set vs \<subseteq> update_key ` set us"
  then show "foldl table_update (foldl table_update tab vs) us k = foldl table_update tab us k"
    using foldl_table_update [of "foldl table_update tab vs" us k] foldl_table_update [of tab us k]
      foldl_table_update [of tab vs k]
    by (auto simp: subset_iff)
qed

definition files_updates :: "'r regexp_lib \<Rightarrow> policyFile list \<Rightarrow> 'r update list" where
  "files_updates rx files = concat (map (entry_updates rx \<circ> file_entry) files)"

definition entries_updates :: "'r regexp_lib \<Rightarrow> entry_values list \<Rightarrow> 'r update list" where
  "entries_updates rx es = concat (map (entry_updates rx) es)"

lemma entries_updates_append [simp]:
  "entries_updates rx (es @ fs) = entries_updates rx es @ entries_updates rx fs"
  by (simp add: entries_updates_def)

lemma entries_updates_files [simp]: "entries_updates rx (map file_entry files) = files_updates rx files"
  by (simp add: entries_updates_def files_updates_def comp_def)

lemma files_updates_take: "set (files_updates rx (take n files)) \<subseteq> set (files_updates rx files)"
  by (auto simp: files_updates_def dest: in_set_takeD)

lemma seed_loop_entries:
  "sr_done (seed_loop files b rs res) \<Longrightarrow> \<not> sr_done res \<Longrightarrow>
     foldl table_update tab (entries_updates rx (sr_entries (seed_loop files b rs res)))
       = foldl table_update (foldl table_update tab (entries_updates rx (sr_entries res)))
           (files_updates rx files)"
proof (induction files b rs res rule: seed_loop.induct)
  case (2 files b n rs res)
  have "update_key ` set (files_updates rx (take n files)) \<subseteq> update_key ` set (files_updates rx files)"
    by (rule image_mono) (rule files_updates_take)
  with 2 show ?case by (simp add: foldl_table_absorb)
qed simp_all

lemma seeding_table:
  assumes "sr_done (seedPolicies files rs)"
  shows "foldl table_update tab (entries_updates rx (sr_entries (seedPolicies files rs)))
    = foldl table_update tab (files_updates rx files)"
  using assms seed_loop_entries [of files 500 rs "\<lparr>sr_entries = [], sr_sleeps = [], sr_done = False\<rparr>" tab rx]
  by (auto simp: seedPolicies_def files_updates_def entries_updates_def split: if_splits)

text \<open>
  Retrying is harmless.  However often the seeding fails on the way and starts over, and
  however much of a failed round reached the stream, once it returns the entries it appended
  bring any table of policies to the state that publishing every file once would.
\<close>

theorem seedPolicies_retries_harmless:
  assumes "sr_done (seedPolicies files rs)"
  shows "foldl table_update tab (entries_updates rx (sr_entries (seedPolicies files rs)))
    = foldl table_update tab (files_updates rx files)"
  by (rule seeding_table [OF assms])

subsection \<open>The pauses\<close>

lemma min_double: "min (min (a * 2 ^ i) m * 2) m = min (a * 2 ^ Suc i) (m :: nat)"
  by (simp add: min_def)

lemma seed_loop_sleeps:
  "b = min (500 * 2 ^ i) maxBackoff \<Longrightarrow> sr_sleeps res = map (\<lambda>j. min (500 * 2 ^ j) maxBackoff) [0..<i] \<Longrightarrow>
     \<exists>k. sr_sleeps (seed_loop files b rs res) = map (\<lambda>j. min (500 * 2 ^ j) maxBackoff) [0..<k]"
proof (induction files b rs res arbitrary: i rule: seed_loop.induct)
  case (2 files b n rs res)
  show ?case
    unfolding seed_loop.simps
    by (rule "2.IH" [of "Suc i"]) (use "2.prems" in \<open>simp_all add: min_double\<close>)
qed auto

text \<open>
  The pauses double from half a second and never exceed five seconds: the pause after the
  failure number j (from 0) is the smaller of 500 times 2 to the j and 5000 milliseconds.
\<close>

theorem seedPolicies_backoff:
  "sr_sleeps (seedPolicies files rs)
     = map (\<lambda>j. min (500 * 2 ^ j) 5000) [0..<length (sr_sleeps (seedPolicies files rs))]"
proof (cases "files = []")
  case False
  have "\<exists>k. sr_sleeps (seed_loop files 500 rs \<lparr>sr_entries = [], sr_sleeps = [], sr_done = False\<rparr>)
      = map (\<lambda>j. min (500 * 2 ^ j) maxBackoff) [0..<k]"
    by (rule seed_loop_sleeps [of _ 0]) (simp_all add: maxBackoff_def)
  then obtain k where "sr_sleeps (seedPolicies files rs) = map (\<lambda>j. min (500 * 2 ^ j) 5000) [0..<k]"
    using False by (auto simp: seedPolicies_def maxBackoff_def)
  then show ?thesis by (metis diff_zero length_map length_upt)
qed (simp add: seedPolicies_def)

text \<open>
  Seeding waits for the stream: it returns exactly when there is nothing to publish or
  some round publishes every file, so a Redis that comes up late delays the start but is not
  skipped.
\<close>

theorem seedPolicies_returns:
  "sr_done (seedPolicies files rs) \<longleftrightarrow> files = [] \<or> AllPublished \<in> set rs"
proof -
  have "sr_done (seed_loop files b rs res) \<longleftrightarrow> sr_done res \<or> AllPublished \<in> set rs" for b res
  proof (induction rs arbitrary: b res)
    case (Cons r rs)
    then show ?case by (cases r) auto
  qed simp
  then show ?thesis by (simp add: seedPolicies_def)
qed

subsection \<open>Examples for the witnesses\<close>

definition sample_dir :: "dir_entry list" where
  "sample_dir =
     [\<lparr>de_name = ''b.json'', de_isDir = False, de_data = Some sample_document\<rparr>,
      \<lparr>de_name = ''c.json'', de_isDir = False, de_data = None\<rparr>,
      \<lparr>de_name = ''README'', de_isDir = False, de_data = Some []\<rparr>]"

definition sample_file :: policyFile where
  "sample_file = \<lparr>pf_id = ''a'', pf_json = sample_document\<rparr>"

lemma sample_meta: "Unmarshal_meta sample_document = Some ''a''"
  by code_simp

theorem loadPolicyFiles_usable_witness:
  "set (loadPolicyFiles (sort_key pf_id) (Some sample_dir)) = {sample_file}"
proof -
  have "{f. \<exists>entries. Some sample_dir = Some entries \<and> (\<exists>e \<in> set entries. usable_file e f)} = {sample_file}"
    using sample_meta
    by (auto simp: sample_dir_def usable_file_def strings_HasSuffix_def sample_file_def)
  then show ?thesis
    using conjunct1 [OF loadPolicyFiles_usable [OF sorts_by_id_sort_key, of "Some sample_dir"]] by simp
qed

theorem seedPolicies_retries_harmless_witness:
  "foldl table_update (\<lambda>_. None) (entries_updates literal_regexp
      (sr_entries (seedPolicies [sample_file, sample_file] [PublishFailed 1, PublishFailed 0, AllPublished])))
    = foldl table_update (\<lambda>_. None) (files_updates literal_regexp [sample_file, sample_file])"
  by (rule seedPolicies_retries_harmless) (simp add: seedPolicies_def)

end
