(* ===== verification/Edge_Programs.thy ===== *)
theory Edge_Programs
  imports Pep Seeding Bouncer_System
begin

text \<open>
  The \<open>main\<close> functions of the two enforcement points, \<open>examples/httpbin/pep/main.go\<close> and
  \<open>examples/envoy-jwt/extauthz/main.go\<close>: configuration, dialling, seeding, and serving up to
  the end of the process.  The environment answers every call that leaves the program: the
  variables, the dial, the directory, the rounds of seeding, the parse of the upstream URL, the
  listener, and what the serving call returns, if it has returned.
\<close>

subsection \<open>Configuration\<close>

record pep_config =
  pc_engineAddr :: string
  pc_redisAddr :: string
  pc_httpbinTarget :: string
  pc_listenAddr :: string
  pc_policiesDir :: string

definition pep_variables :: "(string \<Rightarrow> string) \<Rightarrow> pep_config" where
  "pep_variables getenv =
     \<lparr>pc_engineAddr = pep_envOr getenv ''BOUNCER_ENGINE_ADDR'' ''bouncer-engine:50051'',
      pc_redisAddr = pep_envOr getenv ''REDIS_ADDR'' DefaultAddr,
      pc_httpbinTarget = pep_envOr getenv ''HTTPBIN_TARGET'' ''http://httpbin'',
      pc_listenAddr = pep_envOr getenv ''PEP_LISTEN_ADDR'' '':8080'',
      pc_policiesDir = pep_envOr getenv ''POLICIES_DIR'' ''/policies''\<rparr>"

record extauthz_config =
  xc_engineAddr :: string
  xc_redisAddr :: string
  xc_listenAddr :: string
  xc_policiesDir :: string
  xc_payloadHeader :: string
  xc_engineTimeout :: int

definition extauthz_variables :: "(string \<Rightarrow> string) \<Rightarrow> extauthz_config" where
  "extauthz_variables getenv =
     \<lparr>xc_engineAddr = envOr getenv ''BOUNCER_ENGINE_ADDR'' ''bouncer-engine:50051'',
      xc_redisAddr = envOr getenv ''REDIS_ADDR'' DefaultAddr,
      xc_listenAddr = envOr getenv ''EXTAUTHZ_LISTEN_ADDR'' '':9191'',
      xc_policiesDir = envOr getenv ''POLICIES_DIR'' ''/policies'',
      xc_payloadHeader = payloadHeader getenv,
      xc_engineTimeout = 2 * time_Second\<rparr>"

subsection \<open>Start-up and serving\<close>

text \<open>
  \<open>seedPolicies\<close> on a directory.  The package of the reverse proxy declares the same two
  functions again, text for text.
\<close>

definition seedPolicies_dir ::
  "(policyFile list \<Rightarrow> policyFile list) \<Rightarrow> dir_entry list option \<Rightarrow> seed_round list \<Rightarrow> seed_result" where
  "seedPolicies_dir sort_slice dir rounds = seedPolicies (loadPolicyFiles sort_slice dir) rounds"

definition pep_loadPolicyFiles where "pep_loadPolicyFiles = loadPolicyFiles"

definition pep_seedPolicies where
  "pep_seedPolicies sort_slice dir rounds = seedPolicies (pep_loadPolicyFiles sort_slice dir) rounds"

record edge_env =
  ee_getenv :: "string \<Rightarrow> string"
  ee_dial :: "string \<Rightarrow> bool"
  ee_ReadDir :: "string \<Rightarrow> dir_entry list option"
  ee_sort :: "policyFile list \<Rightarrow> policyFile list"
  ee_rounds :: "seed_round list"
  ee_url_Parse :: "string \<Rightarrow> bool"
  ee_listen :: "string \<Rightarrow> bool"

text \<open>A program has exited with a status, is still seeding, or serves with its configuration.\<close>

datatype 'c edge_state = Exited int | StillSeeding | Serving 'c

definition pep_main :: "edge_env \<Rightarrow> entry_values list \<times> pep_config edge_state" where
  "pep_main env =
     (let cfg = pep_variables (ee_getenv env) in
      if \<not> ee_dial env (pc_engineAddr cfg) then ([], Exited 1)
      else
        (let seeding = pep_seedPolicies (ee_sort env) (ee_ReadDir env (pc_policiesDir cfg)) (ee_rounds env) in
         if \<not> sr_done seeding then (sr_entries seeding, StillSeeding)
         else if \<not> ee_url_Parse env (pc_httpbinTarget cfg) then (sr_entries seeding, Exited 1)
         else (sr_entries seeding, Serving cfg)))"

definition extauthz_main :: "edge_env \<Rightarrow> entry_values list \<times> extauthz_config edge_state" where
  "extauthz_main env =
     (let cfg = extauthz_variables (ee_getenv env) in
      if \<not> ee_dial env (xc_engineAddr cfg) then ([], Exited 1)
      else
        (let seeding = seedPolicies_dir (ee_sort env) (ee_ReadDir env (xc_policiesDir cfg)) (ee_rounds env) in
         if \<not> sr_done seeding then (sr_entries seeding, StillSeeding)
         else if \<not> ee_listen env (xc_listenAddr cfg) then (sr_entries seeding, Exited 1)
         else (sr_entries seeding, Serving cfg)))"

text \<open>
  The end of \<open>main\<close> when the serving call returns: an error ends the process with status 1; no
  error, which gRPC returns after the graceful stop that a signal starts, lets \<open>main\<close> return.
\<close>

definition edge_serve_returned :: "string option \<Rightarrow> 'c edge_state" where
  "edge_serve_returned err = (case err of Some e \<Rightarrow> Exited 1 | None \<Rightarrow> Exited 0)"

text \<open>The reverse proxy has no way to stop: \<open>ListenAndServe\<close> returns an error if it returns.\<close>

definition pep_serve_returned :: "string \<Rightarrow> 'c edge_state" where
  "pep_serve_returned err = Exited 1"

subsection \<open>No request is served before the policies are on the stream\<close>

lemma pep_serving:
  "pep_main env = (entries, Serving cfg) \<Longrightarrow>
     cfg = pep_variables (ee_getenv env)
     \<and> (\<exists>files. files = loadPolicyFiles (ee_sort env) (ee_ReadDir env (pc_policiesDir cfg))
          \<and> sr_done (seedPolicies files (ee_rounds env)) \<and> entries = sr_entries (seedPolicies files (ee_rounds env)))"
  by (auto simp: pep_main_def pep_seedPolicies_def pep_loadPolicyFiles_def Let_def split: if_splits)

lemma extauthz_serving:
  "extauthz_main env = (entries, Serving cfg) \<Longrightarrow>
     cfg = extauthz_variables (ee_getenv env)
     \<and> (\<exists>files. files = loadPolicyFiles (ee_sort env) (ee_ReadDir env (xc_policiesDir cfg))
          \<and> sr_done (seedPolicies files (ee_rounds env)) \<and> entries = sr_entries (seedPolicies files (ee_rounds env)))"
  by (auto simp: extauthz_main_def seedPolicies_dir_def Let_def split: if_splits)

lemma stream_updates_entries: "stream_updates rx es = entries_updates rx (map snd es)"
  by (simp add: stream_updates_def entries_updates_def)

text \<open>The engine behind a stream that holds what seeding appended.\<close>

lemma seeded_engine:
  assumes "sr_done (seedPolicies files srs)" "map snd es = sr_entries (seedPolicies files srs)"
    and "\<forall>r \<in> set rs. delivers key es r" "length es \<le> length rs"
    and "range_order oa" "range_order od"
  shows "\<exists>resp. CheckAccess rx (ListActivePolicies oa od)
       (sub_store (Start rx rs (NewPolicyUpdateSubscriber key NewPolicyStore))) req t = Inr resp
     \<and> (resp_Allowed resp
          \<longleftrightarrow> authorized rx (foldl table_update (\<lambda>_. None) (files_updates rx files)) req)"
  using Start_delivered [OF assms(3-6), of rx req t] seeding_table [OF assms(1), of "\<lambda>_. None" rx]
  by (simp add: stream_updates_entries assms(2))


subsection \<open>Enforcement points in front of the process\<close>

lemma rpc_client_process:
  assumes "bouncer_run rx lib es b" "range_order oa" "range_order od"
  shows "(case fault req of
      Some e \<Rightarrow> rpc_client fault (\<lambda>req. grpc_call rx lib oa od t recv (Inr req)) b req = Inl e
    | None \<Rightarrow> \<exists>r. rpc_client fault (\<lambda>req. grpc_call rx lib oa od t recv (Inr req)) b req = Inr r
        \<and> crs_Allowed r = authorized rx (run_table rx es) (eval_request req))"
proof (cases "fault req")
  case None
  note inv = bouncer_run_inv [OF assms(1)]
  obtain b' r where call: "grpc_call rx lib oa od t recv (Inr req) b
      = Some (b', ResponseMessage (Some r), None)"
    using grpc_call_decided [OF system_invD(1,2) [OF inv], of rx oa od req t recv] by blast
  have answer: "client_answer (ResponseMessage (Some r), None) = Inr r"
    by (simp add: client_answer_def)
  then have "crs_Allowed r = authorized rx (run_table rx es) (eval_request req)"
    using grpc_call_decides [OF inv assms(2,3) call] by blast
  then show ?thesis using None answer by (simp add: rpc_client_eq call)
qed (simp add: rpc_client_eq)

lemma extauthz_forwards:
  assumes "bouncer_run rx lib es b" "range_order oa" "range_order od"
  shows "forwarded (Check et ord ph
        (rpc_client fault (\<lambda>req. grpc_call rx lib oa od t recv (Inr req)) b) req)
    \<longleftrightarrow> (\<exists>claims. extractClaims ord ph (ck_headers req) = Inr claims
          \<and> fault (authz_request req claims) = None
          \<and> authorized rx (run_table rx es) (eval_request (authz_request req claims)))"
proof -
  have "(\<exists>r. rpc_client fault (\<lambda>req. grpc_call rx lib oa od t recv (Inr req)) b q = Inr r \<and> crs_Allowed r)
      \<longleftrightarrow> fault q = None \<and> authorized rx (run_table rx es) (eval_request q)" for q
    using rpc_client_process [OF assms, where fault = fault and req = q and t = t and recv = recv]
    by (auto split: option.splits)
  then show ?thesis by (simp add: forwarded_Check)
qed

lemma pep_forwards:
  assumes "bouncer_run rx lib es b" "range_order oa" "range_order od"
  shows "pep_handler (rpc_client fault (\<lambda>req. grpc_call rx lib oa od t recv (Inr req)) b) r = Proxied
    \<longleftrightarrow> fault (pep_request r) = None
        \<and> authorized rx (run_table rx es) (eval_request (pep_request r))"
  using rpc_client_process [OF assms, where fault = fault and req = "pep_request r" and t = t
      and recv = recv]
  by (auto simp: pep_handler_def split: option.splits)

text \<open>The default configuration, and what an empty variable does.\<close>

lemma pep_defaults:
  "pep_variables (\<lambda>_. []) =
     \<lparr>pc_engineAddr = ''bouncer-engine:50051'', pc_redisAddr = ''localhost:6379'',
      pc_httpbinTarget = ''http://httpbin'', pc_listenAddr = '':8080'', pc_policiesDir = ''/policies''\<rparr>"
  by (simp add: pep_variables_def envOr_def DefaultAddr_def)


subsection \<open>Examples for the witnesses\<close>

definition seeded_stream :: "stream_entry list" where
  "seeded_stream = [(''1-0'', file_entry sample_file)]"

lemma seeded_delivers: "delivers ''k'' seeded_stream (full_round ''k'' seeded_stream)"
proof -
  have "\<exists>m>0. rd_xread (full_round ''k'' seeded_stream) ''k'' (last_id (take n seeded_stream))
          = XStreams [(''k'', take m (drop n seeded_stream))]" if "n < length seeded_stream" for n
    using that by (intro exI [of _ "1 :: nat"]) (simp add: seeded_stream_def full_round_def last_id_def)
  then show ?thesis
    by (simp add: delivers_def) (simp add: full_round_def seeded_stream_def last_id_def)
qed

definition sample_edge_env :: edge_env where
  "sample_edge_env =
     \<lparr>ee_getenv = (\<lambda>_. []), ee_dial = (\<lambda>_. True),
      ee_ReadDir = (\<lambda>dir. if dir = ''/policies'' then Some sample_dir else None),
      ee_sort = sort_key pf_id, ee_rounds = [AllPublished], ee_url_Parse = (\<lambda>_. True),
      ee_listen = (\<lambda>_. True)\<rparr>"

lemma sample_dir_files: "loadPolicyFiles (sort_key pf_id) (Some sample_dir) = [sample_file]"
  using sample_meta
  by (simp add: loadPolicyFiles_def sample_dir_def strings_HasSuffix_def sample_file_def)

lemma sample_edge_serves:
  "pep_main sample_edge_env = ([file_entry sample_file], Serving (pep_variables (\<lambda>_. [])))"
  by (simp add: pep_main_def sample_edge_env_def pep_seedPolicies_def pep_loadPolicyFiles_def
      pep_defaults sample_dir_files seedPolicies_def)

lemma sample_files_authorized:
  "authorized literal_regexp
     (foldl table_update (\<lambda>_. None) (files_updates literal_regexp [sample_file])) (sample_request ''admin'')"
proof -
  have "files_updates literal_regexp [sample_file] = [Upsert document_policy]"
    using sample_entry_updates
    by (simp add: files_updates_def file_entry_def sample_file_def sample_entry_def)
  then show ?thesis
    by (auto simp: authorized_def granted_def allow_part_def deny_part_def ran_def split: if_splits)
qed


definition sample_check :: CheckRequest where
  "sample_check =
     \<lparr>ck_headers = [(''x-jwt-payload'', base64_Encode False sample_payload)], ck_path = ''/get'',
      ck_method = ''GET'', ck_source_address = ''10.0.0.7''\<rparr>"

lemma sample_check_claims: "extractClaims rev ''x-jwt-payload'' (ck_headers sample_check) = Inr sample_claims"
  using sample_payload_claims base64_either [of False sample_payload]
  by (simp add: extractClaims_def lookupHeader_def decode_payload_def sample_check_def)
     (simp add: sample_claims_def)

lemma read_method: "actionForMethod ''GET'' = ''READ''"
  by code_simp

lemma applied_state:
  "bouncer_run rx lib es b \<Longrightarrow>
     bouncer_run rx lib (es @ map Applied vss)
       (foldl (\<lambda>b e. case e of Applied vs \<Rightarrow> apply_entry rx vs b | _ \<Rightarrow> b) b (map Applied vss))"
proof (induction vss arbitrary: es b)
  case (Cons vs vss)
  from Cons.IH [OF Step [OF Cons.prems Apply, of vs]] show ?case by simp
qed simp

end
