(* ===== verification/Extauthz_Server.thy ===== *)
theory Extauthz_Server
  imports Edge_Programs
begin

text \<open>
  The serving phase of the Envoy adapter, from the listener to the exit of the process,
  \<open>main\<close> of \<open>examples/envoy-jwt/extauthz/main.go\<close>: the handler that is registered, the goroutine
  that waits for a signal and calls \<open>GracefulStop\<close>, and the exit after the return of \<open>Serve\<close>.
  The server of grpc-go is a parameter with a state of its own; what it accepts, when \<open>Serve\<close>
  returns and what a graceful stop does to the pending calls is its business.
\<close>

subsection \<open>The model\<close>

record extAuthzServer =
  xs_client :: "CheckAccessRequest \<Rightarrow> string + CheckAccessResponse"

definition extAuthzServer_Check ::
  "(claims_error \<Rightarrow> string) \<Rightarrow> ((string \<times> string) list \<Rightarrow> (string \<times> string) list) \<Rightarrow> string
     \<Rightarrow> extAuthzServer \<Rightarrow> CheckRequest \<Rightarrow> CheckResponse" where
  "extAuthzServer_Check et ord ph s req = Check et ord ph (xs_client s) req"

text \<open>
  The operations of the library: a new server that serves, the hand-over of a call to the
  registered handler and of the response of the handler, where \<open>None\<close> says that there is none in
  this state, the stop, and the errors with which \<open>Serve\<close> can return, no error being \<open>None\<close>.
\<close>

record 's grpc_lib =
  gl_Serve :: 's
  gl_accept :: "CheckRequest \<Rightarrow> 's \<Rightarrow> 's option"
  gl_reply :: "CheckRequest \<Rightarrow> CheckResponse \<Rightarrow> 's \<Rightarrow> 's option"
  gl_GracefulStop :: "'s \<Rightarrow> 's"
  gl_returns :: "'s \<Rightarrow> string option \<Rightarrow> bool"

text \<open>
  The signals that the goroutine of \<open>main\<close> listens for; any other ends the process as the
  operating system has it and is left out.
\<close>

datatype os_signal = SIGINT | SIGTERM

text \<open>The server, and whether the goroutine still waits for a signal.\<close>

record 's adapter_server =
  ad_grpc :: 's
  ad_waiting :: bool

datatype 's adapter = Running "'s adapter_server" | Ended "extauthz_config edge_state"

datatype adapter_event =
    CheckAccepted CheckRequest
  | CheckReplied CheckRequest CheckResponse
  | Signalled os_signal
  | ServeReturned "string option"

definition serve_loop :: "'s grpc_lib \<Rightarrow> 's adapter_server" where
  "serve_loop lib = \<lparr>ad_grpc = gl_Serve lib, ad_waiting = True\<rparr>"

text \<open>
  The goroutine that waits for a signal: the first one makes it call \<open>GracefulStop\<close>, and then it
  receives no more.
\<close>

definition signal_received :: "'s grpc_lib \<Rightarrow> os_signal \<Rightarrow> 's adapter_server \<Rightarrow> 's adapter_server" where
  "signal_received lib sig v =
     (if ad_waiting v then \<lparr>ad_grpc = gl_GracefulStop lib (ad_grpc v), ad_waiting = False\<rparr> else v)"

inductive adapter_step ::
  "(claims_error \<Rightarrow> string) \<Rightarrow> string \<Rightarrow> 's grpc_lib \<Rightarrow> 's adapter \<Rightarrow> adapter_event \<Rightarrow> 's adapter \<Rightarrow> bool"
  for et ph lib where
  Accept_check:
    "gl_accept lib req (ad_grpc v) = Some g \<Longrightarrow>
     adapter_step et ph lib (Running v) (CheckAccepted req) (Running (v\<lparr>ad_grpc := g\<rparr>))"
| Reply_check:
    "resp = extAuthzServer_Check et ord ph s req \<Longrightarrow> gl_reply lib req resp (ad_grpc v) = Some g \<Longrightarrow>
     adapter_step et ph lib (Running v) (CheckReplied req resp) (Running (v\<lparr>ad_grpc := g\<rparr>))"
| Signal_received:
    "adapter_step et ph lib (Running v) (Signalled sig) (Running (signal_received lib sig v))"
| Serve_returned:
    "gl_returns lib (ad_grpc v) err \<Longrightarrow>
     adapter_step et ph lib (Running v) (ServeReturned err) (Ended (edge_serve_returned err))"

inductive adapter_run ::
  "(claims_error \<Rightarrow> string) \<Rightarrow> string \<Rightarrow> 's grpc_lib \<Rightarrow> adapter_event list \<Rightarrow> 's adapter \<Rightarrow> bool"
  for et ph lib where
  Serve_begins: "adapter_run et ph lib [] (Running (serve_loop lib))"
| Serve_goes_on:
    "adapter_run et ph lib es a \<Longrightarrow> adapter_step et ph lib a e a' \<Longrightarrow> adapter_run et ph lib (es @ [e]) a'"

inductive_simps ended_step [simp]: "adapter_step et ph lib (Ended c) e a"

subsection \<open>What the program adds to the library\<close>

fun is_signal :: "adapter_event \<Rightarrow> bool" where
  "is_signal (Signalled sig) = True"
| "is_signal _ = False"

text \<open>Every answer is the one of \<open>Check\<close>.\<close>

lemma replies_checked:
  "adapter_run et ph lib es a \<Longrightarrow> CheckReplied req resp \<in> set es \<Longrightarrow>
     \<exists>ord s. resp = extAuthzServer_Check et ord ph s req"
  by (induction rule: adapter_run.induct) (auto elim!: adapter_step.cases)

text \<open>The server is told to stop by a signal only, and is told so once.\<close>

lemma waiting_for_signal:
  "adapter_run et ph lib es (Running v) \<Longrightarrow> ad_waiting v \<longleftrightarrow> (\<forall>e \<in> set es. \<not> is_signal e)"
proof (induction es "Running v" arbitrary: v rule: adapter_run.induct)
  case (Serve_goes_on es a e)
  from Serve_goes_on(3) Serve_goes_on(1,2) show ?case
    by (cases rule: adapter_step.cases) (auto simp: signal_received_def split: if_splits)
qed (simp add: serve_loop_def)

text \<open>The process ends when \<open>Serve\<close> returns, with status 0 exactly when it returns without an error.\<close>

lemma adapter_exit:
  "adapter_run et ph lib es a \<Longrightarrow> a = Ended c \<Longrightarrow>
     \<exists>fs err. es = fs @ [ServeReturned err] \<and> c = edge_serve_returned err"
  by (induction rule: adapter_run.induct) (auto elim!: adapter_step.cases)

end
