(* ===== verification/Demo_Clients.thy ===== *)
theory Demo_Clients
  imports Bouncer_System
begin

text \<open>
  The two command-line clients, \<open>loadtest/seed/main.go\<close> and \<open>cmd/mock-publisher/main.go\<close>: the
  fixed documents they publish, and the loop that polls the engine until the policy is live or
  the deadline of five seconds has passed.  The environment is the variables, the dial, the
  outcome of every publish at a Redis address, and for every round of the loop the answer of
  the engine at an address to the probe and whether the deadline has passed.
\<close>

subsection \<open>The clients\<close>

text \<open>The documents of the seeder, as they stand in the source.\<close>

definition secops_json :: string where
  \<open>secops_json =
     ''{"id":"allow-secops","description":"Allow SecurityAdmin read of production-db-backup fro'' @
     ''m corp CIDR during business hours","access":"ALLOW","target":{"resource_type":"productio'' @
     ''n-db-backup","action":"READ"},"conditions":[{"attribute":"principal.roles","operator":"C'' @
     ''ONTAINS_ANY","value":["SecurityAdmin"]},{"attribute":"environment.ip_address","operator"'' @
     '':"IN_CIDR","value":["10.0.0.0/8"]},{"attribute":"environment.hour","operator":"BETWEEN",'' @
     ''"value":["8","18"]}]}''\<close>

definition contractor_json :: string where
  \<open>contractor_json =
     ''{"id":"deny-contractor","description":"Explicitly deny contractors access to production-'' @
     ''db-backup","access":"DENY","target":{"resource_type":"production-db-backup","action":"RE'' @
     ''AD"},"conditions":[{"attribute":"principal.roles","operator":"CONTAINS_ANY","value":["Co'' @
     ''ntractor"]}]}''\<close>

definition dashboard_json :: string where
  \<open>dashboard_json =
     ''{"id":"allow-dashboard","description":"Allow admins to read the dashboard","access":"ALL'' @
     ''OW","target":{"resource_type":"dashboard","action":"READ"},"conditions":[{"attribute":"p'' @
     ''rincipal.role","operator":"EQUALS","value":["admin"]}]}''\<close>

definition seed_documents :: "(string \<times> string) list" where
  "seed_documents =
     [(''allow-secops'', secops_json), (''deny-contractor'', contractor_json),
      (''allow-dashboard'', dashboard_json)]"

text \<open>The document of the mock publisher, with its line breaks and tabs.\<close>

definition newline_tabs :: "nat \<Rightarrow> string" where
  "newline_tabs n = CHR 0x0A # replicate n (CHR 0x09)"

definition mock_json :: string where
  \<open>mock_json =
     ''{'' @
     newline_tabs 2 @ ''"id": "pol-mock-001",'' @
     newline_tabs 2 @ ''"description": "Allow Admin Read",'' @
     newline_tabs 2 @ ''"access": "ALLOW",'' @
     newline_tabs 2 @ ''"target": {"resource_type": "dashboard", "action": "READ"},'' @
     newline_tabs 2 @ ''"conditions": [{"attribute": "principal.role", "operator": "EQUALS", "value": ["admin"]}]'' @
     newline_tabs 1 @ ''}''\<close>

datatype probe_exit = ProbeAllowed CheckAccessResponse | ProbeFailed

fun probe_loop :: "((string + CheckAccessResponse) \<times> bool) list \<Rightarrow> probe_exit option" where
  "probe_loop [] = None"
| "probe_loop ((reply, late) # rounds) =
     (case reply of
        Inr probe \<Rightarrow>
          if crs_Allowed probe then Some (ProbeAllowed probe)
          else if late then Some ProbeFailed else probe_loop rounds
      | Inl err \<Rightarrow> if late then Some ProbeFailed else probe_loop rounds)"

text \<open>Publishing in order; the first failure ends the program.  The flag says whether all went out.\<close>

fun publish_all :: "(string \<times> string) list \<Rightarrow> bool list \<Rightarrow> entry_values list \<times> bool" where
  "publish_all [] oks = ([], True)"
| "publish_all (d # ds) [] = ([], False)"
| "publish_all ((i, json) # ds) (ok # oks) =
     (if \<not> ok then ([], False)
      else (case publish_all ds oks of
              (es, published) \<Rightarrow> (Publish_values ActionUpsert i json # es, published)))"

definition probe_status :: "((string + CheckAccessResponse) \<times> bool) list \<Rightarrow> int option" where
  "probe_status rounds =
     (case probe_loop rounds of
        None \<Rightarrow> None
      | Some (ProbeAllowed _) \<Rightarrow> Some 0
      | Some ProbeFailed \<Rightarrow> Some 1)"

record demo_env =
  de_getenv :: "string \<Rightarrow> string"
  de_dial :: "string \<Rightarrow> bool"
  de_publish :: "string \<Rightarrow> bool list"
  de_rounds :: "string \<Rightarrow> ((string + CheckAccessResponse) \<times> bool) list"

definition bouncer_target :: "(string \<Rightarrow> string) \<Rightarrow> string" where
  "bouncer_target getenv =
     (let target = getenv ''BOUNCER_TARGET'' in if target = [] then ''localhost:50051'' else target)"

text \<open>
  The entries published and the exit status; \<open>None\<close> while the loop still polls.  The seeder
  opens its connection to the engine before it publishes, the mock publisher after.
\<close>

definition seed_main :: "demo_env \<Rightarrow> entry_values list \<times> int option" where
  "seed_main env =
     (let target = bouncer_target (de_getenv env); redisAddr = AddrFromEnv (de_getenv env) in
      if \<not> de_dial env target then ([], Some 1)
      else (case publish_all seed_documents (de_publish env redisAddr) of (es, published) \<Rightarrow>
              if \<not> published then (es, Some 1) else (es, probe_status (de_rounds env target))))"

definition mock_publisher_main :: "demo_env \<Rightarrow> entry_values list \<times> int option" where
  "mock_publisher_main env =
     (let redisAddr = AddrFromEnv (de_getenv env) in
      case publish_all [(''pol-mock-001'', mock_json)] (de_publish env redisAddr) of (es, published) \<Rightarrow>
        if \<not> published then (es, Some 1)
        else
          (let target = bouncer_target (de_getenv env) in
           if \<not> de_dial env target then (es, Some 1) else (es, probe_status (de_rounds env target))))"

definition seed_probe :: CheckAccessRequest where
  "seed_probe =
     \<lparr>crq_PrincipalId = ''usr-1'',
      crq_PrincipalAttributes = [(''roles'', Some \<lparr>av_Values = [''SecurityAdmin'']\<rparr>)],
      crq_ResourceType = ''production-db-backup'', crq_ResourceId = [], crq_ResourceAttributes = [],
      crq_Action = ''READ'',
      crq_EnvironmentAttributes = [(''ip_address'', Some \<lparr>av_Values = [''10.4.4.10'']\<rparr>),
                                   (''hour'', Some \<lparr>av_Values = [''12'']\<rparr>)]\<rparr>"

definition mock_probe :: CheckAccessRequest where
  "mock_probe =
     \<lparr>crq_PrincipalId = ''usr-1'',
      crq_PrincipalAttributes = [(''role'', Some \<lparr>av_Values = [''admin'']\<rparr>)],
      crq_ResourceType = ''dashboard'', crq_ResourceId = [], crq_ResourceAttributes = [],
      crq_Action = ''READ'', crq_EnvironmentAttributes = []\<rparr>"

subsection \<open>What the documents mean\<close>

definition secops_policy :: "'r policy" where
  "secops_policy =
     \<lparr>pol_ID = ''allow-secops'',
      pol_Description = ''Allow SecurityAdmin read of production-db-backup from corp CIDR during business hours'',
      pol_Access = AccessAllow,
      pol_Target = \<lparr>tg_ResourceType = ''production-db-backup'', tg_Action = ''READ''\<rparr>,
      pol_Conditions =
        [mk_condition ''principal.roles'' ''CONTAINS_ANY'' [''SecurityAdmin''],
         mk_condition ''environment.ip_address'' ''IN_CIDR'' [''10.0.0.0/8''],
         mk_condition ''environment.hour'' ''BETWEEN'' [''8'', ''18'']]\<rparr>"

definition contractor_policy :: "'r policy" where
  "contractor_policy =
     \<lparr>pol_ID = ''deny-contractor'',
      pol_Description = ''Explicitly deny contractors access to production-db-backup'',
      pol_Access = AccessDeny,
      pol_Target = \<lparr>tg_ResourceType = ''production-db-backup'', tg_Action = ''READ''\<rparr>,
      pol_Conditions = [mk_condition ''principal.roles'' ''CONTAINS_ANY'' [''Contractor'']]\<rparr>"

definition dashboard_policy :: "'r policy" where
  "dashboard_policy =
     \<lparr>pol_ID = ''allow-dashboard'',
      pol_Description = ''Allow admins to read the dashboard'',
      pol_Access = AccessAllow,
      pol_Target = \<lparr>tg_ResourceType = ''dashboard'', tg_Action = ''READ''\<rparr>,
      pol_Conditions = [mk_condition ''principal.role'' ''EQUALS'' [''admin'']]\<rparr>"

lemma seed_documents_text:
  "policy_document secops_policy = secops_json"
  "policy_document contractor_policy = contractor_json"
  "policy_document dashboard_policy = dashboard_json"
  by code_simp+

lemma seed_policies_valid:
  "valid_policy secops_policy" "valid_policy contractor_policy" "valid_policy dashboard_policy"
  by code_simp+

definition mock_policy :: "'r policy" where
  "mock_policy =
     \<lparr>pol_ID = ''pol-mock-001'', pol_Description = ''Allow Admin Read'', pol_Access = AccessAllow,
      pol_Target = \<lparr>tg_ResourceType = ''dashboard'', tg_Action = ''READ''\<rparr>,
      pol_Conditions = [mk_condition ''principal.role'' ''EQUALS'' [''admin'']]\<rparr>"

lemma mock_json_parses: "json_parse mock_json = Some (policy_tree mock_policy)"
  by code_simp

lemma no_regex_Compile:
  "\<forall>c \<in> set (pol_Conditions p). cond_Operator c \<noteq> ''REGEX'' \<Longrightarrow> Compile rx p = (p, None)"
proof -
  have "compile_conditions rx i cs = (cs, None)" if "\<forall>c \<in> set cs. cond_Operator c \<noteq> ''REGEX''" for i cs
    using that by (induction cs) auto
  moreover assume "\<forall>c \<in> set (pol_Conditions p). cond_Operator c \<noteq> ''REGEX''"
  ultimately show ?thesis by (simp add: Compile_def)
qed

lemma entry_updates_upsert:
  assumes "Unmarshal_policy doc = Some p" "Compile rx p = (p', None)"
    and "pol_Access p = AccessAllow \<or> pol_Access p = AccessDeny"
  shows "entry_updates rx (Publish_values ActionUpsert i doc) = [Upsert p']"
  using publish_document [OF assms, of i NewPolicyStore]
  by (simp add: entry_updates_def entry_update_def)

lemma seed_policy_sources:
  "source_policy secops_policy = secops_policy" "source_policy contractor_policy = contractor_policy"
  "source_policy dashboard_policy = dashboard_policy" "source_policy mock_policy = mock_policy"
  by (simp_all add: source_policy_def source_condition_def mk_condition_def secops_policy_def
      contractor_policy_def dashboard_policy_def mock_policy_def)

lemma seed_documents_decode:
  "Unmarshal_policy secops_json = Some secops_policy"
  "Unmarshal_policy contractor_json = Some contractor_policy"
  "Unmarshal_policy dashboard_json = Some dashboard_policy"
  using Unmarshal_document [OF seed_policies_valid(1)] Unmarshal_document [OF seed_policies_valid(2)]
    Unmarshal_document [OF seed_policies_valid(3)]
  by (simp_all add: seed_documents_text seed_policy_sources)

lemma mock_json_decodes: "Unmarshal_policy mock_json = Some (mock_policy :: 'r policy)"
  unfolding Unmarshal_policy_def mock_json_parses [where ?'a = 'r]
  by (simp add: decode_tree seed_policy_sources)

lemma demo_operators:
  "p = secops_policy \<or> p = contractor_policy \<or> p = dashboard_policy \<or> p = mock_policy \<Longrightarrow>
     (\<forall>c \<in> set (pol_Conditions p). cond_Operator c \<noteq> ''REGEX'')
     \<and> (pol_Access p = AccessAllow \<or> pol_Access p = AccessDeny)"
  by (auto simp: secops_policy_def contractor_policy_def dashboard_policy_def mock_policy_def
      mk_condition_def)

lemma demo_entry:
  "Unmarshal_policy doc = Some p \<Longrightarrow>
     p = secops_policy \<or> p = contractor_policy \<or> p = dashboard_policy \<or> p = mock_policy \<Longrightarrow>
     entry_updates rx (Publish_values ActionUpsert i doc) = [Upsert p]"
  by (rule entry_updates_upsert [OF _ no_regex_Compile]) (use demo_operators [of p] in blast)+

lemma demo_entry_updates:
  "entry_updates rx (Publish_values ActionUpsert i secops_json) = [Upsert secops_policy]"
  "entry_updates rx (Publish_values ActionUpsert i contractor_json) = [Upsert contractor_policy]"
  "entry_updates rx (Publish_values ActionUpsert i dashboard_json) = [Upsert dashboard_policy]"
  "entry_updates rx (Publish_values ActionUpsert i mock_json) = [Upsert mock_policy]"
  by (rule demo_entry, rule seed_documents_decode mock_json_decodes, simp)+

definition published_updates :: "'r regexp_lib \<Rightarrow> (string \<times> string) list \<Rightarrow> 'r update list" where
  "published_updates rx docs =
     concat (map (entry_updates rx) (fst (publish_all docs (replicate (length docs) True))))"

lemma seed_updates:
  "published_updates rx seed_documents
     = [Upsert secops_policy, Upsert contractor_policy, Upsert dashboard_policy]"
  by (simp add: published_updates_def seed_documents_def demo_entry_updates)

text \<open>The conditions of the documents on the attributes of a request.\<close>

lemma demo_conditions:
  "EvaluateCondition rx (mk_condition ''principal.roles'' ''CONTAINS_ANY'' [r]) req
     \<longleftrightarrow> (\<exists>vs. gomap_get (req_PrincipalAttributes req) ''roles'' = Some vs \<and> r \<in> set vs)"
  "EvaluateCondition rx (mk_condition ''principal.role'' ''EQUALS'' [r]) req
     \<longleftrightarrow> gomap_get (req_PrincipalAttributes req) ''role'' = Some [r]"
  "EvaluateCondition rx (mk_condition ''environment.ip_address'' ''IN_CIDR'' bs) req
     \<longleftrightarrow> (\<exists>vs. gomap_get (req_EnvironmentAttributes req) ''ip_address'' = Some vs \<and> evalInCIDR bs vs)"
  "EvaluateCondition rx (mk_condition ''environment.hour'' ''BETWEEN'' bs) req
     \<longleftrightarrow> (\<exists>vs. gomap_get (req_EnvironmentAttributes req) ''hour'' = Some vs \<and> evalBetween bs vs)"
  by (auto simp: EvaluateCondition_def mk_condition_def attribute_map_def apply_operator_def
      evalContainsAny_def any_present_iff value_set_iff evalEquals_multiset split: option.splits)

lemma business_hours:
  "evalBetween [''8'', ''18''] vs \<longleftrightarrow> (\<exists>h n. vs = [h] \<and> Atoi h = Some n \<and> 8 \<le> n \<and> n \<le> 18)"
proof -
  have "Atoi ''8'' = Some 8" "Atoi ''18'' = Some 18" by code_simp+
  then show ?thesis
    by (cases vs; cases "tl vs") (auto simp: evalBetween_def split: option.splits)
qed

lemma applies_iff:
  "applies rx p req \<longleftrightarrow> req_ResourceType req = tg_ResourceType (pol_Target p)
     \<and> req_Action req = tg_Action (pol_Target p)
     \<and> (\<forall>cond \<in> set (pol_Conditions p). EvaluateCondition rx cond req)"
  by (auto simp: applies_def)

lemma contractor_applies:
  "applies rx contractor_policy req \<longleftrightarrow> req_ResourceType req = ''production-db-backup'' \<and> req_Action req = ''READ''
     \<and> (\<exists>vs. gomap_get (req_PrincipalAttributes req) ''roles'' = Some vs \<and> ''Contractor'' \<in> set vs)"
  by (simp add: applies_iff contractor_policy_def demo_conditions)

lemma dashboard_applies:
  "applies rx dashboard_policy req \<longleftrightarrow> req_ResourceType req = ''dashboard'' \<and> req_Action req = ''READ''
     \<and> gomap_get (req_PrincipalAttributes req) ''role'' = Some [''admin'']"
  by (simp add: applies_iff dashboard_policy_def demo_conditions)

lemma secops_applies:
  "applies rx secops_policy req \<longleftrightarrow> req_ResourceType req = ''production-db-backup'' \<and> req_Action req = ''READ''
     \<and> (\<exists>vs. gomap_get (req_PrincipalAttributes req) ''roles'' = Some vs \<and> ''SecurityAdmin'' \<in> set vs)
     \<and> (\<exists>vs. gomap_get (req_EnvironmentAttributes req) ''ip_address'' = Some vs \<and> evalInCIDR [''10.0.0.0/8''] vs)
     \<and> (\<exists>h n. gomap_get (req_EnvironmentAttributes req) ''hour'' = Some [h]
          \<and> Atoi h = Some n \<and> 8 \<le> n \<and> n \<le> 18)"
proof -
  have "applies rx secops_policy req \<longleftrightarrow> req_ResourceType req = ''production-db-backup'' \<and> req_Action req = ''READ''
     \<and> (\<exists>vs. gomap_get (req_PrincipalAttributes req) ''roles'' = Some vs \<and> ''SecurityAdmin'' \<in> set vs)
     \<and> (\<exists>vs. gomap_get (req_EnvironmentAttributes req) ''ip_address'' = Some vs \<and> evalInCIDR [''10.0.0.0/8''] vs)
     \<and> (\<exists>vs. gomap_get (req_EnvironmentAttributes req) ''hour'' = Some vs \<and> evalBetween [''8'', ''18''] vs)"
    by (simp add: applies_iff secops_policy_def demo_conditions)
  then show ?thesis unfolding business_hours by blast
qed

lemmas demo_applies = secops_applies contractor_applies dashboard_applies

lemma demo_ids:
  "pol_ID secops_policy = ''allow-secops''" "pol_ID contractor_policy = ''deny-contractor''"
  "pol_ID dashboard_policy = ''allow-dashboard''" "pol_Access secops_policy = AccessAllow"
  "pol_Access contractor_policy = AccessDeny" "pol_Access dashboard_policy = AccessAllow"
  by (simp_all add: secops_policy_def contractor_policy_def dashboard_policy_def)

lemma seeded_decision:
  "authorized rx (foldl table_update (\<lambda>_. None) (published_updates rx seed_documents)) req
    \<longleftrightarrow> req_Action req = ''READ''
      \<and> (req_ResourceType req = ''production-db-backup''
           \<and> (\<exists>roles ips h n. gomap_get (req_PrincipalAttributes req) ''roles'' = Some roles
                \<and> ''SecurityAdmin'' \<in> set roles \<and> ''Contractor'' \<notin> set roles
                \<and> gomap_get (req_EnvironmentAttributes req) ''ip_address'' = Some ips
                \<and> evalInCIDR [''10.0.0.0/8''] ips
                \<and> gomap_get (req_EnvironmentAttributes req) ''hour'' = Some [h]
                \<and> Atoi h = Some n \<and> 8 \<le> n \<and> n \<le> 18)
         \<or> req_ResourceType req = ''dashboard''
           \<and> gomap_get (req_PrincipalAttributes req) ''role'' = Some [''admin''])"
proof -
  let ?tab = "foldl table_update (\<lambda>_. None) (published_updates rx seed_documents)"
  have tab: "?tab = [''allow-secops'' \<mapsto> secops_policy, ''deny-contractor'' \<mapsto> contractor_policy,
      ''allow-dashboard'' \<mapsto> dashboard_policy]"
    unfolding seed_updates by (simp add: demo_ids)
  have "ran ?tab = {secops_policy, contractor_policy, dashboard_policy}"
    unfolding tab by (simp add: ran_map_upd insert_commute)
  then have "allow_part ?tab = {secops_policy, dashboard_policy}" "deny_part ?tab = {contractor_policy}"
    unfolding allow_part_def deny_part_def by (auto simp: demo_ids)
  then have "authorized rx ?tab req \<longleftrightarrow>
      (applies rx secops_policy req \<or> applies rx dashboard_policy req) \<and> \<not> applies rx contractor_policy req"
    by (simp add: authorized_def granted_def)
  moreover have "''production-db-backup'' \<noteq> ''dashboard''" by simp
  ultimately show ?thesis
    unfolding demo_applies by (cases "gomap_get (req_PrincipalAttributes req) ''roles''") auto
qed

text \<open>
  What the seeded documents mean.  Once the three documents of the seeder are in force, a
  request is allowed exactly when it reads the production backup with the role SecurityAdmin
  and without the role Contractor, from an address in 10.0.0.0/8 and between 8 and 18 o'clock,
  or reads the dashboard with admin as the only role.
\<close>

theorem seeded_policies_decide:
  "authorized rx (foldl table_update (\<lambda>_. None) (published_updates rx seed_documents)) req
    \<longleftrightarrow> req_Action req = ''READ''
      \<and> (req_ResourceType req = ''production-db-backup''
           \<and> (\<exists>roles ips h n. gomap_get (req_PrincipalAttributes req) ''roles'' = Some roles
                \<and> ''SecurityAdmin'' \<in> set roles \<and> ''Contractor'' \<notin> set roles
                \<and> gomap_get (req_EnvironmentAttributes req) ''ip_address'' = Some ips
                \<and> evalInCIDR [''10.0.0.0/8''] ips
                \<and> gomap_get (req_EnvironmentAttributes req) ''hour'' = Some [h]
                \<and> Atoi h = Some n \<and> 8 \<le> n \<and> n \<le> 18)
         \<or> req_ResourceType req = ''dashboard''
           \<and> gomap_get (req_PrincipalAttributes req) ''role'' = Some [''admin''])"
  by (rule seeded_decision)

lemma published_events:
  "run_table rx (map Applied (fst (publish_all docs (replicate (length docs) True))))
     = foldl table_update (\<lambda>_. None) (published_updates rx docs)"
  by (simp add: run_table_def event_updates_def published_updates_def comp_def)

text \<open>
  The loop ends in success exactly when some round is allowed and every round before it is
  neither allowed nor past the deadline.  The deadline is not looked at after an allowed answer.
\<close>

fun round_allowed :: "(string + CheckAccessResponse) \<times> bool \<Rightarrow> bool" where
  "round_allowed (Inr probe, late) = crs_Allowed probe"
| "round_allowed (Inl err, late) = False"

lemma probe_loop_goes_on:
  "\<forall>r \<in> set before. \<not> round_allowed r \<and> \<not> snd r \<Longrightarrow> probe_loop (before @ rounds) = probe_loop rounds"
proof (induction before)
  case (Cons r before)
  then show ?case by (cases r; cases "fst r") auto
qed simp

lemma probe_loop_allowed:
  "probe_loop rounds = Some (ProbeAllowed probe) \<longleftrightarrow>
     (\<exists>before late after. rounds = before @ (Inr probe, late) # after \<and> crs_Allowed probe
        \<and> (\<forall>r \<in> set before. \<not> round_allowed r \<and> \<not> snd r))"
proof
  show "probe_loop rounds = Some (ProbeAllowed probe) \<Longrightarrow>
     \<exists>before late after. rounds = before @ (Inr probe, late) # after \<and> crs_Allowed probe
        \<and> (\<forall>r \<in> set before. \<not> round_allowed r \<and> \<not> snd r)"
  proof (induction rounds rule: probe_loop.induct)
    case (2 reply late rounds)
    show ?case
    proof (cases "round_allowed (reply, late)")
      case True
      then have "reply = Inr probe" "crs_Allowed probe" using "2.prems" by (cases reply; simp)+
      then show ?thesis by (intro exI [of _ "[]"]) simp
    next
      case False
      then have "\<not> late" "probe_loop rounds = Some (ProbeAllowed probe)"
        using "2.prems" by (cases reply; simp split: if_splits)+
      moreover from this obtain before l after where "rounds = before @ (Inr probe, l) # after"
          "crs_Allowed probe" "\<forall>r \<in> set before. \<not> round_allowed r \<and> \<not> snd r"
        using "2.IH" False by (cases reply) auto
      ultimately show ?thesis using False
        by (intro exI [of _ "(reply, late) # before"]) auto
    qed
  qed simp
next
  assume "\<exists>before late after. rounds = before @ (Inr probe, late) # after \<and> crs_Allowed probe
        \<and> (\<forall>r \<in> set before. \<not> round_allowed r \<and> \<not> snd r)"
  then show "probe_loop rounds = Some (ProbeAllowed probe)"
    by (auto simp: probe_loop_goes_on)
qed

lemma probe_loop_late:
  "\<forall>r \<in> set before. \<not> round_allowed r \<Longrightarrow> \<not> round_allowed (reply, True) \<Longrightarrow>
     probe_loop (before @ (reply, True) # after) = Some ProbeFailed"
proof (induction before)
  case Nil
  then show ?case by (cases reply) auto
next
  case (Cons r before)
  then show ?case by (cases r; cases "fst r") auto
qed

text \<open>The status of the loop by the first allowed round and the deadline.\<close>

lemma probe_status_simps [simp]:
  "probe_status [] = None"
  "probe_status (r # rounds) =
     (if round_allowed r then Some 0 else if snd r then Some 1 else probe_status rounds)"
proof -
  show "probe_status (r # rounds) =
     (if round_allowed r then Some 0 else if snd r then Some 1 else probe_status rounds)"
    by (cases r; cases "fst r") (auto simp: probe_status_def)
qed (simp add: probe_status_def)

lemma probe_status_success:
  "probe_status rounds = Some 0 \<longleftrightarrow>
     (\<exists>i < length rounds. round_allowed (rounds ! i) \<and> (\<forall>j < i. \<not> snd (rounds ! j)))"
proof (induction rounds)
  case (Cons r rounds)
  show ?case
  proof (cases "round_allowed r")
    case True
    then show ?thesis by (intro iffI exI [of _ 0]) simp_all
  next
    case False
    have shift: "(\<exists>i < Suc n. P i) \<longleftrightarrow> P 0 \<or> (\<exists>i < n. P (Suc i))" for P and n :: nat
      by (metis Suc_less_eq less_Suc_eq_0_disj zero_less_Suc)
    have "(\<forall>j < Suc i. \<not> snd ((r # rounds) ! j)) \<longleftrightarrow> \<not> snd r \<and> (\<forall>j < i. \<not> snd (rounds ! j))" for i
      using less_Suc_eq_0_disj by auto
    then show ?thesis using Cons.IH False by (auto simp: shift)
  qed
qed simp

text \<open>Publishing goes through exactly when there is a success for every document.\<close>

lemma publish_all_complete:
  "snd (publish_all docs oks) \<longleftrightarrow> length docs \<le> length oks \<and> (\<forall>ok \<in> set (take (length docs) oks). ok)"
  by (induction docs oks rule: publish_all.induct) (auto split: prod.splits)

lemma publish_all_entries:
  "snd (publish_all docs oks) \<Longrightarrow>
     publish_all docs oks = publish_all docs (replicate (length docs) True)"
  by (induction docs oks rule: publish_all.induct) (auto split: prod.splits if_splits)

definition publishes :: "demo_env \<Rightarrow> nat \<Rightarrow> bool" where
  "publishes env n = (let oks = de_publish env (AddrFromEnv (de_getenv env)) in
     n \<le> length oks \<and> (\<forall>ok \<in> set (take n oks). ok))"

lemma seed_main_status:
  "snd (seed_main env) = Some 0 \<longleftrightarrow> de_dial env (bouncer_target (de_getenv env))
     \<and> publishes env (length seed_documents)
     \<and> probe_status (de_rounds env (bouncer_target (de_getenv env))) = Some 0"
  unfolding seed_main_def publishes_def Let_def
  by (simp split: prod.split add: publish_all_complete [symmetric])

lemma mock_publisher_status:
  "snd (mock_publisher_main env) = Some 0 \<longleftrightarrow> de_dial env (bouncer_target (de_getenv env))
     \<and> publishes env (length [(''pol-mock-001'', mock_json)])
     \<and> probe_status (de_rounds env (bouncer_target (de_getenv env))) = Some 0"
  unfolding mock_publisher_main_def publishes_def Let_def publish_all_complete [symmetric]
  by (simp only: split: prod.split if_split) auto

lemma seed_main_entries:
  assumes "de_dial env (bouncer_target (de_getenv env))" "publishes env (length seed_documents)"
  shows "concat (map (entry_updates rx) (fst (seed_main env))) = published_updates rx seed_documents"
proof -
  let ?oks = "de_publish env (AddrFromEnv (de_getenv env))"
  have "snd (publish_all seed_documents ?oks)"
    using assms(2) unfolding publishes_def Let_def publish_all_complete .
  moreover from this have "fst (seed_main env) = fst (publish_all seed_documents ?oks)"
    using assms(1) by (simp add: seed_main_def Let_def split: prod.split)
  ultimately show ?thesis
    using publish_all_entries [of seed_documents ?oks] by (simp only: published_updates_def)
qed

text \<open>
  The probe of the seeder once the three entries have been applied, over whatever policies were
  in force before: it is allowed unless one of those denies it.
\<close>

lemma seed_probe_applies:
  "applies rx secops_policy (eval_request seed_probe)" "\<not> applies rx contractor_policy (eval_request seed_probe)"
proof -
  have "evalInCIDR [''10.0.0.0/8''] [''10.4.4.10'']" "Atoi ''12'' = Some 12" by code_simp+
  then show "applies rx secops_policy (eval_request seed_probe)" "\<not> applies rx contractor_policy (eval_request seed_probe)"
    by (simp_all add: secops_applies contractor_applies eval_request_def seed_probe_def mapAttributes_def
        put_attribute_def gomap_put_def)
qed

lemma seed_probe_decided:
  "authorized rx (foldl table_update tab (published_updates rx seed_documents)) (eval_request seed_probe)
    \<longleftrightarrow> (\<forall>i p. i \<notin> fst ` set seed_documents \<longrightarrow> tab i = Some p \<longrightarrow> pol_Access p \<noteq> AccessAllow \<longrightarrow>
          \<not> applies rx p (eval_request seed_probe))"
proof -
  let ?tab = "foldl table_update tab (published_updates rx seed_documents)"
  have tab: "?tab = tab(''allow-secops'' \<mapsto> secops_policy, ''deny-contractor'' \<mapsto> contractor_policy,
      ''allow-dashboard'' \<mapsto> dashboard_policy)"
    unfolding seed_updates by (simp add: demo_ids)
  have ids: "fst ` set seed_documents = {''allow-secops'', ''deny-contractor'', ''allow-dashboard''}"
    by (simp add: seed_documents_def)
  have "secops_policy \<in> allow_part ?tab"
    unfolding tab by (rule allow_partI [of _ "''allow-secops''"]) (simp_all add: demo_ids)
  then have "authorized rx ?tab (eval_request seed_probe)
      \<longleftrightarrow> (\<forall>p \<in> deny_part ?tab. \<not> applies rx p (eval_request seed_probe))"
    using seed_probe_applies(1) by (auto simp: authorized_def granted_def)
  also have "\<dots> \<longleftrightarrow> (\<forall>i p. ?tab i = Some p \<longrightarrow> pol_Access p \<noteq> AccessAllow \<longrightarrow>
      \<not> applies rx p (eval_request seed_probe))"
    by (auto simp: deny_part_def ran_def)
  also have "\<dots> \<longleftrightarrow> (\<forall>i p. i \<notin> fst ` set seed_documents \<longrightarrow> tab i = Some p \<longrightarrow> pol_Access p \<noteq> AccessAllow \<longrightarrow>
      \<not> applies rx p (eval_request seed_probe))"
    unfolding ids tab using seed_probe_applies(2) by (auto simp: demo_ids split: if_splits)
  finally show ?thesis .
qed

end
