(* ===== verification/Demo_Policies.thy ===== *)
theory Demo_Policies
  imports Edge_Programs
begin

text \<open>
  The policy files of the two demonstrations, \<open>examples/httpbin/policies\<close> and
  \<open>examples/envoy-jwt/policies\<close>, and the example of the API, \<open>api/policy-example.json\<close>, byte for
  byte, and what the enforcement points let through once they have seeded them.
\<close>

subsection \<open>The files\<close>

text \<open>A file is its lines; all of them but the last example end with a line break.\<close>

definition file_text :: "string list \<Rightarrow> string" where
  "file_text ls = concat (map (\<lambda>l. l @ [CHR 0x0A]) ls)"

definition file_text_open :: "string list \<Rightarrow> string" where
  "file_text_open ls = strings_Join ls [CHR 0x0A]"

definition httpbin_admin_write_json :: string where
  \<open>httpbin_admin_write_json = file_text
     [''{'',
      ''  "id": "pol-allow-admin-write",'',
      ''  "description": "Allow WRITE only to principals whose role set is exactly ['admin']. '' @
      ''EQUALS compares the full multi-value set.",'',
      ''  "access": "ALLOW",'',
      ''  "target": {'',
      ''    "resource_type": "httpbin",'',
      ''    "action": "WRITE"'',
      ''  },'',
      ''  "conditions": ['',
      ''    {'',
      ''      "attribute": "principal.role",'',
      ''      "operator": "EQUALS",'',
      ''      "value": ["admin"]'',
      ''    }'',
      ''  ]'',
      ''}'']\<close>

definition httpbin_staff_read_json :: string where
  \<open>httpbin_staff_read_json = file_text
     [''{'',
      ''  "id": "pol-allow-staff-read",'',
      ''  "description": "Allow READ to staff principals. Matches when principal.role '' @
      ''contains 'admin' or 'user'.",'',
      ''  "access": "ALLOW",'',
      ''  "target": {'',
      ''    "resource_type": "httpbin",'',
      ''    "action": "READ"'',
      ''  },'',
      ''  "conditions": ['',
      ''    {'',
      ''      "attribute": "principal.role",'',
      ''      "operator": "CONTAINS_ANY",'',
      ''      "value": ["admin", "user"]'',
      ''    }'',
      ''  ]'',
      ''}'']\<close>

definition httpbin_blocked_read_json :: string where
  \<open>httpbin_blocked_read_json = file_text
     [''{'',
      ''  "id": "pol-deny-blocked-read",'',
      ''  "description": "Deny READ to any principal whose roles include 'blocked'. Deny '' @
      ''policies override allow policies in bouncer-engine.",'',
      ''  "access": "DENY",'',
      ''  "target": {'',
      ''    "resource_type": "httpbin",'',
      ''    "action": "READ"'',
      ''  },'',
      ''  "conditions": ['',
      ''    {'',
      ''      "attribute": "principal.role",'',
      ''      "operator": "CONTAINS_ANY",'',
      ''      "value": ["blocked"]'',
      ''    }'',
      ''  ]'',
      ''}'']\<close>

definition envoy_admin_write_json :: string where
  \<open>envoy_admin_write_json = file_text
     [''{'',
      ''  "id": "pol-allow-admin-write",'',
      ''  "description": "Allow WRITE to standard endpoints only to principals whose role set '' @
      ''is exactly ['admin']. EQUALS compares the full multi-value set, so carol '' @
      ''(admin+finance) is NOT granted write by this policy -- she is scoped to '' @
      ''/anything/finance/* via pol-allow-finance-write. The path REGEX restricts this to '' @
      ''httpbin's standard write endpoints so it doesn't shadow the finance policy.",'',
      ''  "access": "ALLOW",'',
      ''  "target": {'',
      ''    "resource_type": "httpbin",'',
      ''    "action": "WRITE"'',
      ''  },'',
      ''  "conditions": ['',
      ''    {'',
      ''      "attribute": "resource.path",'',
      ''      "operator": "REGEX",'',
      ''      "value": ["^/(post|put|patch|delete)$"]'',
      ''    },'',
      ''    {'',
      ''      "attribute": "principal.role",'',
      ''      "operator": "EQUALS",'',
      ''      "value": ["admin"]'',
      ''    }'',
      ''  ]'',
      ''}'']\<close>

definition envoy_finance_write_json :: string where
  \<open>envoy_finance_write_json = file_text
     [''{'',
      ''  "id": "pol-allow-finance-write",'',
      ''  "description": "Allow WRITE to /anything/finance/* only to principals who hold BOTH '' @
      '''admin' and 'finance'. Demonstrates a multi-condition ABAC rule combining a resource '' @
      ''attribute (path REGEX) with a principal attribute (role CONTAINS_ALL). carol '' @
      ''(admin+finance) is granted; alice (admin only) is denied. The /anything/finance/ '' @
      ''prefix uses httpbin's catch-all endpoint, which stands in for a real finance '' @
      ''service's routes.",'',
      ''  "access": "ALLOW",'',
      ''  "target": {'',
      ''    "resource_type": "httpbin",'',
      ''    "action": "WRITE"'',
      ''  },'',
      ''  "conditions": ['',
      ''    {'',
      ''      "attribute": "resource.path",'',
      ''      "operator": "REGEX",'',
      ''      "value": ["^/anything/finance/"]'',
      ''    },'',
      ''    {'',
      ''      "attribute": "principal.role",'',
      ''      "operator": "CONTAINS_ALL",'',
      ''      "value": ["admin", "finance"]'',
      ''    }'',
      ''  ]'',
      ''}'']\<close>

definition envoy_staff_read_json :: string where
  \<open>envoy_staff_read_json = file_text
     [''{'',
      ''  "id": "pol-allow-staff-read",'',
      ''  "description": "Allow READ to staff principals. Matches when principal.role '' @
      ''contains 'admin' or 'user'. A blocked principal is rejected by pol-deny-blocked-read '' @
      ''before this allow policy is considered.",'',
      ''  "access": "ALLOW",'',
      ''  "target": {'',
      ''    "resource_type": "httpbin",'',
      ''    "action": "READ"'',
      ''  },'',
      ''  "conditions": ['',
      ''    {'',
      ''      "attribute": "principal.role",'',
      ''      "operator": "CONTAINS_ANY",'',
      ''      "value": ["admin", "user"]'',
      ''    }'',
      ''  ]'',
      ''}'']\<close>

definition envoy_blocked_read_json :: string where
  \<open>envoy_blocked_read_json = file_text
     [''{'',
      ''  "id": "pol-deny-blocked-read",'',
      ''  "description": "Deny READ to any principal whose roles include 'blocked'. Deny '' @
      ''policies override allow policies in bouncer-engine, so a blocked principal is '' @
      ''rejected even if they also hold a staff role.",'',
      ''  "access": "DENY",'',
      ''  "target": {'',
      ''    "resource_type": "httpbin",'',
      ''    "action": "READ"'',
      ''  },'',
      ''  "conditions": ['',
      ''    {'',
      ''      "attribute": "principal.role",'',
      ''      "operator": "CONTAINS_ANY",'',
      ''      "value": ["blocked"]'',
      ''    }'',
      ''  ]'',
      ''}'']\<close>

definition api_example_json :: string where
  \<open>api_example_json = file_text_open
     [''{'',
      ''  "id": "pol-sec-ops-001",'',
      ''  "description": "Restrict Sensitive Resource Access Outside Business Hours",'',
      ''  "access": "ALLOW",'',
      ''  "target": {'',
      ''    "resource_type": "production-db-backup",'',
      ''    "action": "READ"'',
      ''  },'',
      ''  "conditions": ['',
      ''    {'',
      ''      "attribute": "principal.roles",'',
      ''      "operator": "CONTAINS_ANY",'',
      ''      "value": ["SecurityAdmin"]'',
      ''    },'',
      ''    {'',
      ''      "attribute": "environment.ip_address",'',
      ''      "operator": "IN_CIDR",'',
      ''      "value": ["10.0.0.0/16"]'',
      ''    },'',
      ''    {'',
      ''      "attribute": "environment.hour",'',
      ''      "operator": "BETWEEN",'',
      ''      "value": ["8", "18"]'',
      ''    }'',
      ''  ]'',
      ''}'']\<close>


subsection \<open>The policies\<close>

definition httpbin_admin_write :: "'r policy" where
  "httpbin_admin_write =
     \<lparr>pol_ID = ''pol-allow-admin-write'',
      pol_Description = ''Allow WRITE only to principals whose role set is exactly ['admin']. EQUALS compares '' @
        ''the full multi-value set.'',
      pol_Access = AccessAllow,
      pol_Target = \<lparr>tg_ResourceType = ''httpbin'', tg_Action = ''WRITE''\<rparr>,
      pol_Conditions =
        [mk_condition ''principal.role'' ''EQUALS'' [''admin'']]\<rparr>"

definition httpbin_staff_read :: "'r policy" where
  "httpbin_staff_read =
     \<lparr>pol_ID = ''pol-allow-staff-read'',
      pol_Description = ''Allow READ to staff principals. Matches when principal.role contains 'admin' or '' @
        '''user'.'',
      pol_Access = AccessAllow,
      pol_Target = \<lparr>tg_ResourceType = ''httpbin'', tg_Action = ''READ''\<rparr>,
      pol_Conditions =
        [mk_condition ''principal.role'' ''CONTAINS_ANY'' [''admin'', ''user'']]\<rparr>"

definition httpbin_blocked_read :: "'r policy" where
  "httpbin_blocked_read =
     \<lparr>pol_ID = ''pol-deny-blocked-read'',
      pol_Description = ''Deny READ to any principal whose roles include 'blocked'. Deny policies override '' @
        ''allow policies in bouncer-engine.'',
      pol_Access = AccessDeny,
      pol_Target = \<lparr>tg_ResourceType = ''httpbin'', tg_Action = ''READ''\<rparr>,
      pol_Conditions =
        [mk_condition ''principal.role'' ''CONTAINS_ANY'' [''blocked'']]\<rparr>"

definition envoy_admin_write :: "'r policy" where
  "envoy_admin_write =
     \<lparr>pol_ID = ''pol-allow-admin-write'',
      pol_Description = ''Allow WRITE to standard endpoints only to principals whose role set is exactly '' @
        ''['admin']. EQUALS compares the full multi-value set, so carol (admin+finance) is '' @
        ''NOT granted write by this policy -- she is scoped to /anything/finance/* via '' @
        ''pol-allow-finance-write. The path REGEX restricts this to httpbin's standard write '' @
        ''endpoints so it doesn't shadow the finance policy.'',
      pol_Access = AccessAllow,
      pol_Target = \<lparr>tg_ResourceType = ''httpbin'', tg_Action = ''WRITE''\<rparr>,
      pol_Conditions =
        [mk_condition ''resource.path'' ''REGEX'' [''^/(post|put|patch|delete)$''],
         mk_condition ''principal.role'' ''EQUALS'' [''admin'']]\<rparr>"

definition envoy_finance_write :: "'r policy" where
  "envoy_finance_write =
     \<lparr>pol_ID = ''pol-allow-finance-write'',
      pol_Description = ''Allow WRITE to /anything/finance/* only to principals who hold BOTH 'admin' and '' @
        '''finance'. Demonstrates a multi-condition ABAC rule combining a resource attribute '' @
        ''(path REGEX) with a principal attribute (role CONTAINS_ALL). carol (admin+finance) '' @
        ''is granted; alice (admin only) is denied. The /anything/finance/ prefix uses '' @
        ''httpbin's catch-all endpoint, which stands in for a real finance service's routes.'',
      pol_Access = AccessAllow,
      pol_Target = \<lparr>tg_ResourceType = ''httpbin'', tg_Action = ''WRITE''\<rparr>,
      pol_Conditions =
        [mk_condition ''resource.path'' ''REGEX'' [''^/anything/finance/''],
         mk_condition ''principal.role'' ''CONTAINS_ALL'' [''admin'', ''finance'']]\<rparr>"

definition envoy_staff_read :: "'r policy" where
  "envoy_staff_read =
     \<lparr>pol_ID = ''pol-allow-staff-read'',
      pol_Description = ''Allow READ to staff principals. Matches when principal.role contains 'admin' or '' @
        '''user'. A blocked principal is rejected by pol-deny-blocked-read before this allow '' @
        ''policy is considered.'',
      pol_Access = AccessAllow,
      pol_Target = \<lparr>tg_ResourceType = ''httpbin'', tg_Action = ''READ''\<rparr>,
      pol_Conditions =
        [mk_condition ''principal.role'' ''CONTAINS_ANY'' [''admin'', ''user'']]\<rparr>"

definition envoy_blocked_read :: "'r policy" where
  "envoy_blocked_read =
     \<lparr>pol_ID = ''pol-deny-blocked-read'',
      pol_Description = ''Deny READ to any principal whose roles include 'blocked'. Deny policies override '' @
        ''allow policies in bouncer-engine, so a blocked principal is rejected even if they '' @
        ''also hold a staff role.'',
      pol_Access = AccessDeny,
      pol_Target = \<lparr>tg_ResourceType = ''httpbin'', tg_Action = ''READ''\<rparr>,
      pol_Conditions =
        [mk_condition ''principal.role'' ''CONTAINS_ANY'' [''blocked'']]\<rparr>"

definition api_example :: "'r policy" where
  "api_example =
     \<lparr>pol_ID = ''pol-sec-ops-001'',
      pol_Description = ''Restrict Sensitive Resource Access Outside Business Hours'',
      pol_Access = AccessAllow,
      pol_Target = \<lparr>tg_ResourceType = ''production-db-backup'', tg_Action = ''READ''\<rparr>,
      pol_Conditions =
        [mk_condition ''principal.roles'' ''CONTAINS_ANY'' [''SecurityAdmin''],
         mk_condition ''environment.ip_address'' ''IN_CIDR'' [''10.0.0.0/16''],
         mk_condition ''environment.hour'' ''BETWEEN'' [''8'', ''18'']]\<rparr>"


subsection \<open>Reading a file by its lines\<close>

text \<open>No literal in these files goes over a line, so every line can be read on its own.\<close>

lemma append_Cons_fun: "(@) (x # xs) = (\<lambda>ys. x # xs @ ys)"
  by auto

lemma lex_line:
  "lex st l = Some ts \<Longrightarrow> lex st (l @ CHR 0x0A # rest) = map_option ((@) ts) (lex Between rest)"
proof (induction st l arbitrary: ts rule: lex.induct)
  case 1
  then show ?case by (simp add: is_space_def option.map_ident)
next
  case (2 w)
  have "\<not> word_char (CHR 0x0A)" by code_simp
  then show ?case using 2 by (auto simp: is_space_def)
qed (auto simp: option.map_comp comp_def append_Cons_fun split: if_splits option.splits)

text \<open>
  A quick reader of a line whose literals are plain, printable ASCII without a backslash, which
  needs no arithmetic on the bytes.
\<close>

fun plain_char :: "char \<Rightarrow> bool" where
  "plain_char (Char b0 b1 b2 b3 b4 b5 b6 b7) \<longleftrightarrow> \<not> b7 \<and> (b5 \<or> b6)
     \<and> (b0 \<or> b1 \<or> \<not> b2 \<or> \<not> b3 \<or> \<not> b4 \<or> b5 \<or> \<not> b6)"

lemma plain_char_code:
  "plain_char c \<Longrightarrow> 32 \<le> (of_char c :: nat) \<and> of_char c < (128 :: nat) \<and> c \<noteq> CHR 0x5C"
  by (cases c) auto

lemma unquote_plain: "\<forall>c \<in> set s. plain_char c \<Longrightarrow> unquote s = s"
proof (induction s)
  case (Cons c s)
  then show ?case
    using plain_char_code [of c] by (subst unquote.simps) (simp add: utf8_len_def)
qed (simp add: unquote.simps)

fun quick_lex :: "string option \<Rightarrow> string \<Rightarrow> token list option" where
  "quick_lex None [] = Some []"
| "quick_lex (Some w) [] = None"
| "quick_lex None (c # cs) =
     (if c = CHR '' '' then quick_lex None cs
      else if c = CHR 0x22 then quick_lex (Some []) cs
      else (case punctuation c of None \<Rightarrow> None | Some t \<Rightarrow> map_option ((#) t) (quick_lex None cs)))"
| "quick_lex (Some w) (c # cs) =
     (if c = CHR 0x22 then map_option ((#) (TStr (rev w))) (quick_lex None cs)
      else if plain_char c then quick_lex (Some (c # w)) cs else None)"

lemma punctuation_no_space: "punctuation c = Some t \<Longrightarrow> \<not> is_space c"
  by (auto simp: punctuation_def is_space_def split: if_splits)

lemma quick_lex_sound:
  "quick_lex m s = Some ts \<Longrightarrow> (\<forall>w. m = Some w \<longrightarrow> (\<forall>c \<in> set w. plain_char c)) \<Longrightarrow>
     lex (case m of None \<Rightarrow> Between | Some w \<Rightarrow> InStr w) s = Some ts"
proof (induction m s arbitrary: ts rule: quick_lex.induct)
  case (3 c cs)
  have "is_space (CHR '' '')" "\<not> is_space (CHR 0x22)"
    by code_simp+
  then show ?case
    using 3 by (auto simp: punctuation_no_space split: if_splits option.splits)
next
  case (4 w c cs)
  then show ?case
    using plain_char_code [of c] unquote_plain [of "rev w"]
    by (auto split: if_splits)
qed auto

fun lex_lines :: "string list \<Rightarrow> token list option" where
  "lex_lines [] = Some []"
| "lex_lines (l # ls) =
     (case quick_lex None l of
        None \<Rightarrow> None
      | Some ts \<Rightarrow> map_option ((@) ts) (lex_lines ls))"

lemma quick_line: "quick_lex None l = Some ts \<Longrightarrow> lex Between l = Some ts"
  using quick_lex_sound [of None l ts] by simp

lemma file_text_lines: "lex_lines ls = Some ts \<Longrightarrow> lex Between (file_text ls) = Some ts"
  by (induction ls arbitrary: ts) (auto simp: file_text_def lex_line dest: quick_line split: option.splits)

lemma file_text_open_lines: "lex_lines ls = Some ts \<Longrightarrow> lex Between (file_text_open ls) = Some ts"
  unfolding file_text_open_def
proof (induction ls arbitrary: ts)
  case (Cons l ls)
  then show ?case by (cases ls) (auto simp: lex_line dest: quick_line split: option.splits)
qed simp

lemma parse_lines:
  "Option.bind (lex_lines ls) (parse_tokens (WantValue [])) = Some t \<Longrightarrow>
     json_parse (file_text ls) = Some t \<and> json_parse (file_text_open ls) = Some t"
  by (cases "lex_lines ls") (simp_all add: json_parse_def file_text_lines file_text_open_lines)

lemma httpbin_admin_write_parses: "json_parse httpbin_admin_write_json = Some (policy_tree httpbin_admin_write)"
  unfolding httpbin_admin_write_json_def by (rule conjunct1 [OF parse_lines]) code_simp

lemma httpbin_staff_read_parses: "json_parse httpbin_staff_read_json = Some (policy_tree httpbin_staff_read)"
  unfolding httpbin_staff_read_json_def by (rule conjunct1 [OF parse_lines]) code_simp

lemma httpbin_blocked_read_parses: "json_parse httpbin_blocked_read_json = Some (policy_tree httpbin_blocked_read)"
  unfolding httpbin_blocked_read_json_def by (rule conjunct1 [OF parse_lines]) code_simp

lemma envoy_admin_write_parses: "json_parse envoy_admin_write_json = Some (policy_tree envoy_admin_write)"
  unfolding envoy_admin_write_json_def by (rule conjunct1 [OF parse_lines]) code_simp

lemma envoy_finance_write_parses: "json_parse envoy_finance_write_json = Some (policy_tree envoy_finance_write)"
  unfolding envoy_finance_write_json_def by (rule conjunct1 [OF parse_lines]) code_simp

lemma envoy_staff_read_parses: "json_parse envoy_staff_read_json = Some (policy_tree envoy_staff_read)"
  unfolding envoy_staff_read_json_def by (rule conjunct1 [OF parse_lines]) code_simp

lemma envoy_blocked_read_parses: "json_parse envoy_blocked_read_json = Some (policy_tree envoy_blocked_read)"
  unfolding envoy_blocked_read_json_def by (rule conjunct1 [OF parse_lines]) code_simp

lemma api_example_parses: "json_parse api_example_json = Some (policy_tree api_example)"
  unfolding api_example_json_def by (rule conjunct2 [OF parse_lines]) code_simp

end
