(* ===== verification/Go_Regexp.thy ===== *)
theory Go_Regexp
  imports Operators Json_Print
begin

text \<open>
  The regular expressions of the Go standard library, as far as the patterns of the repository
  go: literals, escaped punctuation, \<open>.\<close>, classes with ranges, groups, alternation, the greedy
  repetitions \<open>*\<close>, \<open>+\<close> and \<open>?\<close>, and the anchors \<open>^\<close> and \<open>$\<close>, in the syntax of \<open>regexp.Compile\<close>.
  \<open>MatchString\<close> searches: it looks for the expression anywhere in the string, over runes.

  Patterns outside this part of the syntax are left to a parameter, so that nothing is claimed
  about them.
\<close>

subsection \<open>Runes\<close>

text \<open>The library reads a string rune by rune; a byte that starts no well-formed sequence is U+FFFD.\<close>

definition rune_value :: "string \<Rightarrow> nat" where
  "rune_value s =
     (case s of
        [a] \<Rightarrow> of_char a
      | [a, b] \<Rightarrow> (of_char a - 192) * 64 + (of_char b - 128)
      | [a, b, c] \<Rightarrow> (of_char a - 224) * 4096 + (of_char b - 128) * 64 + (of_char c - 128)
      | [a, b, c, d] \<Rightarrow>
          (of_char a - 240) * 262144 + (of_char b - 128) * 4096 + (of_char c - 128) * 64 + (of_char d - 128)
      | _ \<Rightarrow> 65533)"

function runes :: "string \<Rightarrow> nat list" where
  "runes s =
     (if s = [] then []
      else if utf8_len s = 0 then 65533 # runes (tl s)
      else rune_value (take (utf8_len s) s) # runes (drop (utf8_len s) s))"
  by pat_completeness auto
termination
  by (relation "measure length") auto

declare runes.simps [simp del]

lemma runes_Nil [simp]: "runes [] = []"
  by (simp add: runes.simps)

lemma runes_ascii [simp]: "of_char c < (128 :: nat) \<Longrightarrow> runes (c # cs) = of_char c # runes cs"
  by (subst runes.simps) (simp add: utf8_len_def rune_value_def)

lemma runes_high:
  assumes "128 \<le> (of_char c :: nat)"
  shows "\<exists>r rs. runes (c # cs) = r # rs \<and> 128 \<le> r"
proof (cases "utf8_len (c # cs) = 0")
  case True
  then show ?thesis by (subst runes.simps) simp
next
  case False
  then have "0 < utf8_len (c # cs)" by simp
  then have "128 \<le> rune_value (take (utf8_len (c # cs)) (c # cs))"
    by (rule utf8_len_cases [of "c # cs", OF refl])
       (use assms in \<open>auto simp: rune_value_def cont_byte_def diff_mult_distrib split: if_splits\<close>)
  with False show ?thesis by (subst runes.simps) simp
qed

lemma runes_empty [simp]: "runes s = [] \<longleftrightarrow> s = []"
  by (subst runes.simps) simp

text \<open>A text starts with, or is, an ASCII word exactly when its runes do or are.\<close>

definition ascii_word :: "string \<Rightarrow> bool" where
  "ascii_word w \<longleftrightarrow> (\<forall>c \<in> set w. of_char c < (128 :: nat))"

lemma runes_prefix:
  "ascii_word w \<Longrightarrow> take (length w) (runes s) = map of_char w \<longleftrightarrow> take (length w) s = w"
proof (induction w arbitrary: s)
  case (Cons c w)
  then have c: "of_char c < (128 :: nat)" "ascii_word w" by (simp_all add: ascii_word_def)
  show ?case
  proof (cases s)
    case (Cons a s')
    show ?thesis
    proof (cases "of_char a < (128 :: nat)")
      case True
      then show ?thesis using Cons.IH [OF c(2), of s'] \<open>s = a # s'\<close> by simp
    next
      case False
      then obtain r rs where "runes (a # s') = r # rs" "128 \<le> r" using runes_high [of a s'] by auto
      then show ?thesis using c(1) False \<open>s = a # s'\<close> by auto
    qed
  qed simp
qed simp

lemma runes_word: "ascii_word w \<Longrightarrow> runes s = map of_char w \<longleftrightarrow> s = w"
proof (induction w arbitrary: s)
  case Nil
  then show ?case by simp
next
  case (Cons c w)
  then have c: "of_char c < (128 :: nat)" "ascii_word w" by (simp_all add: ascii_word_def)
  show ?case
  proof (cases s)
    case (Cons a s')
    show ?thesis
    proof (cases "of_char a < (128 :: nat)")
      case True
      then show ?thesis using Cons.IH [OF c(2), of s'] \<open>s = a # s'\<close> by simp
    next
      case False
      then obtain r rs where "runes (a # s') = r # rs" "128 \<le> r" using runes_high [of a s'] by auto
      then show ?thesis using c(1) False \<open>s = a # s'\<close> by auto
    qed
  qed simp
qed

lemma runes_of_ascii: "ascii_word s \<Longrightarrow> runes s = map of_char s"
  using runes_word [of s s] by simp

text \<open>Evaluation takes the short way for ASCII text.\<close>

lemma runes_code [code]:
  "runes s =
     (if list_all (\<lambda>c. of_char c < (128 :: nat)) s then map of_char s
      else if utf8_len s = 0 then 65533 # runes (tl s)
      else rune_value (take (utf8_len s) s) # runes (drop (utf8_len s) s))"
  using runes_of_ascii [of s] runes.simps [of s] by (auto simp: ascii_word_def list_all_iff)

subsection \<open>Expressions and what they match\<close>

datatype regexp =
    EmptyMatch
  | CharClass bool "(nat \<times> nat) list"
  | AnyCharNotNL
  | BeginText
  | EndText
  | Concat regexp regexp
  | Alternate regexp regexp
  | Star regexp
  | Plus regexp
  | Quest regexp

text \<open>A class is whether it is negated and its ranges; without the flag for it, \<open>.\<close> is not a line break.\<close>

definition in_class :: "bool \<Rightarrow> (nat \<times> nat) list \<Rightarrow> nat \<Rightarrow> bool" where
  "in_class neg ranges r \<longleftrightarrow> neg \<noteq> list_ex (\<lambda>(lo, hi). lo \<le> r \<and> r \<le> hi) ranges"

text \<open>The relation between the two ends of a match, in positions of the runes of the text.\<close>

primrec spans :: "nat list \<Rightarrow> regexp \<Rightarrow> nat \<Rightarrow> nat \<Rightarrow> bool" where
  "spans t EmptyMatch = (\<lambda>i j. i = j)"
| "spans t (CharClass neg ranges) = (\<lambda>i j. i < length t \<and> in_class neg ranges (t ! i) \<and> j = Suc i)"
| "spans t AnyCharNotNL = (\<lambda>i j. i < length t \<and> t ! i \<noteq> 10 \<and> j = Suc i)"
| "spans t BeginText = (\<lambda>i j. i = 0 \<and> j = i)"
| "spans t EndText = (\<lambda>i j. i = length t \<and> j = i)"
| "spans t (Concat a b) = spans t a OO spans t b"
| "spans t (Alternate a b) = (\<lambda>i j. spans t a i j \<or> spans t b i j)"
| "spans t (Star a) = (spans t a)\<^sup>*\<^sup>*"
| "spans t (Plus a) = spans t a OO (spans t a)\<^sup>*\<^sup>*"
| "spans t (Quest a) = (\<lambda>i j. i = j \<or> spans t a i j)"

lemma rtranclp_bounds:
  assumes "\<And>i j. R i j \<Longrightarrow> i \<le> n \<Longrightarrow> i \<le> j \<and> j \<le> n" "R\<^sup>*\<^sup>* i j" "i \<le> n"
  shows "i \<le> j \<and> j \<le> (n :: nat)"
  using assms(2,3) by (induction rule: rtranclp_induct) (auto dest: assms(1))

lemma spans_bounds: "spans t r i j \<Longrightarrow> i \<le> length t \<Longrightarrow> i \<le> j \<and> j \<le> length t"
proof (induction r arbitrary: i j)
  case (Star r)
  from rtranclp_bounds [OF Star.IH, where i = i and j = j] Star.prems show ?case by simp
next
  case (Plus r)
  then obtain k where k: "spans t r i k" "(spans t r)\<^sup>*\<^sup>* k j" by auto
  have "i \<le> k" "k \<le> length t" using Plus.IH [OF k(1) Plus.prems(2)] by simp_all
  moreover from rtranclp_bounds [OF Plus.IH k(2) this(2)] have "k \<le> j \<and> j \<le> length t" .
  ultimately show ?case by simp
next
  case (Concat a b)
  then obtain k where "spans t a i k" "spans t b k j" by auto
  with Concat.IH(1) [of i k] Concat.IH(2) [of k j] Concat.prems(2) show ?case by simp
next
  case (Alternate a b)
  then show ?case by auto
next
  case (Quest a)
  then show ?case by auto
qed simp_all

subsection \<open>Searching\<close>

text \<open>All positions that repeated steps reach from one; a step that does not advance adds nothing.\<close>

function (sequential) reach :: "(nat \<Rightarrow> nat list) \<Rightarrow> nat \<Rightarrow> nat \<Rightarrow> nat list"
  and reach_all :: "(nat \<Rightarrow> nat list) \<Rightarrow> nat \<Rightarrow> nat \<Rightarrow> nat list \<Rightarrow> nat list" where
  "reach step n i = i # reach_all step n i (step i)"
| "reach_all step n i [] = []"
| "reach_all step n i (j # js) = (if i < j \<and> j \<le> n then reach step n j else []) @ reach_all step n i js"
  by pat_completeness auto
termination
  by (relation "measures [\<lambda>x. case x of Inl (step, n, i) \<Rightarrow> n - i | Inr (step, n, i, js) \<Rightarrow> n - i,
      \<lambda>x. case x of Inl _ \<Rightarrow> 1 | Inr _ \<Rightarrow> 0,
      \<lambda>x. case x of Inl _ \<Rightarrow> 0 | Inr (step, n, i, js) \<Rightarrow> length js]") auto

declare reach.simps [simp del]

lemma reach_all_map:
  "reach_all step n i js = concat (map (\<lambda>j. if i < j \<and> j \<le> n then reach step n j else []) js)"
  by (induction js) simp_all

lemma reach_unfold:
  "reach step n i = i # concat (map (\<lambda>j. if i < j \<and> j \<le> n then reach step n j else []) (step i))"
  by (simp add: reach.simps reach_all_map)

primrec ends :: "regexp \<Rightarrow> nat list \<Rightarrow> nat \<Rightarrow> nat list" where
  "ends EmptyMatch t i = [i]"
| "ends (CharClass neg ranges) t i = (if i < length t \<and> in_class neg ranges (t ! i) then [Suc i] else [])"
| "ends AnyCharNotNL t i = (if i < length t \<and> t ! i \<noteq> 10 then [Suc i] else [])"
| "ends BeginText t i = (if i = 0 then [i] else [])"
| "ends EndText t i = (if i = length t then [i] else [])"
| "ends (Concat a b) t i = concat (map (ends b t) (ends a t i))"
| "ends (Alternate a b) t i = ends a t i @ ends b t i"
| "ends (Star a) t i = reach (ends a t) (length t) i"
| "ends (Plus a) t i = concat (map (reach (ends a t) (length t)) (ends a t i))"
| "ends (Quest a) t i = i # ends a t i"

definition MatchString :: "regexp \<Rightarrow> string \<Rightarrow> bool" where
  "MatchString r s = list_ex (\<lambda>i. ends r (runes s) i \<noteq> []) [0..<Suc (length (runes s))]"

lemma reach_sound:
  assumes "\<And>i j. i \<le> n \<Longrightarrow> j \<in> set (step i) \<Longrightarrow> R i j"
  shows "i \<le> n \<Longrightarrow> j \<in> set (reach step n i) \<Longrightarrow> R\<^sup>*\<^sup>* i j"
proof (induction "n - i" arbitrary: i rule: less_induct)
  case less
  from less.prems(2) consider "j = i" | k where "k \<in> set (step i)" "i < k" "k \<le> n" "j \<in> set (reach step n k)"
    by (subst (asm) reach_unfold) (auto split: if_splits)
  then show ?case
  proof cases
    case 2
    then have "R\<^sup>*\<^sup>* k j" using less.hyps [of k] by simp
    with assms [OF less.prems(1) 2(1)] show ?thesis by (rule converse_rtranclp_into_rtranclp)
  qed simp
qed

lemma reach_complete:
  assumes "\<And>i j. i \<le> n \<Longrightarrow> R i j \<Longrightarrow> j \<in> set (step i) \<and> i \<le> j \<and> j \<le> n" "R\<^sup>*\<^sup>* i j"
  shows "i \<le> n \<Longrightarrow> j \<in> set (reach step n i)"
  using assms(2)
proof (induction rule: converse_rtranclp_induct)
  case base
  show ?case by (subst reach_unfold) simp
next
  case (step i k)
  then have k: "k \<in> set (step i)" "i \<le> k" "k \<le> n" "j \<in> set (reach step n k)"
    using assms(1) [of i k] by simp_all
  then show ?case
  proof (cases "k = i")
    case False
    with k have "j \<in> set (concat (map (\<lambda>j. if i < j \<and> j \<le> n then reach step n j else []) (step i)))"
      by (auto intro!: bexI [of _ k])
    then show ?thesis by (subst reach_unfold) simp
  qed simp
qed

lemma ends_spans: "i \<le> length t \<Longrightarrow> j \<in> set (ends r t i) \<longleftrightarrow> spans t r i j"
proof (induction r arbitrary: i j)
  case (Concat a b)
  then show ?case using spans_bounds [of t a i] by (auto simp: relcompp_apply)
next
  case (Star a)
  then show ?case
    using reach_sound [of "length t" "ends a t" "spans t a" i j]
      reach_complete [of "length t" "spans t a" "ends a t" i j] spans_bounds by (auto simp: Star.IH)
next
  case (Plus a)
  have "j \<in> set (reach (ends a t) (length t) k) \<longleftrightarrow> (spans t a)\<^sup>*\<^sup>* k j" if "k \<le> length t" for k
    using reach_sound [of "length t" "ends a t" "spans t a" k j] that
      reach_complete [of "length t" "spans t a" "ends a t" k j] spans_bounds by (auto simp: Plus.IH)
  with Plus show ?case using spans_bounds [of t a i] by (auto simp: relcompp_apply)
qed auto

text \<open>The search finds a match exactly when there is one between any two positions of the text.\<close>

lemma MatchString_spans:
  "MatchString r s \<longleftrightarrow> (\<exists>i j. i \<le> length (runes s) \<and> spans (runes s) r i j)"
proof -
  have "ends r (runes s) i \<noteq> [] \<longleftrightarrow> (\<exists>j. spans (runes s) r i j)" if "i \<le> length (runes s)" for i
    using ends_spans [OF that, of _ r] by (metis all_not_in_conv set_empty)
  moreover have "MatchString r s \<longleftrightarrow> (\<exists>i \<in> {..length (runes s)}. ends r (runes s) i \<noteq> [])"
    by (simp add: MatchString_def list_ex_iff atLeast0LessThan lessThan_Suc_atMost del: upt_Suc)
  ultimately show ?thesis by auto
qed

subsection \<open>Reading a pattern\<close>

text \<open>The characters that stand for themselves, and those that an escape makes do so.\<close>

definition regexp_literal :: "char \<Rightarrow> bool" where
  "regexp_literal c \<longleftrightarrow> of_char c < (128 :: nat) \<and> c \<notin> set (CHR 0x5C # ''.+*?()|[]{}^$'')"

definition alphanumeric :: "char \<Rightarrow> bool" where
  "alphanumeric c \<longleftrightarrow> (let n = of_char c :: nat
     in 48 \<le> n \<and> n \<le> 57 \<or> 65 \<le> n \<and> n \<le> 90 \<or> 97 \<le> n \<and> n \<le> 122)"

definition single :: "char \<Rightarrow> regexp" where
  "single c = CharClass False [(of_char c, of_char c)]"

text \<open>The members of a class up to its bracket; brackets and escapes inside are not read.\<close>

definition class_char :: "char \<Rightarrow> bool" where
  "class_char c \<longleftrightarrow> of_char c < (128 :: nat) \<and> c \<notin> set [CHR ''['', CHR '']'', CHR 0x5C]"

fun read_class :: "(nat \<times> nat) list \<Rightarrow> string \<Rightarrow> ((nat \<times> nat) list \<times> string) option" where
  "read_class acc [] = None"
| "read_class acc [c] = (if c = CHR '']'' \<and> acc \<noteq> [] then Some (rev acc, []) else None)"
| "read_class acc [c, d] =
     (if c = CHR '']'' then (if acc \<noteq> [] then Some (rev acc, [d]) else None)
      else if class_char c then read_class ((of_char c, of_char c) # acc) [d] else None)"
| "read_class acc (c # d # e # cs) =
     (if c = CHR '']'' then (if acc \<noteq> [] then Some (rev acc, d # e # cs) else None)
      else if \<not> class_char c then None
      else if d = CHR ''-'' \<and> e \<noteq> CHR '']'' then
        (if class_char e \<and> of_char c \<le> (of_char e :: nat) then read_class ((of_char c, of_char e) # acc) cs
         else None)
      else read_class ((of_char c, of_char c) # acc) (d # e # cs))"

lemma read_class_length: "read_class acc s = Some (ranges, rest) \<Longrightarrow> length rest < length s"
  by (induction acc s rule: read_class.induct) (fastforce split: if_splits)+

text \<open>
  The reader keeps the sequence and the alternatives of the open groups, latest first, and
  whether the last token was a repetition: two in a row are an error, and so is one with
  nothing to repeat, which also rejects the extensions that begin with a question mark.
\<close>

definition sequence :: "regexp list \<Rightarrow> regexp" where
  "sequence rs = foldr Concat (rev rs) EmptyMatch"

definition group :: "regexp list \<Rightarrow> regexp list \<Rightarrow> regexp" where
  "group alts rs = foldr Alternate (rev alts) (sequence rs)"

type_synonym open_group = "regexp list \<times> regexp list"

definition repetition :: "char \<Rightarrow> (regexp \<Rightarrow> regexp) option" where
  "repetition c =
     (if c = CHR ''*'' then Some Star else if c = CHR ''+'' then Some Plus
      else if c = CHR ''?'' then Some Quest else None)"

definition simple_token :: "char \<Rightarrow> regexp option" where
  "simple_token c =
     (if c = CHR ''.'' then Some AnyCharNotNL else if c = CHR ''^'' then Some BeginText
      else if c = CHR ''$'' then Some EndText
      else if regexp_literal c then Some (single c) else None)"

function read_regexp ::
  "bool \<Rightarrow> open_group list \<Rightarrow> regexp list \<Rightarrow> regexp list \<Rightarrow> string \<Rightarrow> regexp option" where
  "read_regexp rep opened alts rs s =
     (case s of
        [] \<Rightarrow> if opened = [] then Some (group alts rs) else None
      | c # cs \<Rightarrow>
          if c = CHR ''('' then read_regexp False ((alts, rs) # opened) [] [] cs
          else if c = CHR '')'' then
            (case opened of
               [] \<Rightarrow> None
             | (alts', rs') # opened' \<Rightarrow> read_regexp False opened' alts' (group alts rs # rs') cs)
          else if c = CHR ''|'' then read_regexp False opened (sequence rs # alts) [] cs
          else if c = CHR ''['' then
            (let neg = (cs \<noteq> [] \<and> hd cs = CHR ''^'')
             in case read_class [] (if neg then tl cs else cs) of
                  None \<Rightarrow> None
                | Some (ranges, rest) \<Rightarrow> read_regexp False opened alts (CharClass neg ranges # rs) rest)
          else if c = CHR 0x5C then
            (case cs of
               [] \<Rightarrow> None
             | e # es \<Rightarrow>
                 if of_char e < (128 :: nat) \<and> \<not> alphanumeric e
                 then read_regexp False opened alts (single e # rs) es else None)
          else
            (case repetition c of
               Some f \<Rightarrow>
                 (case rs of
                    [] \<Rightarrow> None
                  | r # rs' \<Rightarrow> if rep then None else read_regexp True opened alts (f r # rs') cs)
             | None \<Rightarrow>
                 (case simple_token c of
                    None \<Rightarrow> None
                  | Some r \<Rightarrow> read_regexp False opened alts (r # rs) cs)))"
  by pat_completeness auto
termination
  by (relation "measure (\<lambda>(rep, opened, alts, rs, s). length s)")
     (auto dest!: read_class_length split: if_splits)

declare read_regexp.simps [simp del]

text \<open>Short patterns only: the library has limits on the size and the nesting of an expression.\<close>

definition parse_regexp :: "string \<Rightarrow> regexp option" where
  "parse_regexp s = (if length s \<le> 500 then read_regexp False [] [] [] s else None)"

text \<open>The library: this reader where it understands the pattern, and the parameter elsewhere.\<close>

definition go_regexp :: "'r regexp_lib \<Rightarrow> (regexp + 'r) regexp_lib" where
  "go_regexp other =
     \<lparr>rx_Compile = (\<lambda>s. case parse_regexp s of
          Some r \<Rightarrow> Inr (Inl r)
        | None \<Rightarrow> map_sum (\<lambda>err. err) Inr (rx_Compile other s)),
      rx_MatchString = (\<lambda>r s. case r of Inl r' \<Rightarrow> MatchString r' s | Inr r' \<Rightarrow> rx_MatchString other r' s)\<rparr>"

lemma go_regexp_read [simp]:
  "parse_regexp s = Some r \<Longrightarrow> rx_Compile (go_regexp other) s = Inr (Inl r)"
  "rx_MatchString (go_regexp other) (Inl r) text = MatchString r text"
  by (simp_all add: go_regexp_def)

subsection \<open>Literal words\<close>

definition word_then :: "string \<Rightarrow> regexp \<Rightarrow> regexp" where
  "word_then w r = foldr (\<lambda>c. Concat (single c)) w r"

lemma spans_single: "spans t (single c) i j \<longleftrightarrow> i < length t \<and> t ! i = of_char c \<and> j = Suc i"
  by (auto simp: single_def in_class_def)

lemma spans_word:
  "spans t (word_then w r) i j \<longleftrightarrow> take (length w) (drop i t) = map of_char w \<and> spans t r (i + length w) j"
proof (induction w arbitrary: i)
  case (Cons c w)
  have "spans t (word_then (c # w) r) i j
      \<longleftrightarrow> i < length t \<and> t ! i = of_char c \<and> spans t (word_then w r) (Suc i) j"
    by (auto simp: word_then_def spans_single relcompp_apply)
  moreover have "drop i t = t ! i # drop (Suc i) t" if "i < length t"
    using that by (simp add: Cons_nth_drop_Suc)
  ultimately show ?case by (cases "i < length t") (auto simp: Cons.IH)
qed (simp add: word_then_def)

lemma two_words:
  "take (length u) t = map of_char u \<and> take (length v) (drop (length u) t) = map of_char v
     \<and> length u + length v = length t \<longleftrightarrow> t = map of_char (u @ v)"
  by (auto simp: take_add [symmetric] append_eq_conv_conj)
     (metis append_take_drop_id drop_drop drop_all le_refl append_Nil2 add.commute)

subsection \<open>REGEX conditions\<close>

lemma compile_conditions_nth:
  assumes "compile_conditions rx pid conds = (conds', None)" "n < length conds"
  shows "conds' ! n = (if cond_Operator (conds ! n) \<noteq> ''REGEX'' \<or> cond_Value (conds ! n) = [] then conds ! n
    else (conds ! n)\<lparr>cond_CompiledRegex := Some (projr (rx_Compile rx (hd (cond_Value (conds ! n)))))\<rparr>)"
  using assms
proof (induction conds arbitrary: conds' n)
  case (Cons cond conds)
  then show ?case by (cases n) (auto split: if_splits sum.splits prod.splits)
qed simp


text \<open>The pattern \<open>a.+\<close> in a value around it, and a value that ends too early.\<close>

definition search_policy :: "(regexp + string) policy" where
  "search_policy = mk_policy ''p'' AccessAllow ''doc'' ''READ'' [mk_condition ''principal.id'' ''REGEX'' [''a.+'']]"

definition search_request :: "string \<Rightarrow> EvaluationRequest" where
  "search_request v =
     \<lparr>req_PrincipalID = [], req_PrincipalAttributes = [(''id'', [v])], req_ResourceType = ''doc'',
      req_ResourceID = [], req_ResourceAttributes = [], req_Action = ''READ'', req_EnvironmentAttributes = []\<rparr>"


end
