(* ===== verification/Demo_Decisions.thy ===== *)
theory Demo_Decisions
  imports Demo_Policies Demo_Clients Deployment Go_Regexp
begin

text \<open>
  What the two demonstrations let through.  The directories of policy files are loaded, seeded
  through the stream and applied by the process; the decisions of the enforcement points are
  then those that the walkthroughs of the two README files describe.
\<close>

subsection \<open>What the files decode to\<close>

lemma Unmarshal_meta_tree: "json_parse doc = Some (policy_tree p) \<Longrightarrow> Unmarshal_meta doc = Some (pol_ID p)"
proof -
  have keys: "key_is ''id'' ''id''" "\<not> key_is ''description'' ''id''" "\<not> key_is ''access'' ''id''"
    "\<not> key_is ''target'' ''id''" "\<not> key_is ''conditions'' ''id''" by code_simp+
  then have "decode_struct meta_field [] (policy_tree p) = Some (pol_ID p)"
    by (simp add: decode_struct_def policy_tree_def meta_field_def)
  then show "json_parse doc = Some (policy_tree p) \<Longrightarrow> Unmarshal_meta doc = Some (pol_ID p)"
    by (simp add: Unmarshal_meta_def)
qed

lemma Unmarshal_policy_tree:
  "json_parse doc = Some (policy_tree p) \<Longrightarrow> Unmarshal_policy doc = Some (source_policy p)"
  by (simp add: Unmarshal_policy_def decode_tree)

text \<open>The identifiers and the access modes of the demonstrations, by name.\<close>

lemmas demo_policy_defs = httpbin_admin_write_def httpbin_staff_read_def httpbin_blocked_read_def
  envoy_admin_write_def envoy_finance_write_def envoy_staff_read_def envoy_blocked_read_def api_example_def

lemmas demo_files_parse = httpbin_admin_write_parses httpbin_staff_read_parses httpbin_blocked_read_parses
  envoy_admin_write_parses envoy_finance_write_parses envoy_staff_read_parses envoy_blocked_read_parses


lemma demo_policy_ids:
  "pol_ID httpbin_admin_write = ''pol-allow-admin-write''" "pol_ID httpbin_staff_read = ''pol-allow-staff-read''"
  "pol_ID httpbin_blocked_read = ''pol-deny-blocked-read''" "pol_ID envoy_admin_write = ''pol-allow-admin-write''"
  "pol_ID envoy_finance_write = ''pol-allow-finance-write''" "pol_ID envoy_staff_read = ''pol-allow-staff-read''"
  "pol_ID envoy_blocked_read = ''pol-deny-blocked-read''"
  by (simp_all add: demo_policy_defs)

lemma demo_metas:
  "Unmarshal_meta httpbin_admin_write_json = Some ''pol-allow-admin-write''"
  "Unmarshal_meta httpbin_staff_read_json = Some ''pol-allow-staff-read''"
  "Unmarshal_meta httpbin_blocked_read_json = Some ''pol-deny-blocked-read''"
  "Unmarshal_meta envoy_admin_write_json = Some ''pol-allow-admin-write''"
  "Unmarshal_meta envoy_finance_write_json = Some ''pol-allow-finance-write''"
  "Unmarshal_meta envoy_staff_read_json = Some ''pol-allow-staff-read''"
  "Unmarshal_meta envoy_blocked_read_json = Some ''pol-deny-blocked-read''"
  using demo_files_parse [THEN Unmarshal_meta_tree] by (simp_all add: demo_policy_ids)

lemma demo_policy_accesses:
  "pol_Access httpbin_admin_write = AccessAllow" "pol_Access httpbin_staff_read = AccessAllow"
  "pol_Access httpbin_blocked_read = AccessDeny" "pol_Access envoy_admin_write = AccessAllow"
  "pol_Access envoy_finance_write = AccessAllow" "pol_Access envoy_staff_read = AccessAllow"
  "pol_Access envoy_blocked_read = AccessDeny"
  by (simp_all add: demo_policy_defs)

text \<open>None of them carries a compiled expression before it is compiled.\<close>

lemma demo_sources:
  "source_policy httpbin_admin_write = httpbin_admin_write" "source_policy httpbin_staff_read = httpbin_staff_read"
  "source_policy httpbin_blocked_read = httpbin_blocked_read" "source_policy envoy_admin_write = envoy_admin_write"
  "source_policy envoy_finance_write = envoy_finance_write" "source_policy envoy_staff_read = envoy_staff_read"
  "source_policy envoy_blocked_read = envoy_blocked_read"
  by (simp_all add: demo_policy_defs source_policy_def source_condition_def mk_condition_def)

lemma file_upsert:
  assumes "json_parse doc = Some (policy_tree p)" "Compile rx (source_policy p) = (p', None)"
    and "pol_Access p' = AccessAllow \<or> pol_Access p' = AccessDeny"
  shows "entry_updates rx (file_entry \<lparr>pf_id = i, pf_json = doc\<rparr>) = [Upsert p']"
proof -
  have "pol_Access (source_policy p) = pol_Access p'" using Compile_ID [OF assms(2)] by simp
  then show ?thesis
    unfolding file_entry_def policyFile.simps
    by (intro entry_updates_upsert [OF Unmarshal_policy_tree [OF assms(1)] assms(2)]) (simp add: assms(3))
qed

subsection \<open>The directories\<close>

definition policy_dir :: "(string \<times> string) list \<Rightarrow> dir_entry list" where
  "policy_dir files = map (\<lambda>(name, text). \<lparr>de_name = name, de_isDir = False, de_data = Some text\<rparr>) files"

definition httpbin_dir :: "dir_entry list" where
  "httpbin_dir = policy_dir
     [(''pol-allow-admin-write.json'', httpbin_admin_write_json),
      (''pol-allow-staff-read.json'', httpbin_staff_read_json),
      (''pol-deny-blocked-read.json'', httpbin_blocked_read_json)]"

definition envoy_dir :: "dir_entry list" where
  "envoy_dir = policy_dir
     [(''pol-allow-admin-write.json'', envoy_admin_write_json),
      (''pol-allow-finance-write.json'', envoy_finance_write_json),
      (''pol-allow-staff-read.json'', envoy_staff_read_json),
      (''pol-deny-blocked-read.json'', envoy_blocked_read_json)]"

text \<open>A sort by distinct identifiers has one result only.\<close>

lemma sorted_result:
  assumes "sorts_by_id f" "sorted (map pf_id xs)" "distinct (map pf_id xs)"
  shows "f xs = xs"
proof -
  have "mset (f xs) = mset xs" "sorted (map pf_id (f xs))" using assms(1) by (auto simp: sorts_by_id_def)
  moreover from this have "inj_on pf_id (set xs)" using assms(3) by (simp add: distinct_map)
  ultimately have "sort_key pf_id xs = f xs" by (metis sort_key_inj_key_eq mset_eq_setD)
  then show ?thesis using sort_key_id_if_sorted [OF assms(2)] by simp
qed

lemma httpbin_files:
  assumes "sorts_by_id f"
  shows "loadPolicyFiles f (Some httpbin_dir) =
    [\<lparr>pf_id = ''pol-allow-admin-write'', pf_json = httpbin_admin_write_json\<rparr>,
     \<lparr>pf_id = ''pol-allow-staff-read'', pf_json = httpbin_staff_read_json\<rparr>,
     \<lparr>pf_id = ''pol-deny-blocked-read'', pf_json = httpbin_blocked_read_json\<rparr>]"
proof -
  have "collect_files httpbin_dir =
    [\<lparr>pf_id = ''pol-allow-admin-write'', pf_json = httpbin_admin_write_json\<rparr>,
     \<lparr>pf_id = ''pol-allow-staff-read'', pf_json = httpbin_staff_read_json\<rparr>,
     \<lparr>pf_id = ''pol-deny-blocked-read'', pf_json = httpbin_blocked_read_json\<rparr>]" (is "_ = ?files")
    by (simp add: httpbin_dir_def policy_dir_def strings_HasSuffix_def demo_metas)
  moreover have "sorted [''pol-allow-admin-write'', ''pol-allow-staff-read'', ''pol-deny-blocked-read'']"
    by code_simp
  ultimately show ?thesis
    using sorted_result [OF assms, of ?files] by (simp add: loadPolicyFiles_def)
qed

lemma envoy_files:
  assumes "sorts_by_id f"
  shows "loadPolicyFiles f (Some envoy_dir) =
    [\<lparr>pf_id = ''pol-allow-admin-write'', pf_json = envoy_admin_write_json\<rparr>,
     \<lparr>pf_id = ''pol-allow-finance-write'', pf_json = envoy_finance_write_json\<rparr>,
     \<lparr>pf_id = ''pol-allow-staff-read'', pf_json = envoy_staff_read_json\<rparr>,
     \<lparr>pf_id = ''pol-deny-blocked-read'', pf_json = envoy_blocked_read_json\<rparr>]"
proof -
  have "collect_files envoy_dir =
    [\<lparr>pf_id = ''pol-allow-admin-write'', pf_json = envoy_admin_write_json\<rparr>,
     \<lparr>pf_id = ''pol-allow-finance-write'', pf_json = envoy_finance_write_json\<rparr>,
     \<lparr>pf_id = ''pol-allow-staff-read'', pf_json = envoy_staff_read_json\<rparr>,
     \<lparr>pf_id = ''pol-deny-blocked-read'', pf_json = envoy_blocked_read_json\<rparr>]" (is "_ = ?files")
    by (simp add: envoy_dir_def policy_dir_def strings_HasSuffix_def demo_metas)
  moreover have "sorted [''pol-allow-admin-write'', ''pol-allow-finance-write'', ''pol-allow-staff-read'',
      ''pol-deny-blocked-read'']"
    by code_simp
  ultimately show ?thesis
    using sorted_result [OF assms, of ?files] by (simp add: loadPolicyFiles_def)
qed

subsection \<open>The demonstration behind the reverse proxy\<close>

text \<open>A condition on the roles of the principal.\<close>

lemma role_condition:
  "gomap_get (req_PrincipalAttributes req) ''role'' = Some roles \<Longrightarrow>
     EvaluateCondition rx (mk_condition ''principal.role'' op vs) req
       = apply_operator rx (mk_condition ''principal.role'' op vs) roles"
  by (simp add: EvaluateCondition_def mk_condition_def attribute_map_def)

lemma role_operators:
  "apply_operator rx (mk_condition a ''CONTAINS_ANY'' (v # vs)) roles \<longleftrightarrow> (\<exists>r \<in> set (v # vs). r \<in> set roles)"
  "apply_operator rx (mk_condition a ''EQUALS'' [v]) roles \<longleftrightarrow> roles = [v]"
  "apply_operator rx (mk_condition a ''CONTAINS_ALL'' [v, w]) roles
     \<longleftrightarrow> 2 \<le> length roles \<and> v \<in> set roles \<and> w \<in> set roles"
  by (auto simp: apply_operator_def mk_condition_def evalContainsAny_def evalContainsAll_def any_present_iff
      all_present_iff value_set_iff evalEquals_multiset)

lemma two_roles: "v \<noteq> w \<Longrightarrow> v \<in> set roles \<Longrightarrow> w \<in> set roles \<Longrightarrow> 2 \<le> length roles"
  by (metis One_nat_def Suc_1 Suc_leI card_2_iff card_length card_mono empty_subsetI insert_subset
      le_trans List.finite_set order_refl)

text \<open>Who may read: a member of the staff who is not blocked.\<close>

definition staff_unblocked :: "string list \<Rightarrow> bool" where
  "staff_unblocked roles \<longleftrightarrow>
     (''admin'' \<in> set roles \<or> ''user'' \<in> set roles) \<and> ''blocked'' \<notin> set roles"

definition httpbin_grants :: "string \<Rightarrow> string list \<Rightarrow> bool" where
  "httpbin_grants action roles \<longleftrightarrow>
     (if action = ''READ'' then staff_unblocked roles else action = ''WRITE'' \<and> roles = [''admin''])"

lemma httpbin_compile:
  "Compile rx httpbin_admin_write = (httpbin_admin_write, None)"
  "Compile rx httpbin_staff_read = (httpbin_staff_read, None)"
  "Compile rx httpbin_blocked_read = (httpbin_blocked_read, None)"
  "Compile rx envoy_staff_read = (envoy_staff_read, None)"
  "Compile rx envoy_blocked_read = (envoy_blocked_read, None)"
  by (rule no_regex_Compile, simp add: demo_policy_defs mk_condition_def)+

lemma httpbin_files_updates:
  assumes "sorts_by_id f"
  shows "files_updates rx (loadPolicyFiles f (Some httpbin_dir))
    = [Upsert httpbin_admin_write, Upsert httpbin_staff_read, Upsert httpbin_blocked_read]"
proof -
  note upsert = file_upsert [OF httpbin_admin_write_parses, unfolded demo_sources, OF httpbin_compile(1)]
    file_upsert [OF httpbin_staff_read_parses, unfolded demo_sources, OF httpbin_compile(2)]
    file_upsert [OF httpbin_blocked_read_parses, unfolded demo_sources, OF httpbin_compile(3)]
  show ?thesis
    by (simp add: httpbin_files [OF assms] files_updates_def upsert demo_policy_accesses)
qed

text \<open>Deny overrides over a table whose policies are given one by one.\<close>

lemma authorized_ran:
  "ran tab = P \<Longrightarrow> authorized rx tab req \<longleftrightarrow>
     (\<exists>p \<in> P. pol_Access p = AccessAllow \<and> applies rx p req)
     \<and> \<not> (\<exists>p \<in> P. pol_Access p \<noteq> AccessAllow \<and> applies rx p req)"
  by (auto simp: authorized_def granted_def allow_part_def deny_part_def)

lemma httpbin_demo_authorized:
  assumes "sorts_by_id f" "req_ResourceType req = ''httpbin''"
    and "gomap_get (req_PrincipalAttributes req) ''role'' = Some roles"
  shows "authorized rx (foldl table_update (\<lambda>_. None)
      (files_updates rx (loadPolicyFiles f (Some httpbin_dir)))) req \<longleftrightarrow> httpbin_grants (req_Action req) roles"
proof -
  have "ran (foldl table_update (\<lambda>_. None) (files_updates rx (loadPolicyFiles f (Some httpbin_dir))))
      = {httpbin_admin_write, httpbin_staff_read, httpbin_blocked_read}"
    by (simp add: httpbin_files_updates [OF assms(1)] demo_policy_ids ran_map_upd insert_commute)
  moreover have "applies rx httpbin_admin_write req \<longleftrightarrow> req_Action req = ''WRITE'' \<and> roles = [''admin'']"
    "applies rx httpbin_staff_read req \<longleftrightarrow> req_Action req = ''READ'' \<and> (''admin'' \<in> set roles \<or> ''user'' \<in> set roles)"
    "applies rx httpbin_blocked_read req \<longleftrightarrow> req_Action req = ''READ'' \<and> ''blocked'' \<in> set roles"
    using assms(2)
    by (simp_all add: applies_iff demo_policy_defs role_condition [OF assms(3)] role_operators)
  ultimately show ?thesis
    by (auto simp: authorized_ran demo_policy_accesses httpbin_grants_def staff_unblocked_def)
qed

subsection \<open>The demonstration behind Envoy\<close>

text \<open>
  What the two patterns of the policies match, which is all that the demonstration asks of the
  regular expressions: one of four whole paths, and a prefix.  Go's regular expressions do.
\<close>

definition write_pattern :: string where "write_pattern = ''^/(post|put|patch|delete)$''"

definition finance_pattern :: string where "finance_pattern = ''^/anything/finance/''"

definition write_paths :: "string set" where
  "write_paths = {''/post'', ''/put'', ''/patch'', ''/delete''}"

definition finance_path :: "string \<Rightarrow> bool" where
  "finance_path path \<longleftrightarrow> take 18 path = ''/anything/finance/''"

definition demo_patterns :: "'r regexp_lib \<Rightarrow> bool" where
  "demo_patterns rx \<longleftrightarrow>
     (\<exists>w. rx_Compile rx write_pattern = Inr w \<and> (\<forall>path. rx_MatchString rx w path \<longleftrightarrow> path \<in> write_paths))
     \<and> (\<exists>f. rx_Compile rx finance_pattern = Inr f \<and> (\<forall>path. rx_MatchString rx f path \<longleftrightarrow> finance_path path))"

definition write_regexp :: regexp where
  "write_regexp = Concat BeginText (word_then ''/'' (Concat
     (Alternate (word_then ''post'' EmptyMatch) (Alternate (word_then ''put'' EmptyMatch)
       (Alternate (word_then ''patch'' EmptyMatch) (word_then ''delete'' EmptyMatch))))
     (Concat EndText EmptyMatch)))"

definition finance_regexp :: regexp where
  "finance_regexp = Concat BeginText (word_then ''/anything/finance/'' EmptyMatch)"

lemma demo_patterns_parse:
  "parse_regexp write_pattern = Some write_regexp" "parse_regexp finance_pattern = Some finance_regexp"
  by code_simp+

lemma write_regexp_matches: "MatchString write_regexp path \<longleftrightarrow> path \<in> write_paths"
proof -
  let ?t = "runes path"
  have "MatchString write_regexp path
      \<longleftrightarrow> (\<exists>w \<in> {''post'', ''put'', ''patch'', ''delete''}.
            take (length ''/'') ?t = map of_char ''/'' \<and> take (length w) (drop (length ''/'') ?t) = map of_char w
            \<and> length ''/'' + length w = length ?t)"
    unfolding MatchString_spans write_regexp_def by (auto simp: spans_word relcompp_apply simp del: take_Suc_Cons)
  also have "\<dots> \<longleftrightarrow> (\<exists>w \<in> {''post'', ''put'', ''patch'', ''delete''}. ?t = map of_char (''/'' @ w))"
    unfolding two_words ..
  also have "\<dots> \<longleftrightarrow> (\<exists>w \<in> {''post'', ''put'', ''patch'', ''delete''}. path = ''/'' @ w)"
    by (intro bex_cong refl runes_word) (auto simp: ascii_word_def)
  finally show ?thesis by (auto simp: write_paths_def)
qed

lemma finance_regexp_matches: "MatchString finance_regexp path \<longleftrightarrow> finance_path path"
proof -
  have "MatchString finance_regexp path
      \<longleftrightarrow> take (length ''/anything/finance/'') (runes path) = map of_char ''/anything/finance/''"
    unfolding MatchString_spans finance_regexp_def by (simp only: spans.simps relcompp_apply spans_word) auto
  also have "\<dots> \<longleftrightarrow> take (length ''/anything/finance/'') path = ''/anything/finance/''"
    by (rule runes_prefix) (simp add: ascii_word_def)
  finally show ?thesis by (simp add: finance_path_def eval_nat_numeral)
qed

lemma demo_patterns_go: "demo_patterns (go_regexp other)"
  by (simp add: demo_patterns_def demo_patterns_parse write_regexp_matches finance_regexp_matches)

definition envoy_grants :: "string \<Rightarrow> string \<Rightarrow> string list \<Rightarrow> bool" where
  "envoy_grants action path roles \<longleftrightarrow>
     (if action = ''READ'' then staff_unblocked roles
      else action = ''WRITE''
        \<and> (path \<in> write_paths \<and> roles = [''admin'']
           \<or> finance_path path \<and> ''admin'' \<in> set roles \<and> ''finance'' \<in> set roles))"

text \<open>Compiling a policy whose first condition is a REGEX and whose second is not.\<close>

definition with_regex :: "'r \<Rightarrow> 'r policy \<Rightarrow> 'r policy" where
  "with_regex r p = p\<lparr>pol_Conditions :=
     (hd (pol_Conditions p))\<lparr>cond_CompiledRegex := Some r\<rparr> # tl (pol_Conditions p)\<rparr>"

lemma with_regex_fields [simp]:
  "pol_ID (with_regex r p) = pol_ID p" "pol_Access (with_regex r p) = pol_Access p"
  "pol_Target (with_regex r p) = pol_Target p"
  by (simp_all add: with_regex_def)

lemma envoy_compile:
  "rx_Compile rx write_pattern = Inr w \<Longrightarrow>
     Compile rx envoy_admin_write = (with_regex w envoy_admin_write, None)"
  "rx_Compile rx finance_pattern = Inr f \<Longrightarrow>
     Compile rx envoy_finance_write = (with_regex f envoy_finance_write, None)"
  by (simp_all add: Compile_def with_regex_def envoy_admin_write_def envoy_finance_write_def
      mk_condition_def write_pattern_def finance_pattern_def)

lemma envoy_files_updates:
  assumes "sorts_by_id g" "rx_Compile rx write_pattern = Inr w" "rx_Compile rx finance_pattern = Inr f"
  shows "files_updates rx (loadPolicyFiles g (Some envoy_dir))
    = [Upsert (with_regex w envoy_admin_write), Upsert (with_regex f envoy_finance_write),
       Upsert envoy_staff_read, Upsert envoy_blocked_read]"
proof -
  note upsert =
    file_upsert [OF envoy_admin_write_parses, unfolded demo_sources, OF envoy_compile(1) [OF assms(2)]]
    file_upsert [OF envoy_finance_write_parses, unfolded demo_sources, OF envoy_compile(2) [OF assms(3)]]
    file_upsert [OF envoy_staff_read_parses, unfolded demo_sources, OF httpbin_compile(4)]
    file_upsert [OF envoy_blocked_read_parses, unfolded demo_sources, OF httpbin_compile(5)]
  show ?thesis
    by (simp add: envoy_files [OF assms(1)] files_updates_def upsert demo_policy_accesses)
qed

lemma path_condition:
  "gomap_get (req_ResourceAttributes req) ''path'' = Some [path] \<Longrightarrow>
     EvaluateCondition rx ((mk_condition ''resource.path'' ''REGEX'' ps)\<lparr>cond_CompiledRegex := Some r\<rparr>) req
       \<longleftrightarrow> rx_MatchString rx r path"
  by (simp add: EvaluateCondition_def mk_condition_def attribute_map_def apply_operator_def evalRegex_def)

lemma envoy_demo_authorized:
  assumes "sorts_by_id g" "demo_patterns rx" "req_ResourceType req = ''httpbin''"
    and "gomap_get (req_PrincipalAttributes req) ''role'' = Some roles"
    and "gomap_get (req_ResourceAttributes req) ''path'' = Some [path]"
  shows "authorized rx (foldl table_update (\<lambda>_. None)
      (files_updates rx (loadPolicyFiles g (Some envoy_dir)))) req \<longleftrightarrow> envoy_grants (req_Action req) path roles"
proof -
  from assms(2) obtain w f where
      rx: "rx_Compile rx write_pattern = Inr w" "rx_Compile rx finance_pattern = Inr f"
    and matches: "rx_MatchString rx w path \<longleftrightarrow> path \<in> write_paths" "rx_MatchString rx f path \<longleftrightarrow> finance_path path"
    unfolding demo_patterns_def by blast
  have "ran (foldl table_update (\<lambda>_. None) (files_updates rx (loadPolicyFiles g (Some envoy_dir))))
      = {with_regex w envoy_admin_write, with_regex f envoy_finance_write, envoy_staff_read, envoy_blocked_read}"
    by (simp add: envoy_files_updates [OF assms(1) rx] demo_policy_ids ran_map_upd insert_commute)
  moreover have "applies rx (with_regex w envoy_admin_write) req
      \<longleftrightarrow> req_Action req = ''WRITE'' \<and> path \<in> write_paths \<and> roles = [''admin'']"
    using assms(3)
    by (simp add: applies_iff envoy_admin_write_def with_regex_def path_condition [OF assms(5)] matches
        role_condition [OF assms(4)] role_operators)
  moreover have "applies rx (with_regex f envoy_finance_write) req
      \<longleftrightarrow> req_Action req = ''WRITE'' \<and> finance_path path \<and> ''admin'' \<in> set roles \<and> ''finance'' \<in> set roles"
    using assms(3) two_roles [of "''admin''" "''finance''" roles]
    by (auto simp: applies_iff envoy_finance_write_def with_regex_def path_condition [OF assms(5)] matches
        role_condition [OF assms(4)] role_operators)
  moreover have "applies rx envoy_staff_read req
      \<longleftrightarrow> req_Action req = ''READ'' \<and> (''admin'' \<in> set roles \<or> ''user'' \<in> set roles)"
    "applies rx envoy_blocked_read req \<longleftrightarrow> req_Action req = ''READ'' \<and> ''blocked'' \<in> set roles"
    using assms(3)
    by (simp_all add: applies_iff envoy_staff_read_def envoy_blocked_read_def role_condition [OF assms(4)]
        role_operators)
  ultimately show ?thesis
    by (auto simp: authorized_ran demo_policy_accesses envoy_grants_def staff_unblocked_def)
qed

subsection \<open>The example of the API\<close>

lemma api_example_decodes: "Unmarshal_policy api_example_json = Some (api_example :: 'r policy)"
  using Unmarshal_policy_tree [OF api_example_parses [where ?'a = 'r]]
  by (simp add: api_example_def source_policy_def source_condition_def mk_condition_def)

text \<open>It is the first document of the load-test seeder with a narrower network.\<close>

lemma api_example_applies:
  "applies rx api_example req \<longleftrightarrow> req_ResourceType req = ''production-db-backup'' \<and> req_Action req = ''READ''
     \<and> (\<exists>vs. gomap_get (req_PrincipalAttributes req) ''roles'' = Some vs \<and> ''SecurityAdmin'' \<in> set vs)
     \<and> (\<exists>vs. gomap_get (req_EnvironmentAttributes req) ''ip_address'' = Some vs \<and> evalInCIDR [''10.0.0.0/16''] vs)
     \<and> (\<exists>h n. gomap_get (req_EnvironmentAttributes req) ''hour'' = Some [h]
          \<and> Atoi h = Some n \<and> 8 \<le> n \<and> n \<le> 18)"
proof -
  have "applies rx api_example req \<longleftrightarrow> req_ResourceType req = ''production-db-backup'' \<and> req_Action req = ''READ''
     \<and> (\<exists>vs. gomap_get (req_PrincipalAttributes req) ''roles'' = Some vs \<and> ''SecurityAdmin'' \<in> set vs)
     \<and> (\<exists>vs. gomap_get (req_EnvironmentAttributes req) ''ip_address'' = Some vs \<and> evalInCIDR [''10.0.0.0/16''] vs)
     \<and> (\<exists>vs. gomap_get (req_EnvironmentAttributes req) ''hour'' = Some vs \<and> evalBetween [''8'', ''18''] vs)"
    by (simp add: applies_iff api_example_def demo_conditions)
  then show ?thesis unfolding business_hours by blast
qed

subsection \<open>The two demonstrations from end to end\<close>

lemma edge_requests:
  "req_ResourceType (eval_request (pep_request r)) = ''httpbin''"
  "req_Action (eval_request (pep_request r)) = actionForMethod (hr_method r)"
  "gomap_get (req_PrincipalAttributes (eval_request (pep_request r))) ''role''
     = Some (header_Values (hr_headers r) ''X-Role'')"
  "req_ResourceType (eval_request (authz_request ck claims)) = ''httpbin''"
  "req_Action (eval_request (authz_request ck claims)) = actionForMethod (ck_method ck)"
  "gomap_get (req_PrincipalAttributes (eval_request (authz_request ck claims))) ''role'' = Some (enrichRoles claims)"
  "gomap_get (req_ResourceAttributes (eval_request (authz_request ck claims))) ''path'' = Some [ck_path ck]"
  by (simp_all add: eval_request_def pep_request_def authz_request_def Let_def mapAttributes_def
      put_attribute_def gomap_put_def)

text \<open>
  The walkthrough of the httpbin demonstration.  Take the reverse proxy serving with the
  three policy files of the repository, whatever it took to seed them, and the process after it
  has applied the seeded entries.  A request is proxied exactly when the call of the engine
  does not fail and it reads with a role admin or user and without the role blocked, or writes
  with admin as the only role.
\<close>

theorem httpbin_demo_decides:
  assumes "pep_main env = (entries, Serving cfg)" "ee_ReadDir env (pc_policiesDir cfg) = Some httpbin_dir"
    and "sorts_by_id (ee_sort env)"
    and "bouncer_run rx lib es b" "event_updates rx es = entries_updates rx entries"
    and "range_order oa" "range_order od"
  shows "pep_handler (rpc_client fault (\<lambda>req. grpc_call rx lib oa od t recv (Inr req)) b) r = Proxied
    \<longleftrightarrow> fault (pep_request r) = None
      \<and> httpbin_grants (actionForMethod (hr_method r)) (header_Values (hr_headers r) ''X-Role'')"
proof -
  let ?files = "loadPolicyFiles (ee_sort env) (Some httpbin_dir)"
  have "sr_done (seedPolicies ?files (ee_rounds env))" "entries = sr_entries (seedPolicies ?files (ee_rounds env))"
    using pep_serving [OF assms(1)] assms(2) by auto
  then have "run_table rx es = foldl table_update (\<lambda>_. None) (files_updates rx ?files)"
    using seeding_table [of ?files "ee_rounds env"] by (simp add: run_table_def assms(5))
  then show ?thesis
    using pep_forwards [OF assms(4,6,7), of fault t recv r]
      httpbin_demo_authorized [OF assms(3) edge_requests(1,3), where rx = rx]
    by (simp add: edge_requests)
qed

text \<open>What the adapter makes of an address: the four users of the demonstration, and nobody else.\<close>

lemma demo_users_grants:
  assumes "jc_Groups claims = []" "email = strings_ToLower (jc_Email claims)"
  shows "envoy_grants action path (enrichRoles claims) \<longleftrightarrow>
      action = ''READ''
        \<and> (email = ''alice@bouncer.dev'' \<or> email = ''bob@bouncer.dev'' \<or> email = ''carol@bouncer.dev'')
    \<or> action = ''WRITE''
        \<and> (email = ''alice@bouncer.dev'' \<and> path \<in> write_paths
           \<or> email = ''carol@bouncer.dev'' \<and> finance_path path)"
  using assms
  by (auto simp: enrichRoles_def demoClaimMap_def envoy_grants_def staff_unblocked_def)

text \<open>
  The walkthrough of the Envoy demonstration.  Take the adapter serving with its four policy
  files, and the process after it has applied the seeded entries, with regular expressions that
  match the two patterns as Go's do.  A request is forwarded exactly when it carries a readable
  payload with a subject, the call of the engine does not fail, and the roles of the claims
  allow it: to read, admin or user and not blocked; to write, admin alone on the four standard
  paths, or admin and finance together below the finance prefix.
\<close>

theorem envoy_demo_decides:
  assumes "extauthz_main env = (entries, Serving cfg)" "ee_ReadDir env (xc_policiesDir cfg) = Some envoy_dir"
    and "sorts_by_id (ee_sort env)" "demo_patterns rx"
    and "bouncer_run rx lib es b" "event_updates rx es = entries_updates rx entries"
    and "range_order oa" "range_order od"
  shows "forwarded (Check et ord (xc_payloadHeader cfg)
        (rpc_client fault (\<lambda>req. grpc_call rx lib oa od t recv (Inr req)) b) ck)
    \<longleftrightarrow> (\<exists>claims. extractClaims ord (xc_payloadHeader cfg) (ck_headers ck) = Inr claims
          \<and> fault (authz_request ck claims) = None
          \<and> envoy_grants (actionForMethod (ck_method ck)) (ck_path ck) (enrichRoles claims))"
proof -
  let ?files = "loadPolicyFiles (ee_sort env) (Some envoy_dir)"
  have "sr_done (seedPolicies ?files (ee_rounds env))" "entries = sr_entries (seedPolicies ?files (ee_rounds env))"
    using extauthz_serving [OF assms(1)] assms(2) by auto
  then have "run_table rx es = foldl table_update (\<lambda>_. None) (files_updates rx ?files)"
    using seeding_table [of ?files "ee_rounds env"] by (simp add: run_table_def assms(6))
  then show ?thesis
    using extauthz_forwards [OF assms(5,7,8), of et ord "xc_payloadHeader cfg" fault t recv ck]
      envoy_demo_authorized [OF assms(3,4) edge_requests(4,6,7)]
    by (simp add: edge_requests)
qed

subsection \<open>The demonstrations in a deployment\<close>

lemma seeded_directory:
  assumes "sr_done (seedPolicies files rounds)" "vss = sr_entries (seedPolicies files rounds)"
    and "map snd es = vss"
  shows "table_of (stream_updates rx es) = foldl table_update (\<lambda>_. None) (files_updates rx files)"
  using seeding_table [OF assms(1), of "\<lambda>_. None" rx] assms(2,3)
  by (simp add: table_of_def stream_updates_entries)

text \<open>
  C13: from the policy files to the decision.  Take a deployment whose stream holds what a
  demonstration has seeded, and any replica of the engine, restarted or not, that serves
  calls side by side, with Go's regular expressions.  If it had applied the stream when a
  call came in, then the enforcement point that made the call lets its request through
  exactly as the walkthrough of the demonstration says: the reverse proxy by its roles and
  the method, the adapter by the roles of the claims, the method and the path.
\<close>

theorem demo_deployment_decides:
  assumes "deploy_run (go_regexp other) lib des d" "deploy_step (go_regexp other) lib d (Moved k (Answered i req resp)) d'"
    and "call_caught_up d k i" "map snd (dp_stream d) = entries" "sorts_by_id (ee_sort env)"
    and "client req = Inr resp"
  shows "(\<forall>cfg r. pep_main env = (entries, Serving cfg) \<longrightarrow>
        ee_ReadDir env (pc_policiesDir cfg) = Some httpbin_dir \<longrightarrow> pep_request r = req \<longrightarrow>
        (pep_handler client r = Proxied
          \<longleftrightarrow> httpbin_grants (actionForMethod (hr_method r)) (header_Values (hr_headers r) ''X-Role'')))
    \<and> (\<forall>cfg ck claims. extauthz_main env = (entries, Serving cfg) \<longrightarrow>
        ee_ReadDir env (xc_policiesDir cfg) = Some envoy_dir \<longrightarrow>
        extractClaims ord (xc_payloadHeader cfg) (ck_headers ck) = Inr claims \<longrightarrow> authz_request ck claims = req \<longrightarrow>
        (forwarded (Check et ord (xc_payloadHeader cfg) client ck)
          \<longleftrightarrow> envoy_grants (actionForMethod (ck_method ck)) (ck_path ck) (enrichRoles claims)))"
proof -
  note decides = caught_up_decides [OF assms(1-3)]
  have "pep_handler client r = Proxied
      \<longleftrightarrow> httpbin_grants (actionForMethod (hr_method r)) (header_Values (hr_headers r) ''X-Role'')"
    if "pep_main env = (entries, Serving cfg)" "ee_ReadDir env (pc_policiesDir cfg) = Some httpbin_dir"
      "pep_request r = req" for cfg r
  proof -
    let ?files = "loadPolicyFiles (ee_sort env) (Some httpbin_dir)"
    have "sr_done (seedPolicies ?files (ee_rounds env))" "entries = sr_entries (seedPolicies ?files (ee_rounds env))"
      using pep_serving [OF that(1)] that(2) by auto
    note table = seeded_directory [OF this assms(4), of "go_regexp other"]
    have "authorized (go_regexp other) (table_of (stream_updates (go_regexp other) (dp_stream d))) (eval_request (pep_request r))
        \<longleftrightarrow> httpbin_grants (actionForMethod (hr_method r)) (header_Values (hr_headers r) ''X-Role'')"
      unfolding table using httpbin_demo_authorized [OF assms(5) edge_requests(1,3), where rx = "go_regexp other"]
      by (simp add: edge_requests)
    then show ?thesis using decides assms(6) that(3) by (simp add: pep_handler_def)
  qed
  moreover have "forwarded (Check et ord (xc_payloadHeader cfg) client ck)
      \<longleftrightarrow> envoy_grants (actionForMethod (ck_method ck)) (ck_path ck) (enrichRoles claims)"
    if "extauthz_main env = (entries, Serving cfg)" "ee_ReadDir env (xc_policiesDir cfg) = Some envoy_dir"
      "extractClaims ord (xc_payloadHeader cfg) (ck_headers ck) = Inr claims"
      "authz_request ck claims = req" for cfg ck claims
  proof -
    let ?files = "loadPolicyFiles (ee_sort env) (Some envoy_dir)"
    have "sr_done (seedPolicies ?files (ee_rounds env))" "entries = sr_entries (seedPolicies ?files (ee_rounds env))"
      using extauthz_serving [OF that(1)] that(2) by auto
    note table = seeded_directory [OF this assms(4), of "go_regexp other"]
    have "authorized (go_regexp other) (table_of (stream_updates (go_regexp other) (dp_stream d))) (eval_request (authz_request ck claims))
        \<longleftrightarrow> envoy_grants (actionForMethod (ck_method ck)) (ck_path ck) (enrichRoles claims)"
      unfolding table using envoy_demo_authorized [OF assms(5) demo_patterns_go edge_requests(4,6,7)]
      by (simp add: edge_requests)
    then show ?thesis using decides assms(6) that(3,4) by (simp add: forwarded_Check)
  qed
  ultimately show ?thesis by blast
qed

subsection \<open>Witnesses\<close>

definition demo_env :: "dir_entry list \<Rightarrow> edge_env" where
  "demo_env files =
     \<lparr>ee_getenv = (\<lambda>_. []), ee_dial = (\<lambda>_. True),
      ee_ReadDir = (\<lambda>dir. if dir = ''/policies'' then Some files else None),
      ee_sort = sort_key pf_id, ee_rounds = [PublishFailed 2, AllPublished], ee_url_Parse = (\<lambda>_. True),
      ee_listen = (\<lambda>_. True)\<rparr>"

definition demo_regexp :: "(regexp + string) regexp_lib" where
  "demo_regexp = go_regexp literal_regexp"

lemma demo_patterns_demo: "demo_patterns demo_regexp"
  unfolding demo_regexp_def by (rule demo_patterns_go)

text \<open>The process after it has applied a list of entries.\<close>

definition after_entries :: "entry_values list \<Rightarrow> (regexp + string, string, int \<times> int) bouncer" where
  "after_entries vss = foldl (\<lambda>b e. case e of Applied vs \<Rightarrow> apply_entry demo_regexp vs b | _ \<Rightarrow> b) fresh_process
     (map Applied vss)"

lemma after_entries_run: "bouncer_run demo_regexp sample_prom (map Applied vss) (after_entries vss)"
  using applied_state [OF Boot [OF sample_main_setup], of demo_regexp vss] by (simp add: after_entries_def)

lemma applied_updates: "event_updates rx (map Applied vss) = entries_updates rx vss"
  by (simp add: event_updates_def entries_updates_def comp_def)

definition httpbin_seeded :: "entry_values list" where
  "httpbin_seeded = fst (pep_main (demo_env httpbin_dir))"

lemma httpbin_demo_serves:
  "pep_main (demo_env httpbin_dir) = (httpbin_seeded, Serving (pep_variables (\<lambda>_. [])))"
  unfolding httpbin_seeded_def
  by (simp add: pep_main_def demo_env_def pep_seedPolicies_def pep_loadPolicyFiles_def pep_defaults
      httpbin_files [OF sorts_by_id_sort_key] seedPolicies_def Let_def)

theorem httpbin_demo_decides_witness:
  "pep_handler (rpc_client (\<lambda>_. None) (\<lambda>req. grpc_call demo_regexp sample_prom rev rev 5 0 (Inr req))
      (after_entries httpbin_seeded)) sample_http = Proxied
   \<and> pep_handler (rpc_client (\<lambda>_. None) (\<lambda>req. grpc_call demo_regexp sample_prom rev rev 5 0 (Inr req))
      (after_entries httpbin_seeded)) (sample_http\<lparr>hr_headers := [(''X-Role'', [''admin'', ''blocked''])]\<rparr>) \<noteq> Proxied"
proof -
  have "ee_ReadDir (demo_env httpbin_dir) (pc_policiesDir (pep_variables (\<lambda>_. []))) = Some httpbin_dir"
    "sorts_by_id (ee_sort (demo_env httpbin_dir))"
    by (simp_all add: demo_env_def pep_defaults sorts_by_id_sort_key)
  note decides = httpbin_demo_decides [OF httpbin_demo_serves this after_entries_run applied_updates
      range_order_rev range_order_rev]
  show ?thesis
    unfolding decides
    by (simp add: sample_http_def read_method httpbin_grants_def staff_unblocked_def header_Values_def)
qed

definition envoy_seeded :: "entry_values list" where
  "envoy_seeded = fst (extauthz_main (demo_env envoy_dir))"

lemma envoy_demo_serves:
  "extauthz_main (demo_env envoy_dir) = (envoy_seeded, Serving (extauthz_variables (\<lambda>_. [])))"
  unfolding envoy_seeded_def
  by (simp add: extauthz_main_def demo_env_def seedPolicies_dir_def extauthz_variables_def envOr_def
      envoy_files [OF sorts_by_id_sort_key] seedPolicies_def Let_def)

lemma extauthz_defaults:
  "xc_payloadHeader (extauthz_variables (\<lambda>_. [])) = ''x-jwt-payload''"
  "xc_policiesDir (extauthz_variables (\<lambda>_. [])) = ''/policies''"
  by code_simp+

theorem envoy_demo_decides_witness:
  "forwarded (Check (\<lambda>_. []) rev ''x-jwt-payload''
     (rpc_client (\<lambda>_. None) (\<lambda>req. grpc_call demo_regexp sample_prom rev rev 5 0 (Inr req))
       (after_entries envoy_seeded)) sample_check)
   \<and> \<not> forwarded (Check (\<lambda>_. []) rev ''x-jwt-payload''
     (rpc_client (\<lambda>_. None) (\<lambda>req. grpc_call demo_regexp sample_prom rev rev 5 0 (Inr req))
       (after_entries envoy_seeded)) (sample_check\<lparr>ck_method := ''POST''\<rparr>))"
proof -
  have "ee_ReadDir (demo_env envoy_dir) (xc_policiesDir (extauthz_variables (\<lambda>_. []))) = Some envoy_dir"
    "sorts_by_id (ee_sort (demo_env envoy_dir))"
    by (simp_all add: demo_env_def extauthz_defaults sorts_by_id_sort_key)
  note decides = envoy_demo_decides [OF envoy_demo_serves this demo_patterns_demo after_entries_run applied_updates
      range_order_rev range_order_rev, unfolded extauthz_defaults]
  have "actionForMethod ''POST'' = ''WRITE''" "enrichRoles sample_claims = [''user'']" by code_simp+
  then show ?thesis
    unfolding decides
    using sample_check_claims
    by (simp add: sample_check_def read_method envoy_grants_def staff_unblocked_def)
qed

text \<open>A replica that has caught up with the seeded stream answers the proxy, and the proxy forwards.\<close>

theorem demo_deployment_decides_witness:
  "\<exists>des d resp d'. deploy_run demo_regexp sample_prom des d
     \<and> deploy_step demo_regexp sample_prom d (Moved 2 (Answered 7 (pep_request sample_http) resp)) d'
     \<and> map snd (dp_stream d) = httpbin_seeded
     \<and> pep_handler (\<lambda>_. Inr resp) sample_http = Proxied"
proof -
  obtain des d where d: "deploy_run demo_regexp sample_prom des d" "map snd (dp_stream d) = httpbin_seeded"
      "dp_replicas d = (\<lambda>_. boot_replica fresh_process)"
    using stream_of_entries [OF sample_main_setup] by blast
  then obtain des' d1 resp d2 where a: "deploy_run demo_regexp sample_prom des' d1"
      "deploy_step demo_regexp sample_prom d1 (Moved 2 (Answered 7 (pep_request sample_http) resp)) d2"
      "dp_stream d1 = dp_stream d" "call_caught_up d1 2 7"
    using booted_call_answered [OF d(1), of 2 fresh_process 7 "pep_request sample_http"] by auto
  have stream: "map snd (dp_stream d1) = httpbin_seeded" using a(3) d(2) by simp
  have "ee_ReadDir (demo_env httpbin_dir) (pc_policiesDir (pep_variables (\<lambda>_. []))) = Some httpbin_dir"
    and sorts: "sorts_by_id (ee_sort (demo_env httpbin_dir))"
    by (simp_all add: demo_env_def pep_defaults sorts_by_id_sort_key)
  with demo_deployment_decides [OF a(1,2) [unfolded demo_regexp_def] a(4) stream sorts, of "\<lambda>_. Inr resp"] httpbin_demo_serves
  have "pep_handler (\<lambda>_. Inr resp) sample_http = Proxied
      \<longleftrightarrow> httpbin_grants (actionForMethod (hr_method sample_http)) (header_Values (hr_headers sample_http) ''X-Role'')"
    by blast
  then have "pep_handler (\<lambda>_. Inr resp) sample_http = Proxied"
    by (simp add: sample_http_def read_method httpbin_grants_def staff_unblocked_def header_Values_def)
  with a stream show ?thesis by blast
qed

end
