(* ===== verification/Seeding_Replicas.thy ===== *)
theory Seeding_Replicas
  imports Deployment Seeding
begin

text \<open>
  Seeding more than once: several enforcement points that seed the same directory at the same
  time, each with its own retries, and an enforcement point that is restarted with another
  directory.
\<close>

subsection \<open>The identifier of a file is the identifier of its policy\<close>

text \<open>
  \<open>loadPolicyFiles\<close> decodes a file into a struct with the identifier only, the subscriber into a
  policy: they read the same identifier.
\<close>

lemma meta_of_policy_fields:
  "decode_fields policy_field p kvs = Some p' \<Longrightarrow> decode_fields meta_field (rp_ID p) kvs = Some (rp_ID p')"
proof (induction kvs arbitrary: p)
  case (Cons kv kvs)
  obtain k v where kv: "kv = (k, v)" by force
  then obtain q where q: "policy_field p k v = Some q" "decode_fields policy_field q kvs = Some p'"
    using Cons.prems by (auto split: option.splits)
  then have "meta_field (rp_ID p) k v = Some (rp_ID q)"
    by (auto simp: policy_field_def meta_field_def split: if_splits)
  with Cons.IH [OF q(2)] kv show ?case by simp
qed simp

lemma meta_of_policy:
  assumes "Unmarshal_policy doc = Some p"
  shows "Unmarshal_meta doc = Some (pol_ID p)"
proof -
  obtain j q where j: "json_parse doc = Some j" "decode_struct policy_field zero_policy j = Some q" "p = policy_of_raw q"
    using assms by (auto simp: Unmarshal_policy_def decode_policy_def bind_eq_Some_conv)
  have "decode_struct meta_field (rp_ID zero_policy) j = Some (rp_ID q)"
    using j(2) meta_of_policy_fields [of zero_policy _ q]
    by (cases j) (auto simp: decode_struct_def)
  then show ?thesis
    using j(1,3) by (simp add: Unmarshal_meta_def zero_policy_def policy_of_raw_def)
qed

text \<open>What a file does to the table: nothing, or one upsert under the identifier of the file.\<close>

lemma file_entry_updates:
  assumes "Unmarshal_meta (pf_json f) = Some (pf_id f)" "u \<in> set (entry_updates rx (file_entry f))"
  shows "\<exists>p. u = Upsert p \<and> pol_ID p = pf_id f"
proof -
  have "entry_update rx (file_entry f) = Some u"
    using assms(2) by (auto simp: entry_updates_def split: option.splits)
  then obtain q p where "Unmarshal_policy (pf_json f) = Some q" "Compile rx q = (p, None)" "u = Upsert p"
    by (auto simp: entry_update_def processMessageEntry_def file_entry_def split: option.splits prod.splits if_splits)
  then show ?thesis using meta_of_policy Compile_ID assms(1) by fastforce
qed

lemma loaded_meta:
  assumes "sorts_by_id f" "x \<in> set (loadPolicyFiles f (Some dir))"
  shows "Unmarshal_meta (pf_json x) = Some (pf_id x)"
  using loadPolicyFiles_usable [OF assms(1), of "Some dir"] assms(2) by (auto simp: usable_file_def)

lemma loaded_updates:
  assumes "sorts_by_id f" "u \<in> set (files_updates rx (loadPolicyFiles f (Some dir)))"
  obtains x p where "x \<in> set (loadPolicyFiles f (Some dir))" "u = Upsert p" "pol_ID p = pf_id x"
    "u \<in> set (entry_updates rx (file_entry x))"
  using assms(2) file_entry_updates loaded_meta [OF assms(1)] by (fastforce simp: files_updates_def)

subsection \<open>Updates of different policies commute\<close>

lemma update_in_force:
  "u \<in> set us \<Longrightarrow> inj_on update_key (set us) \<Longrightarrow>
     foldl table_update tab us (update_key u) = (case u of Upsert p \<Rightarrow> Some p | Delete k \<Rightarrow> None)"
proof (induction us rule: rev_induct)
  case (snoc v us)
  show ?case
  proof (cases "u = v")
    case True
    then show ?thesis by (simp add: table_update_apply)
  next
    case False
    then have "u \<in> set us" "update_key u \<noteq> update_key v"
      using snoc.prems by (auto simp: inj_on_def)
    moreover have "inj_on update_key (set us)" using snoc.prems(2) by (simp add: inj_on_Un)
    ultimately show ?thesis using snoc.IH by (simp add: table_update_apply)
  qed
qed simp

lemma same_updates_same_table:
  assumes "inj_on update_key (set us)" "set vs = set us"
  shows "foldl table_update tab vs = foldl table_update tab us"
proof
  fix k
  show "foldl table_update tab vs k = foldl table_update tab us k"
  proof (cases "k \<in> update_key ` set us")
    case True
    then obtain u where "u \<in> set us" "k = update_key u" by blast
    then show ?thesis using assms update_in_force [of u us tab] update_in_force [of u vs tab] by simp
  next
    case False
    then show ?thesis
      using assms(2) foldl_table_update [of tab us k] foldl_table_update [of tab vs k] by simp
  qed
qed

lemma loaded_keys:
  assumes "sorts_by_id f" "distinct (map pf_id (collect_files dir))"
  shows "inj_on update_key (set (files_updates rx (loadPolicyFiles f (Some dir))))"
proof (rule inj_onI)
  fix u v
  assume u: "u \<in> set (files_updates rx (loadPolicyFiles f (Some dir)))"
    and v: "v \<in> set (files_updates rx (loadPolicyFiles f (Some dir)))" and key: "update_key u = update_key v"
  obtain x p where x: "x \<in> set (loadPolicyFiles f (Some dir))" "u = Upsert p" "pol_ID p = pf_id x"
      "u \<in> set (entry_updates rx (file_entry x))"
    by (rule loaded_updates [OF assms(1) u])
  obtain y q where y: "y \<in> set (loadPolicyFiles f (Some dir))" "v = Upsert q" "pol_ID q = pf_id y"
      "v \<in> set (entry_updates rx (file_entry y))"
    by (rule loaded_updates [OF assms(1) v])
  have "mset (loadPolicyFiles f (Some dir)) = mset (collect_files dir)"
    using assms(1) by (simp add: loadPolicyFiles_def sorts_by_id_def)
  then have "inj_on pf_id (set (loadPolicyFiles f (Some dir)))"
    using assms(2) by (metis distinct_map mset_eq_setD)
  moreover have "pf_id x = pf_id y" using key x(2,3) y(2,3) by simp
  ultimately have "x = y" using x(1) y(1) by (simp add: inj_on_def)
  then show "u = v" using x(4) y(4) by (cases "entry_update rx (file_entry y)") (auto simp: entry_updates_def)
qed

subsection \<open>Any number of seeders\<close>

lemma seed_loop_only_files:
  "set (sr_entries (seed_loop files b rs res)) \<subseteq> set (sr_entries res) \<union> file_entry ` set files"
proof (induction files b rs res rule: seed_loop.induct)
  case (2 files b n rs res)
  then show ?case by (auto dest: in_set_takeD)
qed auto

lemma seedPolicies_only_files: "set (sr_entries (seedPolicies files rs)) \<subseteq> file_entry ` set files"
  using seed_loop_only_files [of files 500 rs "\<lparr>sr_entries = [], sr_sleeps = [], sr_done = False\<rparr>"]
  by (auto simp: seedPolicies_def)

lemma seed_loop_all_files:
  "sr_done (seed_loop files b rs res) \<Longrightarrow> \<not> sr_done res \<Longrightarrow>
     file_entry ` set files \<subseteq> set (sr_entries (seed_loop files b rs res))"
  by (induction files b rs res rule: seed_loop.induct) auto

lemma seedPolicies_entries:
  "sr_done (seedPolicies files rs) \<Longrightarrow> set (sr_entries (seedPolicies files rs)) = file_entry ` set files"
  using seedPolicies_only_files [of files rs]
    seed_loop_all_files [of files 500 rs "\<lparr>sr_entries = [], sr_sleeps = [], sr_done = False\<rparr>"]
  by (auto simp: seedPolicies_def)

text \<open>
  A seeder is its sort and the rounds of its environment; this is what has reached the stream
  when all of them have returned, in whatever order.
\<close>

type_synonym seeder = "(policyFile list \<Rightarrow> policyFile list) \<times> seed_round list"

definition seeder_result :: "dir_entry list \<Rightarrow> seeder \<Rightarrow> seed_result" where
  "seeder_result dir s = seedPolicies (loadPolicyFiles (fst s) (Some dir)) (snd s)"

definition all_seeded :: "dir_entry list \<Rightarrow> seeder list \<Rightarrow> entry_values list \<Rightarrow> bool" where
  "all_seeded dir ss vss \<longleftrightarrow> ss \<noteq> []
     \<and> (\<forall>s \<in> set ss. sorts_by_id (fst s) \<and> sr_done (seeder_result dir s))
     \<and> mset vss = (\<Sum>s \<leftarrow> ss. mset (sr_entries (seeder_result dir s)))"

lemma set_mset_sum_list: "set_mset (\<Sum>x \<leftarrow> xs. f x) = (\<Union>x \<in> set xs. set_mset (f x))"
  by (induction xs) auto

lemma loaded_set: "sorts_by_id f \<Longrightarrow> set (loadPolicyFiles f (Some dir)) = set (collect_files dir)"
  unfolding loadPolicyFiles_def sorts_by_id_def by (metis mset_eq_setD option.simps(5))

lemma all_seeded_entries:
  assumes "all_seeded dir ss vss"
  shows "set vss = file_entry ` set (collect_files dir)"
proof -
  have "set_mset (mset vss) = (\<Union>s \<in> set ss. set_mset (mset (sr_entries (seeder_result dir s))))"
    using assms unfolding all_seeded_def set_mset_sum_list [symmetric] by simp
  then have "set vss = (\<Union>s \<in> set ss. set (sr_entries (seeder_result dir s)))" by simp
  also have "\<dots> = (\<Union>s \<in> set ss. file_entry ` set (collect_files dir))"
    using assms by (auto simp: all_seeded_def seeder_result_def seedPolicies_entries loaded_set)
  finally show ?thesis using assms by (auto simp: all_seeded_def)
qed

lemma all_seeded_table:
  assumes "all_seeded dir ss vss" "distinct (map pf_id (collect_files dir))" "sorts_by_id f"
  shows "foldl table_update tab (entries_updates rx vss)
    = foldl table_update tab (files_updates rx (loadPolicyFiles f (Some dir)))"
proof (rule same_updates_same_table [OF loaded_keys [OF assms(3,2)]])
  show "set (entries_updates rx vss) = set (files_updates rx (loadPolicyFiles f (Some dir)))"
    using all_seeded_entries [OF assms(1)] loaded_set [OF assms(3), of dir]
    by (simp add: entries_updates_def files_updates_def)
qed

text \<open>
  C24: seeding side by side is seeding once.  Any number of enforcement points seed the same
  directory, whose files have different identifiers, at the same time, each with its own
  retries, and their entries reach the stream in any order.  A replica of the engine that had
  applied the stream when a call came in decides it as the policies of the directory say, as if
  each file had been published once.
\<close>

theorem concurrent_seeders_decide:
  assumes "deploy_run rx lib des d" "deploy_step rx lib d (Moved k (Answered i req resp)) d'"
    and "call_caught_up d k i" "all_seeded dir ss (map snd (dp_stream d))"
    and "distinct (map pf_id (collect_files dir))" "sorts_by_id f"
  shows "crs_Allowed resp \<longleftrightarrow> authorized rx
    (foldl table_update (\<lambda>_. None) (files_updates rx (loadPolicyFiles f (Some dir)))) (eval_request req)"
proof -
  have "table_of (stream_updates rx (dp_stream d))
      = foldl table_update (\<lambda>_. None) (files_updates rx (loadPolicyFiles f (Some dir)))"
    using all_seeded_table [OF assms(4-6), of "\<lambda>_. None" rx]
    by (simp add: table_of_def stream_updates_map entries_updates_def)
  then show ?thesis using caught_up_decides [OF assms(1-3)] by simp
qed

subsection \<open>Seeding another directory\<close>

lemma upserts_dom:
  "\<forall>u \<in> set us. \<exists>p. u = Upsert p \<Longrightarrow> dom (foldl table_update (\<lambda>_. None) us) = update_key ` set us"
proof (induction us rule: rev_induct)
  case (snoc u us)
  then obtain p where "u = Upsert p" by auto
  with snoc show ?case by (simp flip: fun_upd_def)
qed simp

lemma upserts_override:
  "\<forall>u \<in> set us. \<exists>p. u = Upsert p \<Longrightarrow>
     foldl table_update tab us = tab ++ foldl table_update (\<lambda>_. None) us"
  by (induction us rule: rev_induct) auto

text \<open>
  C36: what a restart of an enforcement point with another directory does.  Seeding publishes
  upserts only, so after a second seeding the policies of the new directory are in force, and so
  is every policy of the old directory under an identifier that the new one does not define: the
  policy of a file that was removed stays in force.
\<close>

theorem reseeding_keeps_removed:
  assumes "sorts_by_id f" "sr_done (seedPolicies (loadPolicyFiles f (Some dir)) rs)"
    and "sorts_by_id f'" "sr_done (seedPolicies (loadPolicyFiles f' (Some dir')) rs')"
    and "map snd es = sr_entries (seedPolicies (loadPolicyFiles f (Some dir)) rs)
                      @ sr_entries (seedPolicies (loadPolicyFiles f' (Some dir')) rs')"
    and "old = foldl table_update (\<lambda>_. None) (files_updates rx (loadPolicyFiles f (Some dir)))"
    and "new = foldl table_update (\<lambda>_. None) (files_updates rx (loadPolicyFiles f' (Some dir')))"
  shows "table_of (stream_updates rx es) = old ++ new
    \<and> (\<forall>i. i \<notin> pf_id ` set (collect_files dir') \<longrightarrow> table_of (stream_updates rx es) i = old i)"
proof -
  let ?us = "files_updates rx (loadPolicyFiles f' (Some dir'))"
  have upserts: "\<forall>u \<in> set ?us. \<exists>p. u = Upsert p" using loaded_updates [OF assms(3)] by metis
  have "table_of (stream_updates rx es) = foldl table_update old ?us"
    using seeding_table [OF assms(2), of "\<lambda>_. None" rx] seeding_table [OF assms(4), of old rx] assms(5,6)
    by (simp add: table_of_def stream_updates_map entries_updates_def [symmetric])
  then have table: "table_of (stream_updates rx es) = old ++ new"
    using upserts_override [OF upserts, of old] assms(7) by simp
  have "update_key ` set ?us \<subseteq> pf_id ` set (collect_files dir')"
  proof
    fix i assume "i \<in> update_key ` set ?us"
    then obtain u where u: "u \<in> set ?us" "i = update_key u" by blast
    from u(1) show "i \<in> pf_id ` set (collect_files dir')"
      by (rule loaded_updates [OF assms(3)]) (use u(2) loaded_set [OF assms(3), of dir'] in auto)
  qed
  then have "new i = None" if "i \<notin> pf_id ` set (collect_files dir')" for i
    using upserts_dom [OF upserts] assms(7) that by blast
  with table show ?thesis by (simp add: map_add_def)
qed

end
