(* ===== verification/Demo_Restart.thy ===== *)
theory Demo_Restart
  imports Demo_Decisions Seeding_Replicas
begin

text \<open>
  What a restart of the engine does to the demonstration behind the reverse proxy.  The process
  serves as soon as it is up and replays the stream beside the calls, and the seeded stream
  holds the two allowing policies before the denying one: \<open>loadPolicyFiles\<close> sorts by identifier.
\<close>

subsection \<open>The seeded stream before its first denying policy\<close>

lemma seed_loop_extends: "\<exists>zs. sr_entries (seed_loop files b rs res) = sr_entries res @ zs"
proof (induction files b rs res rule: seed_loop.induct)
  case (2 files b n rs res)
  then show ?case by (auto simp: append_assoc)
qed auto

text \<open>Whatever the retries were, every file went out right after the one before it in the order.\<close>

lemma seed_loop_order:
  "sr_done (seed_loop [f, g, h] b rs res) \<Longrightarrow> \<not> sr_done res \<Longrightarrow> file_entry h \<notin> set (sr_entries res) \<Longrightarrow>
     file_entry h \<noteq> file_entry f \<Longrightarrow>
     \<exists>xs ys. sr_entries (seed_loop [f, g, h] b rs res) = xs @ file_entry g # ys \<and> file_entry h \<notin> set xs"
proof (induction rs arbitrary: b res)
  case (Cons r rs)
  show ?case
  proof (cases r)
    case (PublishFailed n)
    let ?res = "res\<lparr>sr_entries := sr_entries res @ map file_entry (take n [f, g, h]), sr_sleeps := sr_sleeps res @ [b]\<rparr>"
    obtain zs where zs: "sr_entries (seed_loop [f, g, h] (min (b * 2) maxBackoff) rs ?res)
        = (sr_entries res @ map file_entry (take n [f, g, h])) @ zs"
      using seed_loop_extends [of "[f, g, h]" "min (b * 2) maxBackoff" rs ?res] by auto
    show ?thesis
    proof (cases "n \<le> 1")
      case True
      then have "take n [f, g, h] = [] \<or> take n [f, g, h] = [f]" by (auto simp: le_Suc_eq)
      then have "file_entry h \<notin> set (sr_entries ?res)" using Cons.prems(3,4) by auto
      with Cons.IH [of "min (b * 2) maxBackoff" ?res] Cons.prems(1,2,4) PublishFailed show ?thesis by simp
    next
      case False
      then obtain m where "n = Suc (Suc m)" by (metis One_nat_def Suc_leI not_less_eq_eq le_zero_eq not0_implies_Suc)
      then have "map file_entry (take n [f, g, h]) = [file_entry f, file_entry g] @ map file_entry (take m [h])" by simp
      with zs Cons.prems(3,4) PublishFailed show ?thesis
        by (intro exI [of _ "sr_entries res @ [file_entry f]"]
            exI [of _ "map file_entry (take m [h]) @ zs"]) simp
    qed
  next
    case AllPublished
    with Cons.prems(3,4) show ?thesis
      by (intro exI [of _ "sr_entries res @ [file_entry f]"] exI [of _ "[file_entry h]"]) simp
  qed
qed simp

lemma table_ran_updates: "ran (foldl table_update tab us) \<subseteq> ran tab \<union> {p. Upsert p \<in> set us}"
proof (induction us arbitrary: tab)
  case (Cons u us)
  have "ran (table_update tab u) \<subseteq> ran tab \<union> {p. u = Upsert p}"
    by (cases u) (auto simp: ran_def)
  with Cons.IH [of "table_update tab u"] show ?case by auto
qed simp

lemma httpbin_uploads:
  "entry_updates rx (file_entry \<lparr>pf_id = ''pol-allow-admin-write'', pf_json = httpbin_admin_write_json\<rparr>)
     = [Upsert httpbin_admin_write]"
  "entry_updates rx (file_entry \<lparr>pf_id = ''pol-allow-staff-read'', pf_json = httpbin_staff_read_json\<rparr>)
     = [Upsert httpbin_staff_read]"
  "entry_updates rx (file_entry \<lparr>pf_id = ''pol-deny-blocked-read'', pf_json = httpbin_blocked_read_json\<rparr>)
     = [Upsert httpbin_blocked_read]"
  using file_upsert [OF httpbin_admin_write_parses, unfolded demo_sources, OF httpbin_compile(1)]
    file_upsert [OF httpbin_staff_read_parses, unfolded demo_sources, OF httpbin_compile(2)]
    file_upsert [OF httpbin_blocked_read_parses, unfolded demo_sources, OF httpbin_compile(3)]
  by (simp_all add: demo_policy_accesses)

text \<open>
  The seeded stream has a position at which the policy that lets the staff read is in force and
  the one that keeps blocked principals out is not yet.
\<close>

lemma httpbin_prefix_without_deny:
  assumes "sorts_by_id f" "sr_done (seedPolicies (loadPolicyFiles f (Some httpbin_dir)) rs)"
    and "vss = sr_entries (seedPolicies (loadPolicyFiles f (Some httpbin_dir)) rs)"
    and "req_ResourceType req = ''httpbin''" "req_Action req = ''READ''"
    and "gomap_get (req_PrincipalAttributes req) ''role'' = Some roles" "''user'' \<in> set roles \<or> ''admin'' \<in> set roles"
  shows "\<exists>n \<le> length vss. authorized rx (foldl table_update (\<lambda>_. None) (entries_updates rx (take n vss))) req"
proof -
  let ?admin = "\<lparr>pf_id = ''pol-allow-admin-write'', pf_json = httpbin_admin_write_json\<rparr>"
    and ?staff = "\<lparr>pf_id = ''pol-allow-staff-read'', pf_json = httpbin_staff_read_json\<rparr>"
    and ?deny = "\<lparr>pf_id = ''pol-deny-blocked-read'', pf_json = httpbin_blocked_read_json\<rparr>"
  note files = httpbin_files [OF assms(1)]
  have "file_entry ?deny \<noteq> file_entry ?admin" by (simp add: file_entry_def Publish_values_def Let_def gomap_put_def)
  with seed_loop_order [of ?admin ?staff ?deny 500 rs "\<lparr>sr_entries = [], sr_sleeps = [], sr_done = False\<rparr>"]
    assms(2,3) obtain xs ys where xs: "vss = xs @ file_entry ?staff # ys" "file_entry ?deny \<notin> set xs"
    by (auto simp: files seedPolicies_def)
  have "set vss \<subseteq> file_entry ` {?admin, ?staff, ?deny}"
    using seedPolicies_only_files [of "loadPolicyFiles f (Some httpbin_dir)" rs] assms(3) by (simp add: files)
  with xs have "set xs \<subseteq> {file_entry ?admin, file_entry ?staff}" by auto
  then have "set (entries_updates rx xs) \<subseteq> {Upsert httpbin_admin_write, Upsert httpbin_staff_read}"
    by (auto simp: entries_updates_def httpbin_uploads dest: subsetD)
  moreover let ?tab = "foldl table_update (\<lambda>_. None) (entries_updates rx xs)"
  let ?after = "foldl table_update (\<lambda>_. None) (entries_updates rx (take (Suc (length xs)) vss))"
  have after: "?after = ?tab(''pol-allow-staff-read'' \<mapsto> httpbin_staff_read)"
    unfolding xs(1) by (simp add: entries_updates_def httpbin_uploads demo_policy_ids)
  ultimately have "ran ?after \<subseteq> {httpbin_admin_write, httpbin_staff_read}"
    using table_ran_updates [of "\<lambda>_. None" "entries_updates rx xs"] by (auto simp: ran_def split: if_splits)
  moreover have "httpbin_staff_read \<in> ran ?after" unfolding after by (auto simp: ran_def)
  moreover have "applies rx httpbin_staff_read req"
    using assms(4,5,7) by (simp add: applies_iff demo_policy_defs role_condition [OF assms(6)] role_operators) blast
  ultimately have "authorized rx ?after req"
    using authorized_ran [OF refl, of rx ?after req] demo_policy_accesses(1,2) by blast
  moreover have "Suc (length xs) \<le> length vss" using xs(1) by simp
  ultimately show ?thesis by blast
qed

subsection \<open>A blocked principal after a restart\<close>

lemma deploy_stream_updates: "stream_updates rx es = entries_updates rx (map snd es)"
  by (simp add: stream_updates_map entries_updates_def)

text \<open>
  C14: a restart opens the door to blocked principals.  Take the demonstration behind the
  reverse proxy in any reachable state, with the stream that the proxy has seeded and every
  replica up to date or not.  A principal with the role user or admin and the role blocked is
  denied to read by the policies of the stream.  But a replica can be restarted and, by steps
  of its own, answer the call of the proxy between two entries of the replay, so that the proxy
  forwards the request.
\<close>

theorem restart_admits_blocked:
  fixes b :: "('r, 'c, 'f) bouncer" and d :: "('r, 'c, 'f) deployment"
  assumes "pep_main env = (entries, Serving cfg)" "ee_ReadDir env (pc_policiesDir cfg) = Some httpbin_dir"
    and "sorts_by_id (ee_sort env)" "main_setup lib = Some b"
    and "deploy_run rx lib des d" "map snd (dp_stream d) = entries"
    and "actionForMethod (hr_method r) = ''READ''" "roles = header_Values (hr_headers r) ''X-Role''"
    and "''user'' \<in> set roles \<or> ''admin'' \<in> set roles" "''blocked'' \<in> set roles"
  shows "\<not> authorized rx (table_of (stream_updates rx (dp_stream d))) (eval_request (pep_request r))
    \<and> (\<exists>fs d1 resp d2. deploy_steps rx lib d (Restarted k # fs) d1
        \<and> deploy_step rx lib d1 (Moved k (Answered i (pep_request r) resp)) d2
        \<and> (\<forall>f \<in> set fs. step_of_replica k f) \<and> dp_stream d1 = dp_stream d
        \<and> pep_handler (\<lambda>_. Inr resp) r = Proxied)"
proof -
  let ?files = "loadPolicyFiles (ee_sort env) (Some httpbin_dir)" and ?req = "eval_request (pep_request r)"
  have seeded: "sr_done (seedPolicies ?files (ee_rounds env))" "entries = sr_entries (seedPolicies ?files (ee_rounds env))"
    using pep_serving [OF assms(1)] assms(2) by auto
  note req = edge_requests(1,2,3) [of r, folded assms(8), unfolded assms(7)]
  have "\<not> authorized rx (table_of (stream_updates rx (dp_stream d))) ?req"
    unfolding seeded_directory [OF seeded assms(6), of rx] httpbin_demo_authorized [OF assms(3) req(1,3)]
    using assms(10) by (simp add: req(2) httpbin_grants_def staff_unblocked_def)
  moreover obtain n where n: "n \<le> length entries"
      "authorized rx (foldl table_update (\<lambda>_. None) (entries_updates rx (take n entries))) ?req"
    using httpbin_prefix_without_deny [OF assms(3) seeded req assms(9)] by blast
  have "authorized rx (table_of (stream_updates rx (take n (dp_stream d)))) ?req" "n \<le> length (dp_stream d)"
    using n assms(6) by (auto simp: table_of_def deploy_stream_updates take_map [symmetric])
  with restart_answers_by_any_prefix [OF assms(4,5), of n k i "pep_request r"] obtain fs d1 resp d2 where
      "deploy_steps rx lib d (Restarted k # fs) d1" "deploy_step rx lib d1 (Moved k (Answered i (pep_request r) resp)) d2"
      "\<forall>f \<in> set fs. step_of_replica k f" "dp_stream d1 = dp_stream d" "crs_Allowed resp" by blast
  moreover from this(5) have "pep_handler (\<lambda>_. Inr resp) r = Proxied" by (simp add: pep_handler_def)
  ultimately show ?thesis by blast
qed

text \<open>Replica 2 is restarted; the principal that it lets through reads with the roles user and blocked.\<close>

theorem restart_admits_blocked_witness:
  "\<exists>des d fs d1 resp d2. deploy_run demo_regexp sample_prom des d \<and> map snd (dp_stream d) = httpbin_seeded
     \<and> deploy_steps demo_regexp sample_prom d (Restarted 2 # fs) d1
     \<and> deploy_step demo_regexp sample_prom d1
         (Moved 2 (Answered 7 (pep_request (sample_http\<lparr>hr_headers := [(''X-Role'', [''user'', ''blocked''])]\<rparr>)) resp)) d2
     \<and> pep_handler (\<lambda>_. Inr resp) (sample_http\<lparr>hr_headers := [(''X-Role'', [''user'', ''blocked''])]\<rparr>) = Proxied"
proof -
  let ?r = "sample_http\<lparr>hr_headers := [(''X-Role'', [''user'', ''blocked''])]\<rparr>"
  obtain des d where d: "deploy_run demo_regexp sample_prom des d" "map snd (dp_stream d) = httpbin_seeded"
    using stream_of_entries [OF sample_main_setup] by blast
  have "ee_ReadDir (demo_env httpbin_dir) (pc_policiesDir (pep_variables (\<lambda>_. []))) = Some httpbin_dir"
    "sorts_by_id (ee_sort (demo_env httpbin_dir))"
    by (simp_all add: demo_env_def pep_defaults sorts_by_id_sort_key)
  moreover have "actionForMethod (hr_method ?r) = ''READ''" by (simp add: sample_http_def read_method)
  moreover have "header_Values (hr_headers ?r) ''X-Role'' = [''user'', ''blocked'']" by (simp add: header_Values_def)
  ultimately show ?thesis
    using restart_admits_blocked [OF httpbin_demo_serves _ _ sample_main_setup d, of ?r "[''user'', ''blocked'']" 2 7] d
    by simp blast
qed

subsection \<open>Two proxies, and a proxy with a file less\<close>

lemma httpbin_collected:
  "map pf_id (collect_files httpbin_dir) = [''pol-allow-admin-write'', ''pol-allow-staff-read'', ''pol-deny-blocked-read'']"
  by (simp add: httpbin_dir_def policy_dir_def strings_HasSuffix_def demo_metas)

definition two_proxies :: "seeder list" where
  "two_proxies = [(sort_key pf_id, [AllPublished]), (sort_key pf_id, [PublishFailed 1, AllPublished])]"

definition two_seedings :: "entry_values list" where
  "two_seedings = rev (concat (map (\<lambda>s. sr_entries (seeder_result httpbin_dir s)) two_proxies))"

lemma two_proxies_seeded: "all_seeded httpbin_dir two_proxies two_seedings"
  by (simp add: all_seeded_def two_proxies_def two_seedings_def seeder_result_def sorts_by_id_sort_key
      httpbin_files [OF sorts_by_id_sort_key] seedPolicies_def)

theorem concurrent_seeders_decide_witness:
  "\<exists>des d resp d'. deploy_run demo_regexp sample_prom des d
     \<and> deploy_step demo_regexp sample_prom d (Moved 2 (Answered 7 (pep_request sample_http) resp)) d'
     \<and> map snd (dp_stream d) = two_seedings \<and> crs_Allowed resp"
proof -
  obtain des d where d: "deploy_run demo_regexp sample_prom des d" "map snd (dp_stream d) = two_seedings"
      "dp_replicas d = (\<lambda>_. boot_replica fresh_process)"
    using stream_of_entries [OF sample_main_setup] by blast
  then obtain des' d1 resp d2 where a: "deploy_run demo_regexp sample_prom des' d1"
      "deploy_step demo_regexp sample_prom d1 (Moved 2 (Answered 7 (pep_request sample_http) resp)) d2"
      "dp_stream d1 = dp_stream d" "call_caught_up d1 2 7"
    using booted_call_answered [OF d(1), of 2 fresh_process 7 "pep_request sample_http"] by auto
  have stream: "map snd (dp_stream d1) = two_seedings" using a(3) d(2) by simp
  have "all_seeded httpbin_dir two_proxies (map snd (dp_stream d1))" using two_proxies_seeded stream by simp
  from concurrent_seeders_decide [OF a(1,2,4) this _ sorts_by_id_sort_key] httpbin_collected
    httpbin_demo_authorized [OF sorts_by_id_sort_key edge_requests(1,3) [of sample_http], where rx = demo_regexp]
  have "crs_Allowed resp"
    by (simp add: edge_requests sample_http_def read_method httpbin_grants_def staff_unblocked_def header_Values_def)
  with a stream show ?thesis by blast
qed

text \<open>The file of the policy that lets the staff read is removed and the proxy restarted.\<close>

definition httpbin_dir_removed :: "dir_entry list" where
  "httpbin_dir_removed = policy_dir
     [(''pol-allow-admin-write.json'', httpbin_admin_write_json),
      (''pol-deny-blocked-read.json'', httpbin_blocked_read_json)]"

lemma removed_collected:
  "map pf_id (collect_files httpbin_dir_removed) = [''pol-allow-admin-write'', ''pol-deny-blocked-read'']"
  by (simp add: httpbin_dir_removed_def policy_dir_def strings_HasSuffix_def demo_metas)

theorem reseeding_keeps_removed_witness:
  "\<exists>es. map snd es = sr_entries (seedPolicies (loadPolicyFiles (sort_key pf_id) (Some httpbin_dir)) [AllPublished])
       @ sr_entries (seedPolicies (loadPolicyFiles (sort_key pf_id) (Some httpbin_dir_removed)) [AllPublished])
     \<and> ''pol-allow-staff-read'' \<notin> pf_id ` set (collect_files httpbin_dir_removed)
     \<and> table_of (stream_updates demo_regexp es) ''pol-allow-staff-read'' = Some httpbin_staff_read"
proof -
  let ?first = "seedPolicies (loadPolicyFiles (sort_key pf_id) (Some httpbin_dir)) [AllPublished]"
    and ?second = "seedPolicies (loadPolicyFiles (sort_key pf_id) (Some httpbin_dir_removed)) [AllPublished]"
    and ?es = "map (Pair []) (sr_entries (seedPolicies (loadPolicyFiles (sort_key pf_id) (Some httpbin_dir)) [AllPublished])
      @ sr_entries (seedPolicies (loadPolicyFiles (sort_key pf_id) (Some httpbin_dir_removed)) [AllPublished]))"
  have "sr_done ?first" "sr_done ?second" by (simp_all add: seedPolicies_def)
  moreover have es: "map snd ?es = sr_entries ?first @ sr_entries ?second" by (simp add: comp_def)
  moreover have gone: "''pol-allow-staff-read'' \<notin> pf_id ` set (collect_files httpbin_dir_removed)"
    using arg_cong [OF removed_collected, of set] by (simp only: set_map) simp
  ultimately have "table_of (stream_updates demo_regexp ?es) ''pol-allow-staff-read''
      = foldl table_update (\<lambda>_. None) (files_updates demo_regexp (loadPolicyFiles (sort_key pf_id) (Some httpbin_dir))) ''pol-allow-staff-read''"
    using reseeding_keeps_removed [OF sorts_by_id_sort_key _ sorts_by_id_sort_key _ es refl refl, of demo_regexp] by blast
  then have "table_of (stream_updates demo_regexp ?es) ''pol-allow-staff-read'' = Some httpbin_staff_read"
    by (simp add: httpbin_files_updates [OF sorts_by_id_sort_key] demo_policy_ids)
  with es gone show ?thesis by blast
qed

end
