(* ===== verification/Engine_Scenarios.thy ===== *)
theory Engine_Scenarios
  imports Engine Go_Regexp
begin

text \<open>
  The scenarios that the engine of the repository is tested with, \<open>internal/engine/testdata\<close>
  and the example of its \<open>TESTING.md\<close>, and the harness of \<open>engine_test.go\<close> that runs them: the
  model of the engine, with the regular expressions of Go, gives every result that they expect.
\<close>

subsection \<open>The harness\<close>

record 'r scenario =
  sc_Name :: string
  sc_Policies :: "'r policy list"
  sc_Request :: EvaluationRequest
  sc_WantAllowed :: bool
  sc_WantPolicyID :: string
  sc_WantErr :: bool
  sc_WantReason :: string

text \<open>The mock store compiles the policies, and fails the test if one does not compile.\<close>

fun createMockStore :: "'r regexp_lib \<Rightarrow> 'r policy list \<Rightarrow> 'r PolicySnapshot option" where
  "createMockStore rx [] = Some \<lparr>snap_Allow = [], snap_Deny = []\<rparr>"
| "createMockStore rx (p # ps) =
     (case Compile rx p of
        (p', Some err) \<Rightarrow> None
      | (p', None) \<Rightarrow>
          (case createMockStore rx ps of
             None \<Rightarrow> None
           | Some ms \<Rightarrow>
               Some (if pol_Access p' = AccessAllow then ms\<lparr>snap_Allow := p' # snap_Allow ms\<rparr>
                     else ms\<lparr>snap_Deny := p' # snap_Deny ms\<rparr>)))"

definition runTestCase :: "'r regexp_lib \<Rightarrow> int \<Rightarrow> 'r scenario \<Rightarrow> bool" where
  "runTestCase rx elapsed tc =
     (case createMockStore rx (sc_Policies tc) of
        None \<Rightarrow> False
      | Some ms \<Rightarrow>
          (case CheckAccess rx Inr ms (sc_Request tc) elapsed of
             Inl err \<Rightarrow> sc_WantErr tc
           | Inr resp \<Rightarrow>
               \<not> sc_WantErr tc \<and> resp_Allowed resp = sc_WantAllowed tc \<and> resp_MatchedPolicyID resp = sc_WantPolicyID tc
               \<and> (sc_WantReason tc = [] \<or> resp_Reason resp = sc_WantReason tc)))"

subsection \<open>The scenarios\<close>

definition scenario_policy ::
  "string \<Rightarrow> string \<Rightarrow> Access \<Rightarrow> string \<Rightarrow> string \<Rightarrow> 'r condition list \<Rightarrow> 'r policy" where
  "scenario_policy pid description access rtype act conds =
     \<lparr>pol_ID = pid, pol_Description = description, pol_Access = access,
      pol_Target = \<lparr>tg_ResourceType = rtype, tg_Action = act\<rparr>, pol_Conditions = conds\<rparr>"

definition mk_request ::
  "string \<Rightarrow> string \<Rightarrow> (string, string list) gomap \<Rightarrow> (string, string list) gomap
     \<Rightarrow> (string, string list) gomap \<Rightarrow> EvaluationRequest" where
  "mk_request rtype act principal_attrs resource_attrs environment_attrs =
     \<lparr>req_PrincipalID = [], req_PrincipalAttributes = principal_attrs, req_ResourceType = rtype,
      req_ResourceID = [], req_ResourceAttributes = resource_attrs, req_Action = act,
      req_EnvironmentAttributes = environment_attrs\<rparr>"

definition basic_operators :: "'r scenario list" where
  "basic_operators =
     [\<lparr>sc_Name = ''Equals allow'',
       sc_Policies =
         [scenario_policy ''basic-equals'' ''Internal zones may read endpoint metrics''
          ''ALLOW'' ''endpoint-metrics-log'' ''READ''
          [mk_condition ''environment.network_zone'' ''EQUALS'' [''internal-data'', ''backup-mgmt'']]],
       sc_Request = mk_request ''endpoint-metrics-log'' ''READ''
          [(''roles'', [''DevOps'', ''Admin''])]
          []
          [(''network_zone'', [''internal-data'', ''backup-mgmt''])],
       sc_WantAllowed = True, sc_WantPolicyID = ''basic-equals'',
       sc_WantErr = False, sc_WantReason = []\<rparr>,
      \<lparr>sc_Name = ''Equals allow, value order reversed'',
       sc_Policies =
         [scenario_policy ''basic-equals'' ''Internal zones may read endpoint metrics''
          ''ALLOW'' ''endpoint-metrics-log'' ''READ''
          [mk_condition ''environment.network_zone'' ''EQUALS'' [''internal-data'', ''backup-mgmt'']]],
       sc_Request = mk_request ''endpoint-metrics-log'' ''READ''
          [(''roles'', [''DevOps'', ''Admin''])]
          []
          [(''network_zone'', [''backup-mgmt'', ''internal-data''])],
       sc_WantAllowed = True, sc_WantPolicyID = ''basic-equals'',
       sc_WantErr = False, sc_WantReason = []\<rparr>,
      \<lparr>sc_Name = ''CONTAINS_ALL single value'',
       sc_Policies =
         [scenario_policy ''basic-contains-all'' ''Admins may read audit logs''
          ''ALLOW'' ''audit-log'' ''READ''
          [mk_condition ''principal.roles'' ''CONTAINS_ALL'' [''Admin'']]],
       sc_Request = mk_request ''audit-log'' ''READ''
          [(''roles'', [''DevOps'', ''Admin''])]
          [(''network_zone'', [''internal-vpn''])]
          [],
       sc_WantAllowed = True, sc_WantPolicyID = ''basic-contains-all'',
       sc_WantErr = False, sc_WantReason = []\<rparr>,
      \<lparr>sc_Name = ''CONTAINS_ALL multi value'',
       sc_Policies =
         [scenario_policy ''basic-contains-all-multi'' ''Internal backup zones may read backups''
          ''ALLOW'' ''backup-database'' ''READ''
          [mk_condition ''resource.network_zone'' ''CONTAINS_ALL'' [''internal-data'', ''backup-mgmt'']]],
       sc_Request = mk_request ''backup-database'' ''READ''
          [(''roles'', [''DevOps'', ''Admin''])]
          [(''network_zone'', [''internal-data'', ''backup-mgmt'', ''internal-vpn''])]
          [],
       sc_WantAllowed = True, sc_WantPolicyID = ''basic-contains-all-multi'',
       sc_WantErr = False, sc_WantReason = []\<rparr>,
      \<lparr>sc_Name = ''CONTAINS_ANY overlapping value'',
       sc_Policies =
         [scenario_policy ''basic-contains-any'' ''Internal zones may read internal databases''
          ''ALLOW'' ''internal-database'' ''READ''
          [mk_condition ''resource.network_zone'' ''CONTAINS_ANY'' [''internal-data'', ''backup-mgmt'']]],
       sc_Request = mk_request ''internal-database'' ''READ''
          [(''roles'', [''DevOps'', ''Admin''])]
          [(''network_zone'', [''internal-data''])]
          [],
       sc_WantAllowed = True, sc_WantPolicyID = ''basic-contains-any'',
       sc_WantErr = False, sc_WantReason = []\<rparr>,
      \<lparr>sc_Name = ''IN_CIDR basic test'',
       sc_Policies =
         [scenario_policy ''basic-in-cidr'' ''Database access restricted to internal VPN''
          ''ALLOW'' ''customer-database'' ''WRITE''
          [mk_condition ''environment.ip_address'' ''IN_CIDR'' [''10.50.0.0/16'']]],
       sc_Request = mk_request ''customer-database'' ''WRITE''
          [(''roles'', [''SalesDept''])]
          []
          [(''ip_address'', [''10.50.0.40''])],
       sc_WantAllowed = True, sc_WantPolicyID = ''basic-in-cidr'',
       sc_WantErr = False, sc_WantReason = []\<rparr>,
      \<lparr>sc_Name = ''BETWEEN basic test'',
       sc_Policies =
         [scenario_policy ''basic-between'' ''Database access restricted to business hours''
          ''ALLOW'' ''inventory-database'' ''WRITE''
          [mk_condition ''environment.hour_of_day'' ''BETWEEN'' [''9'', ''16'']]],
       sc_Request = mk_request ''inventory-database'' ''WRITE''
          [(''roles'', [''Admin''])]
          []
          [(''hour_of_day'', [''12''])],
       sc_WantAllowed = True, sc_WantPolicyID = ''basic-between'',
       sc_WantErr = False, sc_WantReason = []\<rparr>]"

definition deny_scenarios :: "'r scenario list" where
  "deny_scenarios =
     [\<lparr>sc_Name = ''Authorized, all conditions met'',
       sc_Policies =
         [scenario_policy ''pol-threat-001'' ''Security Admins can read endpoint threat logs from the internal VPN''
          ''ALLOW'' ''endpoint-threat-log'' ''READ''
          [mk_condition ''environment.network_zone'' ''EQUALS'' [''internal-vpn'']]],
       sc_Request = mk_request ''endpoint-threat-log'' ''READ''
          [(''roles'', [''User'', ''SecurityAdmin'', ''DevOps''])]
          []
          [(''network_zone'', [''internal-vpn''])],
       sc_WantAllowed = True, sc_WantPolicyID = ''pol-threat-001'',
       sc_WantErr = False, sc_WantReason = []\<rparr>,
      \<lparr>sc_Name = ''Implicit deny, wrong network zone'',
       sc_Policies =
         [scenario_policy ''pol-threat-001'' ''Security Admins can read endpoint threat logs from the internal VPN''
          ''ALLOW'' ''endpoint-threat-log'' ''READ''
          [mk_condition ''environment.network_zone'' ''EQUALS'' [''internal-vpn'']]],
       sc_Request = mk_request ''endpoint-threat-log'' ''READ''
          [(''roles'', [''SecurityAdmin''])]
          []
          [(''network_zone'', [''public-internet''])],
       sc_WantAllowed = False, sc_WantPolicyID = [],
       sc_WantErr = False, sc_WantReason = ''Implict Deny: No matching polices''\<rparr>,
      \<lparr>sc_Name = ''Implicit deny, non-matching resource type'',
       sc_Policies =
         [scenario_policy ''pol-threat-001'' ''Security Admins can read endpoint threat logs from the internal VPN''
          ''ALLOW'' ''endpoint-threat-log'' ''READ''
          [mk_condition ''environment.network_zone'' ''EQUALS'' [''internal-vpn'']]],
       sc_Request = mk_request ''billing-system'' ''READ''
          [(''roles'', [''SecurityAdmin''])]
          []
          [(''network_zone'', [''internal-vpn''])],
       sc_WantAllowed = False, sc_WantPolicyID = [],
       sc_WantErr = False, sc_WantReason = []\<rparr>,
      \<lparr>sc_Name = ''Explicit DENY policy matched'',
       sc_Policies =
         [scenario_policy ''pol-deny-001'' ''Block writes from the public internet''
          ''DENY'' ''internal-database'' ''WRITE''
          [mk_condition ''environment.network_zone'' ''EQUALS'' [''public-internet'']]],
       sc_Request = mk_request ''internal-database'' ''WRITE''
          []
          []
          [(''network_zone'', [''public-internet''])],
       sc_WantAllowed = False, sc_WantPolicyID = ''pol-deny-001'',
       sc_WantErr = False, sc_WantReason = []\<rparr>,
      \<lparr>sc_Name = ''Explicit deny overrides matching allow'',
       sc_Policies =
         [scenario_policy ''pol-allow-002'' ''Contractors may read internal docs''
          ''ALLOW'' ''internal-docs'' ''READ''
          [mk_condition ''principal.role'' ''EQUALS'' [''contractor'']],
          scenario_policy ''pol-deny-002'' ''Block contractors from internal docs''
          ''DENY'' ''internal-docs'' ''READ''
          [mk_condition ''principal.role'' ''EQUALS'' [''contractor'']]],
       sc_Request = mk_request ''internal-docs'' ''READ''
          [(''role'', [''contractor''])]
          []
          [],
       sc_WantAllowed = False, sc_WantPolicyID = ''pol-deny-002'',
       sc_WantErr = False, sc_WantReason = []\<rparr>,
      \<lparr>sc_Name = ''Allow applies when deny does not match'',
       sc_Policies =
         [scenario_policy ''pol-allow-003'' ''Engineers may write to the config service''
          ''ALLOW'' ''config-service'' ''WRITE''
          [mk_condition ''principal.role'' ''EQUALS'' [''engineer'']],
          scenario_policy ''pol-deny-003'' ''Block public-internet writes to the config service''
          ''DENY'' ''config-service'' ''WRITE''
          [mk_condition ''environment.network_zone'' ''EQUALS'' [''public-internet'']]],
       sc_Request = mk_request ''config-service'' ''WRITE''
          [(''role'', [''engineer''])]
          []
          [(''network_zone'', [''internal-vpn''])],
       sc_WantAllowed = True, sc_WantPolicyID = ''pol-allow-003'',
       sc_WantErr = False, sc_WantReason = []\<rparr>]"

definition regex_scenarios :: "'r scenario list" where
  "regex_scenarios =
     [\<lparr>sc_Name = ''REGEX basic match'',
       sc_Policies =
         [scenario_policy ''pol-regex-001'' ''Admin-prefixed principals may read audit logs''
          ''ALLOW'' ''audit-log'' ''READ''
          [mk_condition ''principal.username'' ''REGEX'' [''^admin-.*'']]],
       sc_Request = mk_request ''audit-log'' ''READ''
          [(''username'', [''admin-dev''])]
          []
          [],
       sc_WantAllowed = True, sc_WantPolicyID = ''pol-regex-001'',
       sc_WantErr = False, sc_WantReason = []\<rparr>,
      \<lparr>sc_Name = ''REGEX no match'',
       sc_Policies =
         [scenario_policy ''pol-regex-001'' ''Admin-prefixed principals may read audit logs''
          ''ALLOW'' ''audit-log'' ''READ''
          [mk_condition ''principal.username'' ''REGEX'' [''^admin-.*'']]],
       sc_Request = mk_request ''audit-log'' ''READ''
          [(''username'', [''user-dev''])]
          []
          [],
       sc_WantAllowed = False, sc_WantPolicyID = [],
       sc_WantErr = False, sc_WantReason = []\<rparr>,
      \<lparr>sc_Name = ''REGEX case sensitivity'',
       sc_Policies =
         [scenario_policy ''pol-regex-002'' ''Admin (capital A) principals only''
          ''ALLOW'' ''audit-log'' ''READ''
          [mk_condition ''principal.username'' ''REGEX'' [''^Admin'']]],
       sc_Request = mk_request ''audit-log'' ''READ''
          [(''username'', [''admin-dev''])]
          []
          [],
       sc_WantAllowed = False, sc_WantPolicyID = [],
       sc_WantErr = False, sc_WantReason = []\<rparr>,
      \<lparr>sc_Name = ''REGEX email-like pattern'',
       sc_Policies =
         [scenario_policy ''pol-regex-003'' ''Allow example.com email users to read audit logs''
          ''ALLOW'' ''audit-log'' ''READ''
          [mk_condition ''principal.email'' ''REGEX'' [(''^[a-z]+@example'' @ [CHR 0x5C] @ ''.com$'')]]],
       sc_Request = mk_request ''audit-log'' ''READ''
          [(''email'', [''devops@example.com''])]
          []
          [],
       sc_WantAllowed = True, sc_WantPolicyID = ''pol-regex-003'',
       sc_WantErr = False, sc_WantReason = []\<rparr>,
      \<lparr>sc_Name = ''REGEX special characters'',
       sc_Policies =
         [scenario_policy ''pol-regex-004'' ''Allow requests from 10.50.x.x IPs''
          ''ALLOW'' ''customer-database'' ''READ''
          [mk_condition ''environment.ip_address'' ''REGEX'' [(''10'' @ [CHR 0x5C] @ ''.50'' @ [CHR 0x5C] @ ''..*'')]]],
       sc_Request = mk_request ''customer-database'' ''READ''
          []
          []
          [(''ip_address'', [''10.50.0.40''])],
       sc_WantAllowed = True, sc_WantPolicyID = ''pol-regex-004'',
       sc_WantErr = False, sc_WantReason = []\<rparr>,
      \<lparr>sc_Name = ''REGEX with DENY policy'',
       sc_Policies =
         [scenario_policy ''pol-regex-deny-001'' ''Block test and staging environments from production writes''
          ''DENY'' ''production-database'' ''WRITE''
          [mk_condition ''environment.name'' ''REGEX'' [''^(test|staging)-.*'']]],
       sc_Request = mk_request ''production-database'' ''WRITE''
          []
          []
          [(''name'', [''staging-api''])],
       sc_WantAllowed = False, sc_WantPolicyID = ''pol-regex-deny-001'',
       sc_WantErr = False, sc_WantReason = []\<rparr>]"

definition testing_example :: "'r scenario" where
  "testing_example =
     \<lparr>sc_Name = ''DevOps may read audit logs from internal VPN'',
       sc_Policies =
         [scenario_policy ''pol-audit-001'' ''DevOps can read audit logs from the internal VPN''
          ''ALLOW'' ''audit-log'' ''READ''
          [mk_condition ''principal.roles'' ''CONTAINS_ALL'' [''DevOps''],
           mk_condition ''environment.network_zone'' ''EQUALS'' [''internal-vpn'']]],
       sc_Request = mk_request ''audit-log'' ''READ''
          [(''roles'', [''DevOps''])]
          []
          [(''network_zone'', [''internal-vpn''])],
       sc_WantAllowed = True, sc_WantPolicyID = ''pol-audit-001'',
       sc_WantErr = False, sc_WantReason = []\<rparr>"


subsection \<open>Conformance\<close>

lemma basic_operators_conform: "list_all (runTestCase (go_regexp other) t) basic_operators"
  by code_simp

lemma deny_scenarios_conform: "list_all (runTestCase (go_regexp other) t) deny_scenarios"
  by code_simp

lemma regex_scenarios_conform: "list_all (runTestCase (go_regexp other) t) regex_scenarios"
  by code_simp

lemma testing_example_conforms: "runTestCase (go_regexp other) t testing_example"
  by code_simp

definition engine_scenarios :: "'r scenario list" where
  "engine_scenarios = basic_operators @ deny_scenarios @ regex_scenarios @ [testing_example]"

lemma engine_scenarios_conform:
  "list_all (runTestCase (go_regexp other) elapsed) engine_scenarios"
  by (simp add: engine_scenarios_def basic_operators_conform deny_scenarios_conform
      regex_scenarios_conform testing_example_conforms)

end
