(* ===== verification/Process_Moments.thy ===== *)
theory Process_Moments
  imports Process_Scrape
begin

text \<open>
  What every response of the running process is decided on, however many updates overlap its
  call: the allow policies at one moment of the call and the deny policies at the same moment or
  a later one.  A moment is a number of updates applied in full; the half-applied stores between
  two moments, after the first compare-and-swap of an update, are shown to decide as a moment
  does.
\<close>

subsection \<open>Half an update\<close>

text \<open>Deciding by the allow policies of one table and the deny policies of another one.\<close>

definition authorized_by_parts ::
  "'r regexp_lib \<Rightarrow> (string \<Rightarrow> 'r policy option) \<Rightarrow> (string \<Rightarrow> 'r policy option) \<Rightarrow> EvaluationRequest \<Rightarrow> bool" where
  "authorized_by_parts rx A D req = granted rx (allow_part A) (deny_part D) req"

lemma tables_granted_parts:
  "store_inv st \<Longrightarrow> store_inv st' \<Longrightarrow>
     tables_granted rx (ps_allow st) (ps_deny st') req = authorized_by_parts rx (stored st) (stored st') req"
  by (simp only: tables_granted_def authorized_by_parts_def stored_parts gomap_values store_inv_gomap)

text \<open>The store after the first \<open>k\<close> of the updates \<open>us\<close>, in full.\<close>

abbreviation store_after :: "'r update list \<Rightarrow> nat \<Rightarrow> 'r PolicyStore" where
  "store_after us k \<equiv> run_updates UpsertPolicy DeletePolicy (take k us) NewPolicyStore"

lemma store_after_ok: "store_inv (store_after us k)" "stored (store_after us k) = table_of (take k us)"
  using store.run [of "take k us"] by (simp_all add: table_of_def)

lemma store_after_Suc:
  "k < length us \<Longrightarrow> store_after us (Suc k) = run_updates UpsertPolicy DeletePolicy [us ! k] (store_after us k)"
  by (simp only: take_Suc_conv_app_nth run_updates_append)

lemma hist_position:
  assumes "k < length us" "i \<le> 2"
  shows "hist (update_list_calls us) NewPolicyStore (2 * k + i) = hist (update_calls (us ! k)) (store_after us k) i"
proof -
  have us: "us = take k us @ [us ! k] @ drop (Suc k) us" using assms(1) by (simp add: id_take_nth_drop)
  have "hist (update_list_calls us) NewPolicyStore (2 * k + i)
      = hist (update_list_calls (take k us) @ update_list_calls [us ! k] @ update_list_calls (drop (Suc k) us))
          NewPolicyStore (2 * k + i)"
    by (subst us) (simp only: update_list_calls_append)
  also have "\<dots> = hist (update_list_calls [us ! k] @ update_list_calls (drop (Suc k) us)) (store_after us k) i"
    using hist_plus [of "update_list_calls (take k us)" _ NewPolicyStore i] assms(1)
    by (simp add: apply_update_list_calls)
  also have "\<dots> = hist (update_calls (us ! k)) (store_after us k) i"
    using assms(2) by (simp add: hist_append update_list_calls_def)
  finally show ?thesis .
qed

text \<open>The table of a kind at any point is its table before or after the update in progress.\<close>

lemma half_tables:
  assumes "i \<le> 2"
  shows "ps_allow (hist (update_calls u) st i) \<in> {ps_allow st, ps_allow (run_updates UpsertPolicy DeletePolicy [u] st)}
    \<and> ps_deny (hist (update_calls u) st i) \<in> {ps_deny st, ps_deny (run_updates UpsertPolicy DeletePolicy [u] st)}"
proof -
  consider "i = 0" | "i = 1" | "i = 2" using assms by linarith
  then show ?thesis
    by cases (cases u, simp_all add: hist_def numeral_eq_Suc UpsertPolicy_tables DeletePolicy_tables upsertInto_def)+
qed

lemma tables_at:
  assumes "m \<le> 2 * length us"
  shows "\<exists>a. m div 2 \<le> a \<and> a \<le> Suc m div 2
      \<and> ps_allow (hist (update_list_calls us) NewPolicyStore m) = ps_allow (store_after us a)"
    and "\<exists>d. m div 2 \<le> d \<and> d \<le> Suc m div 2
      \<and> ps_deny (hist (update_list_calls us) NewPolicyStore m) = ps_deny (store_after us d)"
proof -
  let ?h = "hist (update_list_calls us) NewPolicyStore"
  let ?k = "m div 2"
  have "(\<exists>a. ?k \<le> a \<and> a \<le> Suc m div 2 \<and> ps_allow (?h m) = ps_allow (store_after us a))
      \<and> (\<exists>d. ?k \<le> d \<and> d \<le> Suc m div 2 \<and> ps_deny (?h m) = ps_deny (store_after us d))"
  proof (cases "even m")
    case True
    then have "?h m = store_after us ?k"
    proof (cases "?k < length us")
      case True
      then show ?thesis using hist_position [of ?k us 0] \<open>even m\<close> by simp
    next
      case False
      then have "m = 2 * length us" using assms \<open>even m\<close> by auto
      then show ?thesis by (simp add: hist_full)
    qed
    then show ?thesis by (metis div_le_mono le_SucI order_refl)
  next
    case False
    then have k: "?k < length us" "m = 2 * ?k + 1" "Suc m div 2 = Suc ?k" using assms by (auto elim!: oddE)
    then have "?h m = hist (update_calls (us ! ?k)) (store_after us ?k) 1"
      using hist_position [OF k(1), of 1] by simp
    then show ?thesis
      using half_tables [of 1 "us ! ?k" "store_after us ?k"] store_after_Suc [OF k(1)] k(3) by (metis insertE le_SucI order_refl singletonD one_le_numeral)
  qed
  then show "\<exists>a. ?k \<le> a \<and> a \<le> Suc m div 2 \<and> ps_allow (?h m) = ps_allow (store_after us a)"
    "\<exists>d. ?k \<le> d \<and> d \<le> Suc m div 2 \<and> ps_deny (?h m) = ps_deny (store_after us d)" by blast+
qed

text \<open>An update that swaps the allow table first only takes policies out of it.\<close>

lemma first_swap_shrinks:
  assumes "store_inv st" "ps_deny (hist (update_calls u) st 1) = ps_deny st"
  shows "ran (gomap_get (ps_allow (hist (update_calls u) st 1))) \<subseteq> ran (gomap_get (ps_allow st))"
proof -
  have "ran (gomap_get (removeFrom k (ps_allow st))) \<subseteq> ran (gomap_get (ps_allow st))" for k
    using assms(1) by (auto simp: ran_def split: if_splits)
  then show ?thesis by (cases u) (simp_all add: hist_def)
qed

text \<open>The two loads of a call decide as two moments do, the one for the deny policies not earlier.\<close>

lemma loads_decide_as_moments:
  assumes "2 * lo \<le> m" "m \<le> l" "l \<le> 2 * length us"
  shows "\<exists>a d. lo \<le> a \<and> a \<le> d \<and> d \<le> length us
    \<and> (tables_granted rx (ps_allow (hist (update_list_calls us) NewPolicyStore m))
          (ps_deny (hist (update_list_calls us) NewPolicyStore l)) req
       \<longleftrightarrow> authorized_by_parts rx (table_of (take a us)) (table_of (take d us)) req)"
proof -
  let ?h = "hist (update_list_calls us) NewPolicyStore"
  let ?parts = "\<lambda>a d. authorized_by_parts rx (table_of (take a us)) (table_of (take d us)) req"
  have parts: "tables_granted rx (ps_allow (store_after us a)) (ps_deny (store_after us d)) req = ?parts a d" for a d
    using tables_granted_parts [OF store_after_ok(1) store_after_ok(1)] by (simp only: store_after_ok(2))
  obtain a where a: "m div 2 \<le> a" "a \<le> Suc m div 2" "ps_allow (?h m) = ps_allow (store_after us a)"
    using tables_at(1) [of m us] assms by auto
  obtain d where d: "l div 2 \<le> d" "d \<le> Suc l div 2" "ps_deny (?h l) = ps_deny (store_after us d)"
    using tables_at(2) [of l us] assms by auto
  have bounds: "lo \<le> a" "d \<le> length us" "lo \<le> d" "a \<le> length us" using a d assms by linarith+
  show ?thesis
  proof (cases "a \<le> d")
    case True
    then show ?thesis using a d bounds parts by metis
  next
    case False
    then have half: "a = Suc d" "m = 2 * d + 1" "l = m" "d < length us" using a d assms bounds by linarith+
    let ?u = "us ! d"
    have h: "?h m = hist (update_calls ?u) (store_after us d) 1"
      using hist_position [OF half(4), of 1] half(2) by simp
    have "ran (gomap_get (ps_allow (?h m))) \<subseteq> ran (gomap_get (ps_allow (store_after us d)))"
      unfolding h by (rule first_swap_shrinks [OF store_after_ok(1)]) (use d(3) half(3) h in simp)
    then have less: "allow_part (table_of (take a us)) \<subseteq> allow_part (table_of (take d us))"
      using a(3) stored_parts(1) [OF store_after_ok(1)] by (metis store_after_ok(2))
    have mixed: "tables_granted rx (ps_allow (?h m)) (ps_deny (?h l)) req = ?parts a d" using a d parts by metis
    show ?thesis
    proof (cases "?parts a d \<longleftrightarrow> ?parts d d")
      case True
      then show ?thesis using mixed bounds by blast
    next
      case False
      then have "?parts a d \<longleftrightarrow> ?parts a a" using less by (auto simp: authorized_by_parts_def granted_def)
      then show ?thesis using mixed bounds by blast
    qed
  qed
qed

subsection \<open>Every response of the process\<close>

lemma response_moments:
  assumes "conc_run rx lib (xs @ Answered i req resp # ys) s"
  shows "\<exists>a d. finished rx (before_call i xs) = take (length (finished rx (before_call i xs))) (begun rx xs)
    \<and> length (finished rx (before_call i xs)) \<le> a \<and> a \<le> d \<and> d \<le> length (begun rx xs)
    \<and> (crs_Allowed resp \<longleftrightarrow>
         granted rx (allow_part (table_of (take a (begun rx xs)))) (deny_part (table_of (take d (begun rx xs))))
           (eval_request req))"
proof -
  obtain s0 where "conc_run rx lib xs s0" using conc_run_prefix [OF assms] by blast
  from finished_before [OF this, of i]
  have "finished rx (before_call i xs) = take (length (finished rx (before_call i xs))) (begun rx xs)"
    by (metis append_eq_conv_conj)
  moreover obtain m l where "2 * length (finished rx (before_call i xs)) \<le> m" "m \<le> l" "l \<le> 2 * length (begun rx xs)"
      "crs_Allowed resp \<longleftrightarrow> tables_granted rx (ps_allow (store_at rx xs m)) (ps_deny (store_at rx xs l)) (eval_request req)"
    using answered_window [OF assms] unfolding decided_on_def by blast
  ultimately show ?thesis
    using loads_decide_as_moments [of "length (finished rx (before_call i xs))" m l "begun rx xs" rx "eval_request req"]
    unfolding store_at_def authorized_by_parts_def by metis
qed

text \<open>
  C1: what every response of the running process is decided on.  Take any run, with any number
  of calls, scrapes and entries in progress, interleaved at their atomic operations, and any
  response.  The updates that the subscriber had begun by the response continue those finished
  before the call came in, and the response allows exactly when an allow policy in force after
  some \<open>a\<close> of them applies to the request and no deny policy in force after some \<open>d\<close> of them
  does, where \<open>a \<le> d\<close> and both lie between the arrival of the call and the response.
\<close>

theorem every_response_decided:
  assumes "conc_run rx lib (xs @ Answered i req resp # ys) s"
  shows "\<exists>a d. finished rx (before_call i xs) = take (length (finished rx (before_call i xs))) (begun rx xs)
    \<and> length (finished rx (before_call i xs)) \<le> a \<and> a \<le> d \<and> d \<le> length (begun rx xs)
    \<and> (crs_Allowed resp \<longleftrightarrow>
         granted rx (allow_part (table_of (take a (begun rx xs)))) (deny_part (table_of (take d (begun rx xs))))
           (eval_request req))"
  by (rule response_moments [OF assms])

theorem every_response_decided_witness:
  "\<exists>k resp s. conc_run literal_regexp sample_prom
      (entry_then_call k sample_entry (sample_call ''admin'') resp @ Answered 0 (sample_call ''admin'') resp # []) s
    \<and> crs_Allowed resp"
proof -
  obtain k resp s where run: "conc_run literal_regexp sample_prom
      (entry_then_call k sample_entry (sample_call ''admin'') resp @ Answered 0 (sample_call ''admin'') resp # []) s"
    using entry_call_run by blast
  have "authorized literal_regexp (table_of [Upsert document_policy]) (sample_request ''admin'')"
    using sample_authorized by (simp add: run_table_def table_of_def event_updates_def sample_entry_updates)
  moreover obtain a d where ad: "length [Upsert document_policy :: string update] \<le> a" "a \<le> d"
      "d \<le> length [Upsert document_policy :: string update]"
      "crs_Allowed resp \<longleftrightarrow> granted literal_regexp (allow_part (table_of (take a [Upsert document_policy])))
         (deny_part (table_of (take d [Upsert document_policy]))) (sample_request ''admin'')"
    using every_response_decided [OF run] unfolding entry_call_window sample_entry_updates eval_sample_call by blast
  moreover have "take a [Upsert document_policy] = [Upsert document_policy]"
    "take d [Upsert document_policy] = [Upsert document_policy]" using ad(1-3) by simp_all
  ultimately have "crs_Allowed resp" by (simp only: authorized_def)
  with run show ?thesis by blast
qed

end
