(* ===== verification/Spec2Isabelle.thy ===== *)
theory Spec2Isabelle
  imports Store_Writers Netip_V6_Text Process_Torn Process_Scrape Process_Main
    Deployment Extauthz_Server Demo_Clients Demo_Decisions Demo_Restart Engine_Scenarios Process_Moments
begin

text \<open>
  Verification of bouncer-engine, a policy decision point for attribute-based access control
  written in Go (\<open>cmd/bouncer-engine\<close>, \<open>internal/\<close>), and of the two enforcement points of the
  repository that ask it (\<open>examples/envoy-jwt/extauthz\<close>, \<open>examples/httpbin/pep\<close>).

  How the program works.  Policies arrive on a Redis stream.  The subscriber decodes and checks
  each entry and applies it to an in-memory store, two copy-on-write tables behind atomic
  pointers.  A gRPC server translates a request, lets the engine evaluate it over a listing of
  the store (deny overrides, default deny), hands an audit record to a bounded channel that
  worker goroutines drain, and answers; an interceptor counts the decisions.  The enforcement
  points build a request from a JWT payload or from headers and forward or refuse.

  Theories and code.

    Bouncer_Prelude   Go maps as association lists with distinct keys; map iteration order.
    Go_Text           strings.Cut, strconv.Atoi, case mapping, strings.Join.
    Go_Netip          netip.ParseAddr, ParsePrefix and Contains, on 32 and 128 bit words.
    Go_Json           the JSON reader of encoding/json, bytes to tokens to a tree.
    Go_Base64         the two URL-safe base64 decoders and their encoder.
    Policy            internal/store/policy.go: the structs and Compile.
    Policy_Json       json.Unmarshal into a policy, with the struct tags of policy.go.
    Json_Print        a printer of documents and the proof that the reader inverts it.
    Json_Encode       the JSON encoder of encoding/json on the bodies that the enforcement points
                      write, and the proof that the reader inverts it.
    Operators         internal/engine/operators.go: EvaluateCondition and the six operators.
    Netip_V6_Text     the texts of IPv6 addresses, and IN_CIDR on both families.
    Go_Regexp         regexp.Compile and MatchString on the part of the syntax that the patterns of
                      the repository use, and REGEX conditions with it.
    Engine            internal/engine/engine.go: firstMatch and CheckAccess.
    Engine_Scenarios  internal/engine/engine_test.go and testdata: the scenarios that the engine is
                      tested with, run on the model.
    Policy_Interface  the interfaces PolicyProvider and the subscriber's view of the store, as
                      the locales policy_provider and policy_repository.
    Policy_Store      internal/store/store.go for one goroutine; interprets the locales.
    Store_Concurrent  internal/store/store.go for any number of goroutines: atomic loads and
                      compare-and-swaps under any scheduler.
    Store_Writers     concurrent writers of different policies.
    Subscriber        internal/subscriber: entries, their processing, the reading loop.
    Audit_Log         internal/audit/logger.go: channel, workers, shutdown.
    Authz_Api         pkg/gen/authzv1: messages, getters, the generated handler, the client stub
                      and the description of the service.
    Metrics           internal/metrics/metrics.go: Register, the interceptor, the gauge; the
                      locale policy_counter and its interpretation on the store.
    Server            internal/server/grpc.go; the locale decision_service, which is what an
                      enforcement point relies on, and its interpretation on the server.
    Bouncer_System    cmd/bouncer-engine/main.go: the wired process as a transition system; it
                      interprets decision_service on the whole process.
    Process_Main      the same file from its first line to the exit of the process.
    Process_Concurrent  the running process with calls that overlap each other and the
                      subscriber, on top of Store_Concurrent.
    Process_Progress  the reachable states of that process are well typed, its calls wait-free.
    Process_Moments   what each of its responses is decided on, however many updates overlap the
                      call.
    Process_Torn      a run of it in which two updates during one call grant too much.
    Process_Scrape    what a scrape of the metrics endpoint reports while updates are applied.
    Deployment        any number of replicas of the process, restarted at any moment, that read one
                      growing stream while they serve calls.
    Extauthz          examples/envoy-jwt/extauthz/main.go: the Check path.
    Pep               examples/httpbin/pep/main.go: the request handler and its replies.
    Seeding           loadPolicyFiles and seedPolicies of the two enforcement points.
    Seeding_Replicas  several enforcement points that seed at the same time, and one that is
                      restarted with another directory.
    Edge_Programs     the main functions of the two enforcement points, and both in front of the
                      process.
    Extauthz_Server   the serving phase of the Envoy adapter, over a server of grpc-go that is a
                      parameter.
    Demo_Clients      loadtest/seed/main.go and cmd/mock-publisher/main.go: the addresses, the
                      documents, the publishing, the polling loop and the exit status.
    Demo_Policies     the policy files of the two demonstrations and api/policy-example.json, byte
                      for byte, with a reader by lines for the proofs.
    Demo_Decisions    what the demonstrations let through, from the files to the decision.
    Demo_Restart      what a restart of the engine or of the proxy does to a demonstration.
    Spec2Isabelle     the properties that span the process and its clients.

  State and operations.  Structs are records with the fields of the code, pointers are options,
  errors and panics are values, and every early return is a branch.  The store is a record of
  two maps (\<open>PolicyStore\<close>); its concurrent form adds an address to each map, so that a
  compare-and-swap compares addresses (\<open>shared\<close>, \<open>goroutine_step\<close>).  The subscriber is a record
  of its stream key, its store and its position (\<open>Start_loop\<close> over the rounds that the
  environment plays).  The logger is a record of the channel, the wait group and the program
  counters of the workers (\<open>audit_step\<close>).  The process is the metrics beside the server
  (\<open>bouncer_step\<close>, where a served call is one step).  With overlapping calls it is the system of
  goroutines of \<open>Store_Concurrent\<close>, goroutine 0 the subscriber and goroutine \<open>i + 1\<close> the call in
  slot \<open>i\<close>, beside what each call is doing, the metrics and the audit log (\<open>conc_step\<close>); a scrape
  of the metrics endpoint occupies a slot like a call.  A deployment is the stream beside a map
  of replicas, each a process with its position (\<open>deploy_step\<close>); the events of a replica since
  it booted are kept in the state, so that positions can be stated.

  What the lemmas show.  The operators are proved equal to their mathematical meaning,
  \<open>CheckAccess\<close> to deny overrides over the policies that apply, whatever the listing order.
  The store refines a table by identifier; the retry loops are linearizable, terminate
  without interference, writers of different policies leave what each leaves alone, and one
  update is fail-safe for every reader, while two updates are not one step for a reader, who
  can then be granted what no moment of the store grants.  The subscriber applies the stream
  in order, once each, catches up, and admits only checked policies.  The logger loses and
  makes up nothing, drops only when full, and \<open>Stop\<close> drains it and returns.  Of the whole
  process, whatever calls and updates overlap: a response allows exactly when an allow policy
  in force at one moment of the call applies and no deny policy in force at that moment or a
  later one of the call does (\<open>Process_Moments\<close>).  So it is exact when no update overlaps
  the call, and never more than the policies before or after grant when one does, while two
  can make it grant what was never authorized.  Every response is counted and is audited or
  dropped with a warning, every reachable state is well typed, and a call needs at most four
  steps of its own.  With the coarse steps of \<open>Bouncer_System\<close>, in which no update overlaps a
  call, every response is the decision of the policies in force.  When \<open>main\<close> returns the
  audit log is complete; when \<open>Serve\<close> fails, buffered records are lost.
  A scraped policy count is off by one at most for every update that overlaps the scrape.
  In a deployment every replica has applied a prefix of the stream since it booted, can
  catch up by itself within seven steps for every entry left, and agrees with every replica
  that has caught up too; but a restarted one answers calls while it replays the stream, by
  the policies of any position of it, and in a demonstration this lets a blocked principal
  through.  In front of it, the adapter and the proxy forward exactly the requests that the
  policies in force authorize (with overlapping calls, by the same moments as the responses),
  their refusals have the status of their cause and are JSON that reads back to exactly its
  members whatever the reason says, they serve only after seeding, and seeding with retries, by
  any number of enforcement points at the same time, amounts to applying every file once, while
  the policy of a removed file stays.  For the policy files of the two demonstrations this adds
  up to a decision table in terms of the roles, the method and the path.  The documents of the two command-line clients are proved to decode, the
  seeded ones to grant exactly what their comments say, and the exit status of the seeder to
  tell whether the engine enforces them.  As a validation of the model, every scenario of the
  engine's test data has the result that it expects.

  Bounds and termination.  No definition uses fuel.  Loops over finite data are structural or
  have a measure; the loops that may run for ever (the subscriber, the seeding, the compare-
  and-swap loops) are recursions over the rounds or the schedule of the environment, and their
  progress is a theorem about the environments that let them progress.  The nesting limit of
  the JSON reader, 10000, and the buffer and pool sizes of \<open>main\<close>, 10000 and 5, are the code's;
  the reader of patterns takes at most 500 bytes, well inside the limits of the library.

  Parameters.  The regular-expression engine (\<open>go_regexp\<close> is its instance for the patterns
  of the repository, and leaves patterns outside its syntax to a parameter again), the
  Prometheus client and floating-point division, the Redis client, Envoy's messages, the
  server of grpc-go in the adapter (when it accepts, what a graceful stop does and when
  \<open>Serve\<close> returns) and the texts of library errors, with a concrete instance in every witness;
  the iteration order of a map and the sort of \<open>sort.Slice\<close>, with their laws.  A read of the
  stream by a replica (\<open>xread_after\<close>) is the documented answer of XREAD after a position.

  Granularity.  In \<open>conc_step\<close> the atomic loads and compare-and-swaps of the store are steps of
  their own, and so are the moves of the audit workers; the evaluation of a call on the tables
  that it loaded, with the hand-over of its record, is one step, and so are the increment of
  the counter and the observation of the histogram at its end.  \<open>bouncer_step\<close> has a whole call and a whole entry as one step.

  Not modelled.  The integration tests of the server, which sample what is proved of all runs.
  Log lines other than the audit records, time other than as an argument (so the
  two-second deadline of a call to the engine is a fault that may strike it), the proxied
  exchange, the HTTP exchange around a scrape, listening sockets beyond their failure, and the
  reflection code that protoc generates.  The engine of \<open>internal/engine\<close> holds nothing but its
  provider and is identified with it.  The case mapping in \<open>Go_Text\<close> is exact for
  comparison with ASCII strings only, so header lookup is exact for an ASCII header name.
\<close>

subsection \<open>Enforcement points in front of the process\<close>

text \<open>
  C2: the edge enforces the policies of the stream.  In front of the process in any reachable
  state, the Envoy adapter lets a request through exactly when it carries a readable payload
  with a subject, the call of the engine, which no update overlaps, does not fail on the way,
  and the policies that the
  stream entries applied so far leave in force authorize the request that the adapter builds
  from the claims, the method, the path and the source address.
\<close>

theorem extauthz_enforces_policies:
  assumes "bouncer_run rx lib es b" "range_order oa" "range_order od"
  shows "forwarded (Check et ord ph
        (rpc_client fault (\<lambda>req. grpc_call rx lib oa od t recv (Inr req)) b) req)
    \<longleftrightarrow> (\<exists>claims. extractClaims ord ph (ck_headers req) = Inr claims
          \<and> fault (authz_request req claims) = None
          \<and> authorized rx (run_table rx es) (eval_request (authz_request req claims)))"
  by (rule extauthz_forwards [OF assms])

text \<open>
  The reverse proxy of the httpbin example enforces the same decision: it proxies a request
  exactly when the call of the engine does not fail and the policies in force authorize the
  request it builds.
\<close>

theorem pep_enforces_policies:
  assumes "bouncer_run rx lib es b" "range_order oa" "range_order od"
  shows "pep_handler (rpc_client fault (\<lambda>req. grpc_call rx lib oa od t recv (Inr req)) b) r = Proxied
    \<longleftrightarrow> fault (pep_request r) = None
        \<and> authorized rx (run_table rx es) (eval_request (pep_request r))"
  by (rule pep_forwards [OF assms])

text \<open>
  C19: the edge under overlapping requests and updates.  Take any run of the process with
  overlapping calls in which an enforcement point got its response, whatever updates overlap the
  call.  The Envoy adapter or the reverse proxy lets the request through exactly when an allow
  policy in force at one moment of the call applies to the request that it built, and no deny
  policy in force at that moment or a later one of the call does; when no update overlaps the
  call, both moments are the present.
\<close>

theorem edge_decides_by_moments:
  assumes "conc_run rx lib (xs @ Answered i req resp # ys) s" "client req = Inr resp"
  shows "\<exists>a d. length (finished rx (before_call i xs)) \<le> a \<and> a \<le> d \<and> d \<le> length (begun rx xs)
    \<and> (\<forall>ck claims. extractClaims ord ph (ck_headers ck) = Inr claims \<longrightarrow> authz_request ck claims = req \<longrightarrow>
        (forwarded (Check et ord ph client ck)
          \<longleftrightarrow> granted rx (allow_part (table_of (take a (begun rx xs))))
                (deny_part (table_of (take d (begun rx xs)))) (eval_request req)))
    \<and> (\<forall>r. pep_request r = req \<longrightarrow>
        (pep_handler client r = Proxied
          \<longleftrightarrow> granted rx (allow_part (table_of (take a (begun rx xs))))
                (deny_part (table_of (take d (begun rx xs)))) (eval_request req)))"
proof -
  have "forwarded (Check et ord ph client ck) = crs_Allowed resp"
    if "extractClaims ord ph (ck_headers ck) = Inr claims" "authz_request ck claims = req" for ck claims
    using that assms(2) by (simp add: forwarded_Check)
  moreover have "(pep_handler client r = Proxied) = crs_Allowed resp" if "pep_request r = req" for r
    using that assms(2) by (simp add: pep_handler_def Let_def)
  ultimately show ?thesis using response_moments [OF assms(1)] by metis
qed

text \<open>
  The one-sided statement needs less of the service: it follows from the contract of the
  process as a decision service alone.
\<close>

lemma extauthz_sound:
  "system_usable lib oa od b \<Longrightarrow>
   forwarded (Check et ord ph (rpc_client fault (\<lambda>req. grpc_call rx lib oa od t recv (Inr req)) b) req) \<Longrightarrow>
   \<exists>claims. extractClaims ord ph (ck_headers req) = Inr claims
     \<and> system_decides rx b (authz_request req claims)"
  by (rule decision_service.Check_enforces [OF process.decision_service_axioms])

subsection \<open>Seeding, the stream and the engine\<close>

text \<open>
  What the seeding tool publishes is what the engine enforces.  When seeding has returned,
  after any number of failed rounds, and the subscriber has had as many delivering rounds as
  the stream has entries, the engine decides every request by the seeded files alone, each
  applied once in the order of their identifiers.
\<close>

theorem seeded_files_decide:
  assumes "sr_done (seedPolicies files srs)" "map snd es = sr_entries (seedPolicies files srs)"
    and "\<forall>r \<in> set rs. delivers key es r" "length es \<le> length rs"
    and "range_order oa" "range_order od"
  shows "\<exists>resp. CheckAccess rx (ListActivePolicies oa od)
       (sub_store (Start rx rs (NewPolicyUpdateSubscriber key NewPolicyStore))) req t = Inr resp
     \<and> (resp_Allowed resp
          \<longleftrightarrow> authorized rx (foldl table_update (\<lambda>_. None) (files_updates rx files)) req)"
  by (rule seeded_engine [OF assms])

subsection \<open>The clients that check the engine\<close>

text \<open>
  A polling client in front of the process: in round \<open>i\<close> the process has gone through the run
  \<open>past i\<close>, and the call reaches it or fails on the way.
\<close>

definition polled ::
  "'r regexp_lib \<Rightarrow> ('c, 'f) prom_lib \<Rightarrow> 'r map_order \<Rightarrow> 'r map_order \<Rightarrow> CheckAccessRequest
     \<Rightarrow> (nat \<Rightarrow> bouncer_event list) \<Rightarrow> (nat \<Rightarrow> CheckAccessRequest \<Rightarrow> string option)
     \<Rightarrow> ((string + CheckAccessResponse) \<times> bool) list \<Rightarrow> bool" where
  "polled rx lib oa od probe past fault rounds \<longleftrightarrow>
     (\<forall>i < length rounds. \<exists>b t recv. bouncer_run rx lib (past i) b
        \<and> fst (rounds ! i)
          = rpc_client (fault i) (\<lambda>req. grpc_call rx lib oa od t recv (Inr req)) b probe)"

lemma polled_status:
  assumes "range_order oa" "range_order od" "polled rx lib oa od probe past fault rounds"
  shows "probe_status rounds = Some 0 \<longleftrightarrow>
    (\<exists>i < length rounds. fault i probe = None \<and> authorized rx (run_table rx (past i)) (eval_request probe)
       \<and> (\<forall>j < i. \<not> snd (rounds ! j)))"
proof -
  have "round_allowed (rounds ! i) \<longleftrightarrow>
      fault i probe = None \<and> authorized rx (run_table rx (past i)) (eval_request probe)"
    if i: "i < length rounds" for i
  proof -
    obtain b t recv where run: "bouncer_run rx lib (past i) b"
      and ans: "fst (rounds ! i) = rpc_client (fault i) (\<lambda>req. grpc_call rx lib oa od t recv (Inr req)) b probe"
      using assms(3) i unfolding polled_def by blast
    obtain late where r: "rounds ! i = (fst (rounds ! i), late)" by (metis prod.collapse)
    show ?thesis
      using rpc_client_process [OF run assms(1,2), where fault = "fault i" and req = probe and t = t and recv = recv]
      unfolding ans [symmetric] by (subst r) (auto split: option.splits)
  qed
  then show ?thesis unfolding probe_status_success by blast
qed

text \<open>
  C39: the exit status of the seeder tells whether the engine enforces the seeded policies.
  In front of the process the seeder ends with status 0 exactly when it could dial, all three
  documents went out, and in some round not later than the first one past the deadline the
  call, which no update overlaps, came through and the policies in force authorized the probe.  In particular it does when
  the process had, in such a round, applied the published entries last, after any history in
  which no deny policy under another identifier is left in force that applies to the probe.
\<close>

theorem seeder_exit_status:
  fixes env rx
  defines "rounds \<equiv> de_rounds env (bouncer_target (de_getenv env))"
    and "sent \<equiv> de_dial env (bouncer_target (de_getenv env)) \<and> publishes env (length seed_documents)"
  assumes "range_order oa" "range_order od" "polled rx lib oa od seed_probe past fault rounds"
  shows "(snd (seed_main env) = Some 0 \<longleftrightarrow> sent
      \<and> (\<exists>i < length rounds. fault i seed_probe = None \<and> (\<forall>j < i. \<not> snd (rounds ! j))
           \<and> authorized rx (run_table rx (past i)) (eval_request seed_probe)))
    \<and> (\<forall>i history. sent \<longrightarrow> i < length rounds \<longrightarrow> fault i seed_probe = None \<longrightarrow> (\<forall>j < i. \<not> snd (rounds ! j)) \<longrightarrow>
         event_updates rx (past i) = history @ concat (map (entry_updates rx) (fst (seed_main env))) \<longrightarrow>
         (\<forall>k p. k \<notin> fst ` set seed_documents \<longrightarrow> foldl table_update (\<lambda>_. None) history k = Some p \<longrightarrow>
            pol_Access p \<noteq> AccessAllow \<longrightarrow> \<not> applies rx p (eval_request seed_probe)) \<longrightarrow>
         snd (seed_main env) = Some 0)"
proof -
  have status: "snd (seed_main env) = Some 0 \<longleftrightarrow> sent
      \<and> (\<exists>i < length rounds. fault i seed_probe = None \<and> (\<forall>j < i. \<not> snd (rounds ! j))
           \<and> authorized rx (run_table rx (past i)) (eval_request seed_probe))"
    using seed_main_status [of env] polled_status [OF assms(3-5)]
    unfolding rounds_def sent_def by blast
  moreover have "authorized rx (run_table rx (past i)) (eval_request seed_probe)"
    if "sent" "event_updates rx (past i) = history @ concat (map (entry_updates rx) (fst (seed_main env)))"
      and "\<forall>k p. k \<notin> fst ` set seed_documents \<longrightarrow> foldl table_update (\<lambda>_. None) history k = Some p \<longrightarrow>
            pol_Access p \<noteq> AccessAllow \<longrightarrow> \<not> applies rx p (eval_request seed_probe)" for i history
    using that seed_main_entries [of env rx]
      seed_probe_decided [of rx "foldl table_update (\<lambda>_. None) history"]
    by (simp add: sent_def run_table_def)
  ultimately show ?thesis by blast
qed

subsection \<open>Witnesses\<close>

text \<open>A policy for the demo upstream, and the process after it arrived.\<close>

definition httpbin_policy :: "string policy" where
  "httpbin_policy = mk_policy ''h'' AccessAllow ''httpbin'' ''READ'' []"

lemma httpbin_document_decodes:
  "Unmarshal_policy (policy_document httpbin_policy) = Some httpbin_policy"
proof -
  have "valid_policy httpbin_policy" by code_simp
  moreover have "source_policy httpbin_policy = httpbin_policy" by code_simp
  ultimately show ?thesis using Unmarshal_document by metis
qed

lemma httpbin_policy_fields [simp]:
  "pol_Access httpbin_policy = AccessAllow" "Compile rx httpbin_policy = (httpbin_policy, None)"
  by (simp_all add: httpbin_policy_def mk_policy_def Compile_def)

definition httpbin_entry :: entry_values where
  "httpbin_entry = Publish_values ActionUpsert ''h'' (policy_document httpbin_policy)"

lemma httpbin_entry_updates: "entry_updates literal_regexp httpbin_entry = [Upsert httpbin_policy]"
  using Unmarshal_nonempty [OF httpbin_document_decodes]
  by (simp add: httpbin_entry_def entry_updates_def entry_update_def processMessageEntry_def
      httpbin_document_decodes)

lemma httpbin_authorized:
  assumes "req_ResourceType req = ''httpbin''"
  shows "authorized literal_regexp (run_table literal_regexp [Applied httpbin_entry]) req
    \<longleftrightarrow> req_Action req = ''READ''"
  using assms
  by (auto simp: run_table_def event_updates_def httpbin_entry_updates authorized_def granted_def
      allow_part_def deny_part_def ran_def httpbin_policy_def mk_policy_def applies_def
      split: if_splits)

lemma httpbin_run:
  "bouncer_run literal_regexp sample_prom [Applied httpbin_entry]
     (apply_entry literal_regexp httpbin_entry sample_boot)"
  using Step [OF Boot [OF sample_main_setup] Apply, of literal_regexp httpbin_entry] by simp

theorem extauthz_enforces_policies_witness:
  "forwarded (Check (\<lambda>_. []) rev ''x-jwt-payload''
      (rpc_client (\<lambda>_. None) (\<lambda>req. grpc_call literal_regexp sample_prom rev rev 5 0 (Inr req))
        (apply_entry literal_regexp httpbin_entry sample_boot)) sample_check)"
proof -
  have "authorized literal_regexp (run_table literal_regexp [Applied httpbin_entry])
      (eval_request (authz_request sample_check sample_claims))"
    by (subst httpbin_authorized)
       (simp_all add: eval_request_def authz_request_def sample_check_def read_method)
  then show ?thesis
    using extauthz_enforces_policies [OF httpbin_run range_order_rev range_order_rev]
      sample_check_claims by simp
qed

theorem pep_enforces_policies_witness:
  "pep_handler (rpc_client (\<lambda>_. None) (\<lambda>req. grpc_call literal_regexp sample_prom rev rev 5 0 (Inr req))
      (apply_entry literal_regexp httpbin_entry sample_boot)) sample_http = Proxied"
proof -
  have "authorized literal_regexp (run_table literal_regexp [Applied httpbin_entry])
      (eval_request (pep_request sample_http))"
    by (subst httpbin_authorized)
       (simp_all add: eval_request_def pep_request_def sample_http_def read_method Let_def)
  then show ?thesis
    using pep_enforces_policies [OF httpbin_run range_order_rev range_order_rev] by simp
qed

theorem seeded_files_decide_witness:
  "\<exists>resp. CheckAccess literal_regexp (ListActivePolicies rev rev)
       (sub_store (Start literal_regexp [full_round ''k'' seeded_stream]
          (NewPolicyUpdateSubscriber ''k'' NewPolicyStore))) (sample_request ''admin'') 5 = Inr resp
     \<and> resp_Allowed resp"
proof -
  note sample_files_authorized
  moreover have "sr_done (seedPolicies [sample_file] [AllPublished])"
    "map snd seeded_stream = sr_entries (seedPolicies [sample_file] [AllPublished])"
    by (simp_all add: seedPolicies_def seeded_stream_def)
  moreover have "\<forall>r \<in> set [full_round ''k'' seeded_stream]. delivers ''k'' seeded_stream r"
    "length seeded_stream \<le> length [full_round ''k'' seeded_stream]"
    using seeded_delivers by (simp_all add: seeded_stream_def)
  ultimately show ?thesis
    using seeded_files_decide [of "[sample_file]" "[AllPublished]" seeded_stream
        "[full_round ''k'' seeded_stream]" "''k''" rev rev literal_regexp "sample_request ''admin''" 5]
    by simp
qed

theorem edge_decides_by_moments_witness:
  "\<exists>k resp s. conc_run literal_regexp sample_prom
      (entry_then_call k httpbin_entry (pep_request sample_http) resp
        @ Answered 0 (pep_request sample_http) resp # []) s
    \<and> pep_handler (\<lambda>_. Inr resp) sample_http = Proxied"
proof -
  obtain k resp s where run: "conc_run literal_regexp sample_prom
      (entry_then_call k httpbin_entry (pep_request sample_http) resp
        @ Answered 0 (pep_request sample_http) resp # []) s"
    using entry_call_run by blast
  have "authorized literal_regexp (run_table literal_regexp [Applied httpbin_entry])
      (eval_request (pep_request sample_http))"
    by (subst httpbin_authorized)
       (simp_all add: eval_request_def pep_request_def sample_http_def read_method Let_def)
  then have "authorized literal_regexp (table_of [Upsert httpbin_policy]) (eval_request (pep_request sample_http))"
    by (simp only: run_table_def table_of_def event_updates_def httpbin_entry_updates list.map
        bouncer_event.case concat.simps append_Nil2)
  moreover obtain a d where ad: "length [Upsert httpbin_policy] \<le> a" "a \<le> d" "d \<le> length [Upsert httpbin_policy]"
      "pep_handler (\<lambda>_. Inr resp) sample_http = Proxied \<longleftrightarrow> granted literal_regexp
         (allow_part (table_of (take a [Upsert httpbin_policy]))) (deny_part (table_of (take d [Upsert httpbin_policy])))
         (eval_request (pep_request sample_http))"
    using edge_decides_by_moments [OF run, of "\<lambda>_. Inr resp"]
    unfolding entry_call_window httpbin_entry_updates by blast
  moreover have "take a [Upsert httpbin_policy] = [Upsert httpbin_policy]"
    "take d [Upsert httpbin_policy] = [Upsert httpbin_policy]" using ad(1-3) by simp_all
  ultimately have "pep_handler (\<lambda>_. Inr resp) sample_http = Proxied" by (simp only: authorized_def)
  with run show ?thesis by blast
qed

text \<open>A seeder that starts before the engine has any policy, and one probe after it has them.\<close>

definition sample_past :: "nat \<Rightarrow> bouncer_event list" where
  "sample_past i = (if i = 0 then []
     else map Applied (fst (publish_all seed_documents (replicate (length seed_documents) True))))"

definition sample_answer :: "nat \<Rightarrow> string + CheckAccessResponse" where
  "sample_answer i = rpc_client (\<lambda>_. None)
     (\<lambda>req. grpc_call literal_regexp sample_prom rev rev 5 0 (Inr req))
     (foldl (\<lambda>b e. case e of Applied vs \<Rightarrow> apply_entry literal_regexp vs b | _ \<Rightarrow> b) sample_boot (sample_past i))
     seed_probe"

definition sample_demo_env :: demo_env where
  "sample_demo_env =
     \<lparr>de_getenv = (\<lambda>_. []), de_dial = (\<lambda>a. a = ''localhost:50051''),
      de_publish = (\<lambda>a. if a = ''localhost:6379'' then [True, True, True] else []),
      de_rounds = (\<lambda>_. [(sample_answer 0, False), (sample_answer 1, False)])\<rparr>"

theorem seeder_exit_status_witness: "snd (seed_main sample_demo_env) = Some 0"
proof -
  let ?rounds = "de_rounds sample_demo_env (bouncer_target (de_getenv sample_demo_env))"
  have "bouncer_run literal_regexp sample_prom (sample_past i)
      (foldl (\<lambda>b e. case e of Applied vs \<Rightarrow> apply_entry literal_regexp vs b | _ \<Rightarrow> b) sample_boot (sample_past i))" for i
    using applied_state [OF Boot [OF sample_main_setup], of literal_regexp] Boot [OF sample_main_setup]
    by (auto simp: sample_past_def)
  moreover have "fst (?rounds ! i) = sample_answer i" if "i < length ?rounds" for i
    using that by (auto simp: sample_demo_env_def less_Suc_eq)
  ultimately have "polled literal_regexp sample_prom rev rev seed_probe sample_past (\<lambda>_ _. None) ?rounds"
    unfolding polled_def sample_answer_def by blast
  note status = seeder_exit_status [OF range_order_rev range_order_rev this]
  have "de_dial sample_demo_env (bouncer_target (de_getenv sample_demo_env))
      \<and> publishes sample_demo_env (length seed_documents)"
    by (simp add: sample_demo_env_def bouncer_target_def publishes_def AddrFromEnv_def DefaultAddr_def
        seed_documents_def)
  moreover have "event_updates literal_regexp (sample_past 1)
      = [] @ concat (map (entry_updates literal_regexp) (fst (seed_main sample_demo_env)))"
    using seed_main_entries [of sample_demo_env literal_regexp] calculation
    by (simp add: sample_past_def event_updates_def published_updates_def comp_def)
  moreover have "1 < length ?rounds" "\<forall>j < 1. \<not> snd (?rounds ! j)" by (simp_all add: sample_demo_env_def)
  moreover have "\<forall>k p. k \<notin> fst ` set seed_documents \<longrightarrow>
      foldl table_update (\<lambda>_. None) ([] :: string update list) k = Some p \<longrightarrow> pol_Access p \<noteq> AccessAllow \<longrightarrow>
      \<not> applies literal_regexp p (eval_request seed_probe)" by simp
  ultimately show ?thesis using status by blast
qed

end
